(* ===== verification/Prelude.thy ===== *)
theory Prelude
  imports
    Main
    "HOL-Library.Word"
    "HOL-Library.Char_ord"
    "HOL-Library.List_Lexorder"
    "HOL-Library.Sublist"
    "HOL-Library.AList"
begin

text \<open>
  What every component of the device plugin shares: results with an error, and the part
  of Go's standard library (packages \<open>strings\<close>, \<open>strconv\<close>, \<open>sort\<close>) the sources call.

  A Go string is a sequence of bytes, so it is a HOL \<open>string\<close> (a list of 8-bit characters).
  A Go \<open>int\<close> is an \<open>int\<close> here; the conversions from text (\<open>Atoi\<close>, \<open>ParseInt\<close>) keep the
  range check of the width they parse for, so every number that comes out of an annotation
  or of sysfs is in the range of its Go type. A Go error return is \<open>Inl\<close> of an error
  value, a normal return is \<open>Inr\<close>.
\<close>

section \<open>Lemma collections\<close>

named_theorems go_strings \<open>evaluation of the string operations on literals and appends\<close>
named_theorems plain_text \<open>facts saying which characters a rendered text can contain\<close>

section \<open>Results\<close>

text \<open>\<open>Inl e\<close> is a Go return with a non-nil error, \<open>Inr x\<close> one without.\<close>

type_synonym ('e, 'a) result = "'e + 'a"

definition bind_result :: "('e, 'a) result \<Rightarrow> ('a \<Rightarrow> ('e, 'b) result) \<Rightarrow> ('e, 'b) result" where
  "bind_result r f = (case r of Inl e \<Rightarrow> Inl e | Inr x \<Rightarrow> f x)"

lemma bind_result_simps [simp]:
  "bind_result (Inl e) f = Inl e"
  "bind_result (Inr x) f = f x"
  by (simp_all add: bind_result_def)

lemma bind_result_Inr_iff:
  "bind_result r f = Inr y \<longleftrightarrow> (\<exists>x. r = Inr x \<and> f x = Inr y)"
  by (cases r) simp_all

lemma bind_result_Inl_iff:
  "bind_result r f = Inl e \<longleftrightarrow> r = Inl e \<or> (\<exists>x. r = Inr x \<and> f x = Inl e)"
  by (cases r) simp_all

lemma bind_result_assoc:
  "bind_result (bind_result r f) g = bind_result r (\<lambda>x. bind_result (f x) g)"
  by (cases r) simp_all

lemma bind_result_cong [fundef_cong]:
  "r = r' \<Longrightarrow> (\<And>x. r' = Inr x \<Longrightarrow> f x = f' x) \<Longrightarrow> bind_result r f = bind_result r' f'"
  by (cases r') simp_all

text \<open>Wrapping an error, as \<open>fmt.Errorf("...: %w", err)\<close> does.\<close>

definition wrap_error :: "('e \<Rightarrow> 'f) \<Rightarrow> ('e, 'a) result \<Rightarrow> ('f, 'a) result" where
  "wrap_error w r = (case r of Inl e \<Rightarrow> Inl (w e) | Inr x \<Rightarrow> Inr x)"

lemma wrap_error_simps [simp]:
  "wrap_error w (Inl e) = Inl (w e)"
  "wrap_error w (Inr x) = Inr x"
  by (simp_all add: wrap_error_def)

lemma wrap_error_Inr_iff [simp]: "wrap_error w r = Inr x \<longleftrightarrow> r = Inr x"
  by (cases r) simp_all

lemma wrap_error_Inl_iff: "wrap_error w r = Inl e \<longleftrightarrow> (\<exists>e'. r = Inl e' \<and> e = w e')"
  by (cases r) auto

text \<open>A loop that builds one result per element and returns at the first error.\<close>

fun traverse :: "('a \<Rightarrow> ('e, 'b) result) \<Rightarrow> 'a list \<Rightarrow> ('e, 'b list) result" where
  "traverse f [] = Inr []"
| "traverse f (x # xs) = bind_result (f x) (\<lambda>y. bind_result (traverse f xs) (\<lambda>ys. Inr (y # ys)))"

lemma traverse_Inr_iff:
  "traverse f xs = Inr ys \<longleftrightarrow> list_all2 (\<lambda>x y. f x = Inr y) xs ys"
  by (induction xs arbitrary: ys)
     (auto simp: bind_result_Inr_iff list_all2_Cons1)

lemma traverse_map: "(\<And>x. x \<in> set xs \<Longrightarrow> f (g x) = Inr (h x)) \<Longrightarrow> traverse f (map g xs) = Inr (map h xs)"
  by (induction xs) auto

section \<open>Characters\<close>

definition is_digit :: "char \<Rightarrow> bool" where
  "is_digit c \<longleftrightarrow> of_char c \<in> {48..57::nat}"

definition digit_val :: "char \<Rightarrow> nat" where
  "digit_val c = of_char c - 48"

definition digit_char :: "nat \<Rightarrow> char" where
  "digit_char d = char_of (48 + d)"

lemma is_digit_code [code]: "is_digit c \<longleftrightarrow> (let n = (of_char c :: nat) in 48 \<le> n \<and> n \<le> 57)"
  by (simp add: is_digit_def Let_def)

lemma of_char_char_of_small [simp]: "n < 256 \<Longrightarrow> of_char (char_of (n::nat)) = n"
  by simp

lemma digit_char_is_digit [simp]: "d < 10 \<Longrightarrow> is_digit (digit_char d)"
  by (simp add: is_digit_def digit_char_def)

lemma digit_val_digit_char [simp]: "d < 10 \<Longrightarrow> digit_val (digit_char d) = d"
  by (simp add: digit_val_def digit_char_def)

lemma digit_val_less [simp]: "is_digit c \<Longrightarrow> digit_val c < 10"
  by (auto simp: is_digit_def digit_val_def)

text \<open>ASCII lower case. Non-ASCII bytes are left alone: the sources lower-case PCI
  addresses, sysfs words and identifiers only.\<close>

definition lower_char :: "char \<Rightarrow> char" where
  "lower_char c = (let n = (of_char c :: nat) in if 65 \<le> n \<and> n \<le> 90 then char_of (n + 32) else c)"

definition ToLower :: "string \<Rightarrow> string" where
  "ToLower s = map lower_char s"

definition EqualFold :: "string \<Rightarrow> string \<Rightarrow> bool" where
  "EqualFold s t \<longleftrightarrow> ToLower s = ToLower t"

lemma lower_char_idem [simp]: "lower_char (lower_char c) = lower_char c"
  by (auto simp: lower_char_def Let_def)

lemma ToLower_idem [simp]: "ToLower (ToLower s) = ToLower s"
  by (simp add: ToLower_def)

lemma ToLower_append [simp]: "ToLower (s @ t) = ToLower s @ ToLower t"
  by (simp add: ToLower_def)

lemma ToLower_Nil [simp]: "ToLower [] = []"
  by (simp add: ToLower_def)

lemma length_ToLower [simp]: "length (ToLower s) = length s"
  by (simp add: ToLower_def)

section \<open>Package strings\<close>

definition HasPrefix :: "string \<Rightarrow> string \<Rightarrow> bool" where
  "HasPrefix s p \<longleftrightarrow> take (length p) s = p"

definition HasSuffix :: "string \<Rightarrow> string \<Rightarrow> bool" where
  "HasSuffix s p \<longleftrightarrow> length p \<le> length s \<and> drop (length s - length p) s = p"

lemma HasPrefix_iff: "HasPrefix s p \<longleftrightarrow> (\<exists>t. s = p @ t)"
  unfolding HasPrefix_def by (metis append_eq_conv_conj append_take_drop_id)

lemma HasSuffix_iff: "HasSuffix s p \<longleftrightarrow> (\<exists>t. s = t @ p)"
  unfolding HasSuffix_def by (metis append_take_drop_id append_eq_conv_conj diff_add_inverse2
      length_append le_add2)

lemma HasPrefix_append [simp, go_strings]: "HasPrefix (p @ s) p"
  by (simp add: HasPrefix_iff)

lemma HasSuffix_append [simp, go_strings]: "HasSuffix (s @ p) p"
  by (simp add: HasSuffix_iff)

lemma HasPrefix_Nil [simp]: "HasPrefix s []"
  by (simp add: HasPrefix_def)

fun Contains :: "string \<Rightarrow> string \<Rightarrow> bool" where
  "Contains [] p \<longleftrightarrow> p = []"
| "Contains (c # s) p \<longleftrightarrow> HasPrefix (c # s) p \<or> Contains s p"

lemma Contains_iff: "Contains s p \<longleftrightarrow> (\<exists>t u. s = t @ p @ u)"
proof (induction s)
  case Nil
  then show ?case by simp
next
  case (Cons c s)
  have "(\<exists>t u. c # s = t @ p @ u) \<longleftrightarrow> (\<exists>u. c # s = p @ u) \<or> (\<exists>t u. s = t @ p @ u)"
    by (metis append_Cons append_self_conv2 append_eq_Cons_conv)
  with Cons show ?case by (simp add: HasPrefix_iff)
qed

lemma Contains_char [simp]: "Contains s [c] \<longleftrightarrow> c \<in> set s"
  by (auto simp: Contains_iff in_set_conv_decomp)

definition TrimPrefix :: "string \<Rightarrow> string \<Rightarrow> string" where
  "TrimPrefix s p = (if HasPrefix s p then drop (length p) s else s)"

definition TrimSuffix :: "string \<Rightarrow> string \<Rightarrow> string" where
  "TrimSuffix s p = (if HasSuffix s p then take (length s - length p) s else s)"

lemma TrimSuffix_append [simp, go_strings]: "TrimSuffix (s @ p) p = s"
  by (simp add: TrimSuffix_def)

lemma TrimPrefix_append [simp, go_strings]: "TrimPrefix (p @ s) p = s"
  by (simp add: TrimPrefix_def)

definition CutPrefix :: "string \<Rightarrow> string \<Rightarrow> string option" where
  "CutPrefix s p = (if HasPrefix s p then Some (drop (length p) s) else None)"

text \<open>\<open>strings.Split(s, sep)\<close> for a one-character separator: always at least one part.\<close>

fun Split :: "char \<Rightarrow> string \<Rightarrow> string list" where
  "Split c [] = [[]]"
| "Split c (x # xs) =
     (if x = c then [] # Split c xs
      else (case Split c xs of [] \<Rightarrow> [[x]] | y # ys \<Rightarrow> (x # y) # ys))"

lemma Split_not_Nil [simp]: "Split c s \<noteq> []"
  by (induction s) (auto split: list.splits)

lemma Split_free [go_strings]: "c \<notin> set s \<Longrightarrow> Split c s = [s]"
  by (induction s) auto

lemma Split_append_sep [go_strings]: "c \<notin> set s \<Longrightarrow> Split c (s @ c # t) = s # Split c t"
  by (induction s) auto

lemma Split_parts_free: "p \<in> set (Split c s) \<Longrightarrow> c \<notin> set p"
  by (induction s arbitrary: p) (auto split: list.splits if_splits)

text \<open>\<open>strings.SplitN(s, sep, 2)\<close>.\<close>

definition SplitN2 :: "char \<Rightarrow> string \<Rightarrow> string list" where
  "SplitN2 c s =
     (case dropWhile (\<lambda>x. x \<noteq> c) s of
        [] \<Rightarrow> [s]
      | _ # t \<Rightarrow> [takeWhile (\<lambda>x. x \<noteq> c) s, t])"

lemma hd_SplitN2: "hd (SplitN2 c s) = takeWhile (\<lambda>x. x \<noteq> c) s"
proof (cases "dropWhile (\<lambda>x. x \<noteq> c) s")
  case Nil
  then have "takeWhile (\<lambda>x. x \<noteq> c) s = s"
    by (metis append_Nil2 takeWhile_dropWhile_id)
  with Nil show ?thesis unfolding SplitN2_def by (simp only: list.case list.sel)
next
  case (Cons a t)
  then show ?thesis unfolding SplitN2_def by (simp only: list.case list.sel)
qed

lemma takeWhile_sep [go_strings]: "c \<notin> set s \<Longrightarrow> takeWhile (\<lambda>x. x \<noteq> c) (s @ c # t) = s"
  by (induction s) auto

lemma takeWhile_free [go_strings]: "c \<notin> set s \<Longrightarrow> takeWhile (\<lambda>x. x \<noteq> c) s = s"
  by (induction s) auto

lemma hd_SplitN2_sep [go_strings]: "c \<notin> set s \<Longrightarrow> hd (SplitN2 c (s @ c # t)) = s"
  by (simp add: hd_SplitN2 takeWhile_sep)

lemma hd_SplitN2_free [go_strings]: "c \<notin> set s \<Longrightarrow> hd (SplitN2 c s) = s"
  by (simp add: hd_SplitN2 takeWhile_free)

text \<open>\<open>strings.Join\<close>.\<close>

fun Join :: "string list \<Rightarrow> string \<Rightarrow> string" where
  "Join [] sep = []"
| "Join [x] sep = x"
| "Join (x # y # ys) sep = x @ sep @ Join (y # ys) sep"

lemma Split_Join:
  "xs \<noteq> [] \<Longrightarrow> (\<And>x. x \<in> set xs \<Longrightarrow> c \<notin> set x) \<Longrightarrow> Split c (Join xs [c]) = xs"
  by (induction xs "[c]" rule: Join.induct) (auto simp: go_strings)

lemma Join_Cons: "xs \<noteq> [] \<Longrightarrow> Join (x # xs) sep = x @ sep @ Join xs sep"
  by (cases xs) auto

lemma Join_Split: "Join (Split c s) [c] = s"
proof (induction s)
  case Nil
  then show ?case by simp
next
  case (Cons x s)
  obtain p ps where ps: "Split c s = p # ps" by (cases "Split c s") auto
  with Cons show ?case by (cases ps) auto
qed

lemma set_Join: "set (Join xs sep) \<subseteq> \<Union> (set ` set xs) \<union> set sep"
  by (induction xs sep rule: Join.induct) auto

text \<open>\<open>strings.LastIndex\<close>: the last position where \<open>p\<close> starts, -1 if none.\<close>

fun LastIndex :: "string \<Rightarrow> string \<Rightarrow> int" where
  "LastIndex [] p = (if p = [] then 0 else -1)"
| "LastIndex (c # s) p =
     (let r = LastIndex s p
      in if r \<ge> 0 then r + 1 else if HasPrefix (c # s) p then 0 else -1)"

lemma LastIndex_ge: "-1 \<le> LastIndex s p"
  by (induction s) (auto simp: Let_def)

lemma LastIndex_Some: "LastIndex s p = int i \<Longrightarrow> HasPrefix (drop i s) p \<and> i \<le> length s"
proof (induction s arbitrary: i)
  case Nil
  then show ?case by (auto split: if_splits)
next
  case (Cons c s)
  show ?case
  proof (cases "0 \<le> LastIndex s p")
    case True
    with Cons.prems have "LastIndex s p = int (i - 1)" "0 < i" by auto
    with Cons.IH [of "i - 1"] show ?thesis by (cases i) auto
  next
    case False
    with Cons.prems show ?thesis by (auto simp: Let_def split: if_splits)
  qed
qed

lemma LastIndex_None_iff: "LastIndex s p = -1 \<longleftrightarrow> \<not> Contains s p"
proof (induction s)
  case Nil
  then show ?case by simp
next
  case (Cons c s)
  from LastIndex_ge [of s p] Cons show ?case by (auto simp: Let_def)
qed

lemma LastIndex_char_sep:
  "c \<notin> set t \<Longrightarrow> LastIndex (s @ c # t) [c] = int (length s)"
proof (induction s)
  case Nil
  then have "LastIndex t [c] = -1"
    using LastIndex_None_iff [of t "[c]"] by simp
  then show ?case by (simp add: HasPrefix_def)
next
  case (Cons a s)
  then show ?case by simp
qed

text \<open>
  \<open>strings.TrimSpace\<close> strips Unicode white space; \<open>space_encodings\<close> are the UTF-8
  encodings of all code points for which \<open>unicode.IsSpace\<close> holds.
\<close>

definition bytes :: "nat list \<Rightarrow> string" where
  "bytes ns = map char_of ns"

definition space_encodings :: "string list" where
  "space_encodings = map bytes
     ([[9], [10], [11], [12], [13], [32], [0xC2, 0x85], [0xC2, 0xA0], [0xE1, 0x9A, 0x80]]
      @ map (\<lambda>b. [0xE2, 0x80, b]) ([0x80..<0x8B] @ [0xA8, 0xA9, 0xAF])
      @ [[0xE2, 0x81, 0x9F], [0xE3, 0x80, 0x80]])"

fun strip_first :: "string list \<Rightarrow> string \<Rightarrow> string option" where
  "strip_first [] s = None"
| "strip_first (e # es) s = (if e \<noteq> [] \<and> HasPrefix s e then Some (drop (length e) s) else strip_first es s)"

lemma strip_first_shorter: "strip_first es s = Some t \<Longrightarrow> length t < length s"
proof (induction es)
  case Nil
  then show ?case by simp
next
  case (Cons e es)
  show ?case
  proof (cases "e \<noteq> [] \<and> HasPrefix s e")
    case True
    then obtain u where "s = e @ u" by (auto simp: HasPrefix_iff)
    with True Cons.prems show ?thesis by simp
  next
    case False
    with Cons show ?thesis by auto
  qed
qed

function trim_left :: "string list \<Rightarrow> string \<Rightarrow> string" where
  "trim_left es s = (case strip_first es s of None \<Rightarrow> s | Some t \<Rightarrow> trim_left es t)"
  by pat_completeness auto
termination
  by (relation "measure (\<lambda>(es, s). length s)") (auto dest: strip_first_shorter)

declare trim_left.simps [simp del]

definition TrimSpace :: "string \<Rightarrow> string" where
  "TrimSpace s = rev (trim_left (map rev space_encodings) (rev (trim_left space_encodings s)))"

text \<open>A text without any byte that can start or end a white-space character is kept.\<close>

definition space_bytes :: "char set" where
  "space_bytes = (\<Union> (set ` set space_encodings))"

definition spaceless :: "string \<Rightarrow> bool" where
  "spaceless s \<longleftrightarrow> (\<forall>c \<in> set s. (33::nat) \<le> of_char c \<and> of_char c < (128::nat))"

lemma spaceless_append [simp]: "spaceless (s @ t) \<longleftrightarrow> spaceless s \<and> spaceless t"
  by (auto simp: spaceless_def)

lemma spaceless_Nil [simp]: "spaceless []"
  by (simp add: spaceless_def)

lemma spaceless_Cons [simp]:
  "spaceless (c # s) \<longleftrightarrow> (33::nat) \<le> of_char c \<and> of_char c < (128::nat) \<and> spaceless s"
  by (auto simp: spaceless_def)

lemma strip_first_None:
  "(\<And>e. e \<in> set es \<Longrightarrow> \<not> HasPrefix s e \<or> e = []) \<Longrightarrow> strip_first es s = None"
  by (induction es) auto

lemma space_encoding_first:
  "e \<in> set space_encodings \<Longrightarrow> e \<noteq> [] \<and> \<not> (33 \<le> (of_char (hd e) :: nat) \<and> of_char (hd e) < (128::nat))"
  by (auto simp: space_encodings_def bytes_def)

lemma space_encoding_last:
  "e \<in> set space_encodings \<Longrightarrow> \<not> (33 \<le> (of_char (last e) :: nat) \<and> of_char (last e) < (128::nat))"
  by (auto simp: space_encodings_def bytes_def)

lemma trim_left_spaceless: "spaceless s \<Longrightarrow> trim_left space_encodings s = s"
proof -
  assume s: "spaceless s"
  have "strip_first space_encodings s = None"
  proof (rule strip_first_None)
    fix e assume e: "e \<in> set space_encodings"
    show "\<not> HasPrefix s e \<or> e = []"
      using s space_encoding_first [OF e] by (cases e) (auto simp: HasPrefix_iff)
  qed
  then show ?thesis by (simp add: trim_left.simps)
qed

lemma trim_right_spaceless: "spaceless s \<Longrightarrow> trim_left (map rev space_encodings) (rev s) = rev s"
proof -
  assume s: "spaceless s"
  have "strip_first (map rev space_encodings) (rev s) = None"
  proof (rule strip_first_None)
    fix e assume "e \<in> set (map rev space_encodings)"
    then obtain e' where e': "e' \<in> set space_encodings" and e: "e = rev e'" by auto
    have "e' \<noteq> []" using space_encoding_first [OF e'] by blast
    show "\<not> HasPrefix (rev s) e \<or> e = []"
    proof (intro disjI1 notI)
      assume "HasPrefix (rev s) e"
      then obtain t where "rev s = rev e' @ t" unfolding e HasPrefix_iff ..
      then have "s = rev t @ e'" by (metis rev_append rev_rev_ident)
      with s \<open>e' \<noteq> []\<close> have "(33::nat) \<le> of_char (last e') \<and> of_char (last e') < (128::nat)"
        by (simp add: spaceless_def)
      with space_encoding_last [OF e'] show False by blast
    qed
  qed
  then show ?thesis by (simp add: trim_left.simps)
qed

lemma TrimSpace_spaceless [simp]: "spaceless s \<Longrightarrow> TrimSpace s = s"
  by (simp add: TrimSpace_def trim_left_spaceless trim_right_spaceless)

lemma TrimSpace_Nil [simp]: "TrimSpace [] = []"
  by simp

text \<open>A text that neither starts nor ends with such a byte is kept, whatever is between.\<close>

lemma TrimSpace_ends:
  assumes "s \<noteq> []" "spaceless [hd s]" "spaceless [last s]"
  shows "TrimSpace s = s"
proof -
  have ends: "(33::nat) \<le> of_char (hd s)" "of_char (hd s) < (128::nat)"
    "(33::nat) \<le> of_char (last s)" "of_char (last s) < (128::nat)"
    using assms by simp_all
  have "\<not> HasPrefix s e \<or> e = []" if e: "e \<in> set space_encodings" for e
    using space_encoding_first [OF e] ends(1,2) by (cases e) (auto simp: HasPrefix_iff)
  then have "strip_first space_encodings s = None" by (rule strip_first_None)
  moreover have "\<not> HasPrefix (rev s) e \<or> e = []" if e: "e \<in> set (map rev space_encodings)" for e
  proof (rule ccontr)
    assume "\<not> (\<not> HasPrefix (rev s) e \<or> e = [])"
    then obtain t where t: "rev s = e @ t" "e \<noteq> []" by (auto simp: HasPrefix_iff)
    obtain e' where e': "e' \<in> set space_encodings" "e = rev e'" using e by auto
    have "hd e = last s" using t by (metis hd_append2 hd_rev)
    then have "last e' = last s" using e'(2) by (simp add: hd_rev)
    then show False using space_encoding_last [OF e'(1)] ends(3,4) by simp
  qed
  then have "strip_first (map rev space_encodings) (rev s) = None" by (rule strip_first_None)
  ultimately show ?thesis by (simp add: TrimSpace_def trim_left.simps)
qed

text \<open>\<open>strings.Fields\<close>: the maximal runs without white space; \<open>cur\<close> is the run being read.\<close>

function fields_from :: "string \<Rightarrow> string \<Rightarrow> string list" where
  "fields_from cur s =
     (case strip_first space_encodings s of
        Some t \<Rightarrow> (if cur = [] then fields_from [] t else cur # fields_from [] t)
      | None \<Rightarrow> (case s of [] \<Rightarrow> (if cur = [] then [] else [cur]) | c # t \<Rightarrow> fields_from (cur @ [c]) t))"
  by pat_completeness auto
termination
  by (relation "measure (\<lambda>(cur, s). length s)") (auto dest: strip_first_shorter)

declare fields_from.simps [simp del]

definition Fields :: "string \<Rightarrow> string list" where
  "Fields s = fields_from [] s"

lemma strip_first_spaceless: "spaceless s \<Longrightarrow> strip_first space_encodings s = None"
proof -
  assume s: "spaceless s"
  have "\<not> HasPrefix s e \<or> e = []" if e: "e \<in> set space_encodings" for e
  proof (rule ccontr)
    assume "\<not> (\<not> HasPrefix s e \<or> e = [])"
    then obtain t where "s = e @ t" "e \<noteq> []" by (auto simp: HasPrefix_iff)
    with s have "33 \<le> (of_char (hd e) :: nat) \<and> of_char (hd e) < (128::nat)"
      by (cases e) simp_all
    with space_encoding_first [OF e] show False by blast
  qed
  then show ?thesis by (rule strip_first_None)
qed

lemma strip_first_word:
  assumes "spaceless w" "w \<noteq> []"
  shows "strip_first space_encodings (w @ s) = None"
proof -
  obtain c w' where w: "w = c # w'" "(33::nat) \<le> of_char c" "of_char c < (128::nat)"
    using assms by (cases w) auto
  have "\<not> HasPrefix (w @ s) e \<or> e = []" if e: "e \<in> set space_encodings" for e
    using space_encoding_first [OF e] w by (cases e) (auto simp: HasPrefix_iff)
  then show ?thesis by (rule strip_first_None)
qed

lemma fields_from_word: "spaceless w \<Longrightarrow> fields_from cur (w @ s) = fields_from (cur @ w) s"
proof (induction w arbitrary: cur)
  case (Cons c w)
  then have "strip_first space_encodings ((c # w) @ s) = None" by (intro strip_first_word) simp_all
  with Cons show ?case by (subst fields_from.simps) simp
qed simp

lemma space_prefix: "strip_first space_encodings (CHR '' '' # s) = Some s"
  by (simp add: space_encodings_def bytes_def HasPrefix_def upt_rec char_of_def bit_Suc bit_0)

text \<open>Words joined by single spaces are their own fields.\<close>

lemma fields_from_words:
  assumes "spaceless w" "cur @ w \<noteq> []"
  shows "fields_from cur (w @ CHR '' '' # s) = (cur @ w) # fields_from [] s"
  using assms by (simp add: fields_from_word) (subst fields_from.simps, simp add: space_prefix)

lemma fields_from_last: "spaceless w \<Longrightarrow> cur @ w \<noteq> [] \<Longrightarrow> fields_from cur w = [cur @ w]"
proof -
  assume "spaceless w" "cur @ w \<noteq> []"
  then have "fields_from cur (w @ []) = fields_from (cur @ w) []" by (intro fields_from_word)
  moreover have "strip_first space_encodings [] = None" by (rule strip_first_spaceless) simp
  ultimately show ?thesis
    using \<open>cur @ w \<noteq> []\<close> by (simp add: fields_from.simps [of "cur @ w" "[]"])
qed

section \<open>Package strconv\<close>

datatype num_error = ErrSyntax | ErrRange

fun digits_of :: "nat \<Rightarrow> string" where
  "digits_of n = (if n < 10 then [digit_char n] else digits_of (n div 10) @ [digit_char (n mod 10)])"

declare digits_of.simps [simp del]

definition digits_val :: "string \<Rightarrow> nat" where
  "digits_val s = foldl (\<lambda>a c. a * 10 + digit_val c) 0 s"

definition all_digits :: "string \<Rightarrow> bool" where
  "all_digits s \<longleftrightarrow> s \<noteq> [] \<and> list_all is_digit s"

text \<open>\<open>strconv.Itoa\<close>, also \<open>%d\<close> and \<open>%v\<close> of an integer.\<close>

definition Itoa :: "int \<Rightarrow> string" where
  "Itoa i = (if i < 0 then CHR ''-'' # digits_of (nat (- i)) else digits_of (nat i))"

text \<open>
  \<open>strconv.ParseInt(s, 10, bits)\<close>: an optional sign, then decimal digits, then the range
  check of the width. \<open>strconv.Atoi\<close> is the same for the 64-bit \<open>int\<close>.
\<close>

definition ParseInt10 :: "nat \<Rightarrow> string \<Rightarrow> (num_error, int) result" where
  "ParseInt10 bits s =
     (let neg = (case s of c # _ \<Rightarrow> c = CHR ''-'' | [] \<Rightarrow> False);
          ds = (case s of c # t \<Rightarrow> if c = CHR ''-'' \<or> c = CHR ''+'' then t else s | [] \<Rightarrow> s)
      in if \<not> all_digits ds then Inl ErrSyntax
         else let v = (if neg then - int (digits_val ds) else int (digits_val ds))
              in if - (2 ^ (bits - 1)) \<le> v \<and> v < 2 ^ (bits - 1) then Inr v else Inl ErrRange)"

definition Atoi :: "string \<Rightarrow> (num_error, int) result" where
  "Atoi s = ParseInt10 64 s"

text \<open>\<open>strconv.ParseUint(s, 10, 64)\<close>: no sign.\<close>

definition ParseUint10 :: "string \<Rightarrow> (num_error, nat) result" where
  "ParseUint10 s =
     (if \<not> all_digits s then Inl ErrSyntax
      else if digits_val s < 2 ^ 64 then Inr (digits_val s) else Inl ErrRange)"

lemma digits_of_not_Nil [simp]: "digits_of n \<noteq> []"
  by (subst digits_of.simps) simp

lemma digits_of_digits: "list_all is_digit (digits_of n)"
proof (induction n rule: digits_of.induct)
  case (1 n)
  then show ?case by (subst digits_of.simps) auto
qed

lemma all_digits_digits_of [simp]: "all_digits (digits_of n)"
  by (simp add: all_digits_def digits_of_digits)

lemma digits_val_snoc: "digits_val (s @ [c]) = digits_val s * 10 + digit_val c"
  by (simp add: digits_val_def)

lemma digits_val_digits_of [simp]: "digits_val (digits_of n) = n"
proof (induction n rule: digits_of.induct)
  case (1 n)
  show ?case
  proof (cases "n < 10")
    case True
    then show ?thesis by (subst digits_of.simps) (simp add: digits_val_def)
  next
    case False
    with 1 have "digits_val (digits_of (n div 10)) = n div 10" by simp
    with False show ?thesis
      by (subst digits_of.simps) (simp add: digits_val_snoc)
  qed
qed

lemma digits_of_hd_digit: "is_digit (hd (digits_of n))"
  using digits_of_digits [of n] by (cases "digits_of n") auto

lemma minus_not_digit [simp]: "\<not> is_digit (CHR ''-'')" "\<not> is_digit (CHR ''+'')"
  "\<not> is_digit (CHR '','')" "\<not> is_digit (CHR '':'')" "\<not> is_digit (CHR '';'')"
  "\<not> is_digit (CHR ''#'')" "\<not> is_digit (CHR ''.'')" "\<not> is_digit (CHR '' '')"
  by (simp_all add: is_digit_def)

lemma ParseInt10_digits:
  assumes "all_digits ds"
  shows "ParseInt10 bits ds = (if int (digits_val ds) < 2 ^ (bits - 1) then Inr (int (digits_val ds)) else Inl ErrRange)"
proof -
  obtain c t where ds: "ds = c # t" and "is_digit c"
    using assms by (cases ds) (auto simp: all_digits_def)
  then have "c \<noteq> CHR ''-''" "c \<noteq> CHR ''+''" by auto
  moreover have "- (2 ^ (bits - 1)) \<le> int (digits_val ds)"
    by (rule order_trans [of _ 0]) auto
  ultimately show ?thesis using assms ds by (simp add: ParseInt10_def Let_def)
qed

lemma ParseInt10_minus:
  assumes "all_digits ds"
  shows "ParseInt10 bits (CHR ''-'' # ds) =
    (if - (2 ^ (bits - 1)) \<le> - int (digits_val ds) then Inr (- int (digits_val ds)) else Inl ErrRange)"
proof -
  have "- int (digits_val ds) < 2 ^ (bits - 1)"
    by (rule le_less_trans [of _ 0]) auto
  then show ?thesis using assms by (simp add: ParseInt10_def Let_def)
qed

theorem ParseInt10_Itoa:
  assumes "- (2 ^ (bits - 1)) \<le> i" "i < 2 ^ (bits - 1)"
  shows "ParseInt10 bits (Itoa i) = Inr i"
proof (cases "i < 0")
  case True
  with assms show ?thesis by (simp add: Itoa_def ParseInt10_minus)
next
  case False
  with assms show ?thesis by (simp add: Itoa_def ParseInt10_digits)
qed

lemma ParseInt10_range:
  "ParseInt10 bits s = Inr v \<Longrightarrow> - (2 ^ (bits - 1)) \<le> v \<and> v < 2 ^ (bits - 1)"
  by (auto simp: ParseInt10_def Let_def split: if_splits)

lemma Atoi_digits_of: "int n < 2 ^ 63 \<Longrightarrow> Atoi (digits_of n) = Inr (int n)"
  by (simp add: Atoi_def ParseInt10_digits)

lemma Atoi_Nil [simp]: "Atoi [] = Inl ErrSyntax"
  by (simp add: Atoi_def ParseInt10_def all_digits_def)

lemma set_digits_of: "c \<in> set (digits_of n) \<Longrightarrow> is_digit c"
  using digits_of_digits by (simp add: list_all_iff)

lemma set_Itoa [plain_text]: "c \<in> set (Itoa i) \<Longrightarrow> is_digit c \<or> c = CHR ''-''"
  by (auto simp: Itoa_def dest: set_digits_of split: if_splits)

lemma Itoa_free [plain_text]:
  "CHR '','' \<notin> set (Itoa i)" "CHR '':'' \<notin> set (Itoa i)" "CHR '';'' \<notin> set (Itoa i)"
  "CHR ''#'' \<notin> set (Itoa i)"
  by (auto dest: set_Itoa)

lemma digits_of_free [plain_text]:
  "CHR '','' \<notin> set (digits_of n)" "CHR ''-'' \<notin> set (digits_of n)" "CHR '';'' \<notin> set (digits_of n)"
  "CHR '':'' \<notin> set (digits_of n)" "CHR ''#'' \<notin> set (digits_of n)"
  by (auto dest: set_digits_of)

lemma is_digit_spaceless: "is_digit c \<Longrightarrow> 33 \<le> (of_char c :: nat) \<and> of_char c < (128::nat)"
  by (auto simp: is_digit_def)

lemma spaceless_digits_of [simp, plain_text]: "spaceless (digits_of n)"
  unfolding spaceless_def by (blast dest: set_digits_of is_digit_spaceless)

lemma Itoa_int: "Itoa (int n) = digits_of n"
  by (simp add: Itoa_def)

section \<open>Maps as association lists\<close>

text \<open>
  Go iterates a map in an unspecified order. Where the sources iterate a map, the model
  takes the map as an association list with distinct keys; the list order stands for the
  iteration order, and theorems about it hold for every order.
\<close>

abbreviation assoc_update :: "'k \<Rightarrow> 'v \<Rightarrow> ('k \<times> 'v) list \<Rightarrow> ('k \<times> 'v) list" where
  "assoc_update \<equiv> AList.update"

lemma map_of_assoc_update: "map_of (assoc_update k v m) = (map_of m)(k \<mapsto> v)"
  by (rule update_conv')

lemma keys_assoc_update: "fst ` set (assoc_update k v m) = insert k (fst ` set m)"
  by (simp add: dom_update)

lemma distinct_assoc_update:
  "distinct (map fst m) \<Longrightarrow> distinct (map fst (assoc_update k v m))"
  by (rule distinct_update)

end
