(* ===== verification/CuAllocation.thy ===== *)
theory CuAllocation
  imports Prelude
begin

unbundle bit_operations_syntax

text \<open>
  Package \<open>internal/pkg/cuallocation\<close>: the segmented bitmap of the compute units (CUs)
  of one GPU and its operations. An \<open>Allocation\<close> is a slice of \<open>uint64\<close> words, here a
  list of \<open>64 word\<close>. The Go functions update the slice in place and also return it; the
  model returns the slice as it is after the call next to the error or the result, so that
  "on error the bitmap is left unchanged" is a statement about the model. A read or write
  past the end of a slice panics in Go; it is the value \<open>IndexPanic\<close> here.

  The abstraction \<open>cus a\<close> is the set of CU numbers whose bit is set. The lemmas show that
  each operation is the set operation it stands for, and that \<open>AllocateN\<close> refines the
  abstract first-fit choice \<open>first_fit\<close>. The locale \<open>cu_bitmap\<close> is the interface the
  plugin's occupancy code relies on.
\<close>

section \<open>The bitmap and its operations\<close>

type_synonym allocation = "64 word list"

datatype cu_error =
    ErrTotalCUs
  | ErrBitmapShort
  | ErrDeltaShort
  | ErrDeltaOverlap
  | ErrN
  | ErrInsufficient int int
  | IndexPanic

definition wordsFor :: "int \<Rightarrow> int" where
  "wordsFor totalCUs = (if totalCUs \<le> 0 then 0 else (totalCUs + 64 - 1) div 64)"

definition NewAllocation :: "int \<Rightarrow> (cu_error, allocation) result" where
  "NewAllocation totalCUs =
     (if totalCUs \<le> 0 then Inl ErrTotalCUs else Inr (replicate (nat (wordsFor totalCUs)) 0))"

text \<open>\<open>math/bits.OnesCount64\<close>.\<close>

definition OnesCount64 :: "64 word \<Rightarrow> nat" where
  "OnesCount64 w = length (filter (bit w) [0..<64])"

definition CountAllocated :: "allocation \<Rightarrow> nat" where
  "CountAllocated a = foldl (\<lambda>count w. count + OnesCount64 w) 0 a"

definition AddAllocation :: "allocation \<Rightarrow> int \<Rightarrow> allocation \<Rightarrow> allocation \<times> cu_error option" where
  "AddAllocation a totalCUs addDelta =
     (let needWords = nat (wordsFor totalCUs) in
      if length a < needWords then (a, Some ErrBitmapShort)
      else if length addDelta < needWords then (a, Some ErrDeltaShort)
      else if list_ex (\<lambda>i. addDelta ! i AND a ! i \<noteq> 0) [0..<needWords] then (a, Some ErrDeltaOverlap)
      else (foldl (\<lambda>b i. b[i := b ! i OR addDelta ! i]) a [0..<needWords], None))"

text \<open>The closure \<open>isSet\<close>; \<open>None\<close> is the index panic.\<close>

definition isSet :: "allocation \<Rightarrow> nat \<Rightarrow> bool option" where
  "isSet a i =
     (if i div 64 < length a then Some (a ! (i div 64) AND push_bit (i mod 64) 1 \<noteq> 0) else None)"

definition set_cu :: "allocation \<Rightarrow> nat \<Rightarrow> allocation" where
  "set_cu a i = a[i div 64 := a ! (i div 64) OR push_bit (i mod 64) 1]"

text \<open>The inner loop \<open>free = free && !isSet(i)\<close>: \<open>isSet\<close> is not called once \<open>free\<close> is false.\<close>

fun unit_free :: "allocation \<Rightarrow> nat list \<Rightarrow> bool \<Rightarrow> bool option" where
  "unit_free a [] free = Some free"
| "unit_free a (i # is) free =
     (if free then (case isSet a i of None \<Rightarrow> None | Some b \<Rightarrow> unit_free a is (\<not> b))
      else unit_free a is False)"

text \<open>
  The outer loop over the units. \<open>AllocateN\<close> has replaced a \<open>unit\<close> below 1 by 1 before
  it, which the first conjunct of the guard repeats for termination.
\<close>

function alloc_loop ::
  "allocation \<Rightarrow> nat \<Rightarrow> nat \<Rightarrow> nat \<Rightarrow> nat \<Rightarrow> allocation \<Rightarrow> nat \<Rightarrow> (allocation \<times> nat) option" where
  "alloc_loop a totalCUs n unit start delta allocatedCount =
     (if 0 < unit \<and> start + unit \<le> totalCUs \<and> allocatedCount < n
      then (case unit_free a [start..<start + unit] True of
              None \<Rightarrow> None
            | Some False \<Rightarrow> alloc_loop a totalCUs n unit (start + unit) delta allocatedCount
            | Some True \<Rightarrow> alloc_loop a totalCUs n unit (start + unit)
                             (foldl set_cu delta [start..<start + unit]) (allocatedCount + unit))
      else Some (delta, allocatedCount))"
  by pat_completeness auto
termination
  by (relation "measure (\<lambda>(a, totalCUs, n, unit, start, delta, cnt). totalCUs - start)") auto

declare alloc_loop.simps [simp del]

definition round_up :: "int \<Rightarrow> int \<Rightarrow> int" where
  "round_up n unit = (n + unit - 1) div unit * unit"

definition AllocateN ::
  "allocation \<Rightarrow> int \<Rightarrow> int \<Rightarrow> int \<Rightarrow> allocation \<times> (cu_error, allocation) result" where
  "AllocateN a totalCUs n unit =
     (if n \<le> 0 then (a, Inl ErrN)
      else let unit = (if unit \<le> 0 then 1 else unit) in
      if length a < nat (wordsFor totalCUs) then (a, Inl ErrBitmapShort)
      else let n = round_up n unit in
      (case alloc_loop a (nat totalCUs) (nat n) (nat unit) 0 (replicate (length a) 0) 0 of
         None \<Rightarrow> (a, Inl IndexPanic)
       | Some (delta, allocatedCount) \<Rightarrow>
           if int allocatedCount \<noteq> n
           then (a, Inl (ErrInsufficient n (totalCUs - int (CountAllocated a))))
           else (foldl (\<lambda>b i. b[i := b ! i OR delta ! i]) a [0..<length a], Inr delta)))"

section \<open>Abstraction: the set of allocated CUs\<close>

definition cus :: "allocation \<Rightarrow> nat set" where
  "cus a = {i. i div 64 < length a \<and> bit (a ! (i div 64)) (i mod 64)}"

text \<open>A bitmap for \<open>t\<close> CUs: exactly \<open>wordsFor t\<close> words and no bit past the last CU.\<close>

definition wf_bitmap :: "int \<Rightarrow> allocation \<Rightarrow> bool" where
  "wf_bitmap t a \<longleftrightarrow> 0 < t \<and> length a = nat (wordsFor t) \<and> cus a \<subseteq> {..<nat t}"

lemma wordsFor_pos: "0 < t \<Longrightarrow> wordsFor t = (t + 63) div 64"
  by (simp add: wordsFor_def)

lemma wordsFor_covers: "i < nat t \<Longrightarrow> i div 64 < nat (wordsFor t)"
proof -
  assume i: "i < nat t"
  then have "int i < t" by simp
  then have "int i div 64 < (t + 63) div 64" by (simp add: zdiv_mono1)
  moreover have "0 < t" using i by simp
  ultimately have "int (i div 64) < wordsFor t" by (simp add: wordsFor_pos zdiv_int)
  then show ?thesis by simp
qed

lemma and_single_bit: "((w :: 64 word) AND push_bit j 1 \<noteq> 0) = bit w j"
  by (simp add: and_exp_eq_0_iff_not_bit)

lemma isSet_iff: "isSet a i = (if i div 64 < length a then Some (i \<in> cus a) else None)"
  unfolding isSet_def cus_def and_single_bit by simp

lemma cus_zero [simp]: "cus (replicate n 0) = {}"
  by (auto simp: cus_def)

lemma cus_zero_words [simp]: "cus [] = {}" "cus [0] = {}" "cus [0, 0] = {}"
  using cus_zero [of 0] cus_zero [of 1] cus_zero [of 2] by (simp_all add: numeral_2_eq_2)

lemma finite_cus [simp, intro]: "finite (cus a)"
proof (rule finite_subset)
  show "cus a \<subseteq> {..<64 * length a}"
    by (auto simp: cus_def)
qed simp

lemma length_set_cu [simp]: "length (set_cu a i) = length a"
  by (simp add: set_cu_def)

lemma cus_set_cu: "i div 64 < length a \<Longrightarrow> cus (set_cu a i) = insert i (cus a)"
proof (rule set_eqI)
  fix j assume i: "i div 64 < length a"
  have same: "j div 64 = i div 64 \<Longrightarrow> (j mod 64 = i mod 64 \<longleftrightarrow> j = i)"
    by (metis div_mult_mod_eq)
  show "j \<in> cus (set_cu a i) \<longleftrightarrow> j \<in> insert i (cus a)"
  proof (cases "j div 64 = i div 64")
    case True
    with i same show ?thesis
      by (auto simp: cus_def set_cu_def bit_simps)
  next
    case False
    then show ?thesis by (auto simp: cus_def set_cu_def)
  qed
qed

lemma length_foldl_set_cu [simp]: "length (foldl set_cu a is) = length a"
  by (induction "is" arbitrary: a) auto

lemma cus_foldl_set_cu:
  "(\<And>i. i \<in> set is \<Longrightarrow> i div 64 < length a) \<Longrightarrow> cus (foldl set_cu a is) = set is \<union> cus a"
proof (induction "is" arbitrary: a)
  case Nil
  then show ?case by simp
next
  case (Cons i "is")
  then show ?case by (simp add: cus_set_cu)
qed

text \<open>Or-ing the first \<open>n\<close> words.\<close>

lemma length_or_words [simp]:
  "length (foldl (\<lambda>b i. b[i := b ! i OR d ! i]) a is) = length a"
  by (induction "is" arbitrary: a) auto

lemma nth_or_words:
  assumes "j < length a"
  shows "foldl (\<lambda>b i. b[i := b ! i OR d ! i]) a [0..<n] ! j
    = (if j < n then a ! j OR d ! j else (a ! j :: 64 word))"
proof (induction n)
  case 0
  show ?case by simp
next
  case (Suc n)
  with assms show ?case by (cases "j = n") auto
qed

lemma cus_or_words:
  assumes "n \<le> length a" "n \<le> length d"
  shows "cus (foldl (\<lambda>b i. b[i := b ! i OR d ! i]) a [0..<n])
    = cus a \<union> {i \<in> cus d. i div 64 < n}"
  using assms by (auto simp: cus_def nth_or_words bit_simps split: if_splits)

lemma words_disjoint_iff:
  assumes "n \<le> length a" "n \<le> length d"
  shows "list_ex (\<lambda>i. d ! i AND a ! i \<noteq> 0) [0..<n] \<longleftrightarrow>
    (\<exists>c. c div 64 < n \<and> c \<in> cus a \<and> c \<in> cus d)"
proof
  assume "list_ex (\<lambda>i. d ! i AND a ! i \<noteq> 0) [0..<n]"
  then obtain i where i: "i < n" "d ! i AND a ! i \<noteq> 0" by (auto simp: list_ex_iff)
  then obtain j where "bit (d ! i AND a ! i) j" by (auto simp: bit_eq_iff)
  then have j: "bit (d ! i) j" "bit (a ! i) j" "j < 64"
    using bit_imp_le_length [of "d ! i" j] by (auto simp: bit_simps)
  then have "(64 * i + j) div 64 = i" "(64 * i + j) mod 64 = j" by simp_all
  with i j assms show "\<exists>c. c div 64 < n \<and> c \<in> cus a \<and> c \<in> cus d"
    by (intro exI [of _ "64 * i + j"]) (simp add: cus_def)
next
  assume "\<exists>c. c div 64 < n \<and> c \<in> cus a \<and> c \<in> cus d"
  then obtain c where c: "c div 64 < n" "c \<in> cus a" "c \<in> cus d" by blast
  then have "bit (d ! (c div 64) AND a ! (c div 64)) (c mod 64)"
    by (simp add: cus_def bit_simps)
  then have "d ! (c div 64) AND a ! (c div 64) \<noteq> 0" by auto
  with c show "list_ex (\<lambda>i. d ! i AND a ! i \<noteq> 0) [0..<n]"
    by (auto simp: list_ex_iff)
qed

section \<open>Counting\<close>

lemma OnesCount64_card: "OnesCount64 w = card {j. j < 64 \<and> bit w j}"
proof -
  have "OnesCount64 w = card (set (filter (bit w) [0..<64]))"
    by (subst distinct_card) (simp_all add: OnesCount64_def)
  then show ?thesis by simp
qed

lemma CountAllocated_sum: "CountAllocated a = (\<Sum>w\<leftarrow>a. OnesCount64 w)"
proof -
  have "foldl (\<lambda>count w. count + OnesCount64 w) s a = s + (\<Sum>w\<leftarrow>a. OnesCount64 w)" for s
    by (induction a arbitrary: s) auto
  then show ?thesis by (simp add: CountAllocated_def)
qed

lemma cus_snoc:
  "cus (a @ [w]) = cus a \<union> (\<lambda>j. 64 * length a + j) ` {j. j < 64 \<and> bit w j}"
proof (rule set_eqI)
  fix c :: nat
  have c: "c = 64 * (c div 64) + c mod 64" by simp
  show "c \<in> cus (a @ [w]) \<longleftrightarrow> c \<in> cus a \<union> (\<lambda>j. 64 * length a + j) ` {j. j < 64 \<and> bit w j}"
  proof (cases "c div 64 < length a")
    case True
    then have "64 * length a + j \<noteq> c" for j by (auto simp: div_nat_eqI)
    with True show ?thesis by (auto simp: cus_def nth_append)
  next
    case False
    then have "c \<in> cus (a @ [w]) \<longleftrightarrow> c div 64 = length a \<and> bit w (c mod 64)"
      by (auto simp: cus_def nth_append)
    also have "\<dots> \<longleftrightarrow> (\<exists>j. c = 64 * length a + j \<and> j < 64 \<and> bit w j)"
    proof
      assume "c div 64 = length a \<and> bit w (c mod 64)"
      with c show "\<exists>j. c = 64 * length a + j \<and> j < 64 \<and> bit w j"
        by (intro exI [of _ "c mod 64"]) auto
    next
      assume "\<exists>j. c = 64 * length a + j \<and> j < 64 \<and> bit w j"
      then show "c div 64 = length a \<and> bit w (c mod 64)" by auto
    qed
    finally show ?thesis using False by (auto simp: cus_def)
  qed
qed

lemma CountAllocated_card: "CountAllocated a = card (cus a)"
proof (induction a rule: rev_induct)
  case Nil
  then show ?case by (simp add: CountAllocated_def cus_def)
next
  case (snoc w a)
  have "cus a \<inter> (\<lambda>j. 64 * length a + j) ` {j. j < 64 \<and> bit w j} = {}"
    by (auto simp: cus_def)
  then have "card (cus (a @ [w])) = card (cus a) + card {j. j < 64 \<and> bit w j}"
    by (simp add: cus_snoc card_Un_disjoint card_image inj_on_def)
  with snoc show ?case by (simp add: CountAllocated_sum OnesCount64_card)
qed

section \<open>First fit\<close>

text \<open>
  The abstract specification: the CUs \<open>0..<t\<close> are cut into whole units of \<open>u\<close> CUs (a
  remainder is never handed out), \<open>free_units S t u\<close> lists the units without a CU in \<open>S\<close>
  in increasing order, and \<open>first_fit\<close> takes the first \<open>m\<close> of them when there are enough.
\<close>

definition unit_cus :: "nat \<Rightarrow> nat \<Rightarrow> nat set" where
  "unit_cus u k = {k * u..<k * u + u}"

definition free_units :: "nat set \<Rightarrow> nat \<Rightarrow> nat \<Rightarrow> nat list" where
  "free_units S t u = filter (\<lambda>k. unit_cus u k \<inter> S = {}) [0..<t div u]"

definition first_fit :: "nat set \<Rightarrow> nat \<Rightarrow> nat \<Rightarrow> nat \<Rightarrow> nat set option" where
  "first_fit S t m u =
     (let ks = free_units S t u in
      if length ks < m then None else Some (\<Union> (unit_cus u ` set (take m ks))))"

lemma unit_cus_disjoint: "k \<noteq> l \<Longrightarrow> unit_cus u k \<inter> unit_cus u l = {}"
proof -
  have "k < l \<Longrightarrow> unit_cus u k \<inter> unit_cus u l = {}" for k l
  proof -
    assume "k < l"
    then have "k * u + u \<le> l * u"
      by (metis Suc_leI add.commute mult_Suc mult_le_mono1)
    then show ?thesis by (auto simp: unit_cus_def)
  qed
  then show "k \<noteq> l \<Longrightarrow> unit_cus u k \<inter> unit_cus u l = {}"
    by (metis Int_commute nat_neq_iff)
qed

lemma unit_cus_bound: "0 < u \<Longrightarrow> k < t div u \<Longrightarrow> unit_cus u k \<subseteq> {..<t}"
proof -
  assume "0 < u" "k < t div u"
  then have "Suc k * u \<le> t" by (metis Suc_leI div_times_less_eq_dividend le_trans mult_le_mono1)
  then show ?thesis by (auto simp: unit_cus_def)
qed

lemma distinct_free_units [simp]: "distinct (free_units S t u)"
  by (simp add: free_units_def)

lemma unit_fits_iff: "0 < u \<Longrightarrow> k * u + u \<le> t \<longleftrightarrow> k < (t::nat) div u"
  by (metis Suc_le_eq add.commute div_le_mono less_eq_div_iff_mult_less_eq mult_Suc)

lemma card_units:
  "distinct ks \<Longrightarrow> card (\<Union> (unit_cus u ` set ks)) = u * length ks"
proof (induction ks)
  case Nil
  then show ?case by simp
next
  case (Cons k ks)
  then have "unit_cus u k \<inter> \<Union> (unit_cus u ` set ks) = {}"
    using unit_cus_disjoint [of k _ u] by fastforce
  moreover have "finite (\<Union> (unit_cus u ` set ks))" "finite (unit_cus u k)"
    by (auto simp: unit_cus_def)
  ultimately have "card (unit_cus u k \<union> \<Union> (unit_cus u ` set ks)) = u + u * length ks"
    using Cons by (simp add: card_Un_disjoint) (simp add: unit_cus_def)
  then show ?case by simp
qed

lemma unit_free_in_range:
  "(\<And>i. i \<in> set is \<Longrightarrow> i div 64 < length a) \<Longrightarrow>
   unit_free a is free = Some (free \<and> set is \<inter> cus a = {})"
  by (induction "is" arbitrary: free) (auto simp: isSet_iff)

text \<open>
  The loop from unit \<open>k\<close> with \<open>cnt = j * u\<close> CUs taken and \<open>m\<close> units wanted: it takes the
  first \<open>m - j\<close> free units from \<open>k\<close> on. No read is out of range.
\<close>

lemma alloc_loop_first_fit:
  assumes u: "0 < u" and t: "\<And>i. i < t \<Longrightarrow> i div 64 < length a" and "length delta = length a"
  shows "\<exists>delta' cnt'. alloc_loop a t (m * u) u (k * u) delta (j * u) = Some (delta', cnt')
    \<and> length delta' = length a
    \<and> cus delta' = cus delta \<union>
        \<Union> (unit_cus u ` set (take (m - j) (filter (\<lambda>k. unit_cus u k \<inter> cus a = {}) [k..<t div u])))
    \<and> cnt' = u * (j + min (m - j) (length (filter (\<lambda>k. unit_cus u k \<inter> cus a = {}) [k..<t div u])))"
    (is "\<exists>delta' cnt'. ?P k delta j delta' cnt'")
  using assms(3)
proof (induction "t div u - k" arbitrary: k delta j)
  case 0
  with u show ?case
    by (subst alloc_loop.simps) (auto simp: unit_fits_iff)
next
  case (Suc d)
  then have k: "k < t div u" and d: "d = t div u - Suc k" by auto
  then have fits: "k * u + u \<le> t" using u by (simp add: unit_fits_iff)
  have upt: "[k..<t div u] = k # [Suc k..<t div u]" using k by (simp add: upt_conv_Cons)
  have next_start: "k * u + u = Suc k * u" by simp
  show ?case
  proof (cases "j < m")
    case False
    then have "\<not> j * u < m * u" using u by simp
    with False Suc.prems show ?thesis by (subst alloc_loop.simps) simp
  next
    case True
    then have more: "j * u < m * u" using u by simp
    have range: "i div 64 < length a" if "i \<in> set [k * u..<k * u + u]" for i
      using that t fits by auto
    have free: "unit_free a [k * u..<k * u + u] True = Some (unit_cus u k \<inter> cus a = {})"
      using unit_free_in_range [of "[k * u..<k * u + u]" a True, OF range]
      by (simp add: unit_cus_def)
    have m: "m - j = Suc (m - Suc j)" using True by simp
    show ?thesis
    proof (cases "unit_cus u k \<inter> cus a = {}")
      case True
      let ?delta = "foldl set_cu delta [k * u..<k * u + u]"
      have cd: "cus ?delta = unit_cus u k \<union> cus delta"
        using Suc.prems range by (subst cus_foldl_set_cu) (auto simp: unit_cus_def)
      have "length ?delta = length a" using Suc.prems by simp
      from Suc.hyps(1) [OF d this, of "Suc j"] obtain delta' cnt' where
        IH: "?P (Suc k) ?delta (Suc j) delta' cnt'" by blast
      have "alloc_loop a t (m * u) u (k * u) delta (j * u)
          = alloc_loop a t (m * u) u (Suc k * u) ?delta (Suc j * u)"
        using u fits more free True
        by (subst alloc_loop.simps) (simp add: next_start add.commute)
      with IH True m show ?thesis
        by (intro exI [of _ delta'] exI [of _ cnt']) (auto simp: cd upt)
    next
      case False
      from Suc.hyps(1) [OF d Suc.prems, of j] obtain delta' cnt' where
        IH: "?P (Suc k) delta j delta' cnt'" by blast
      have "alloc_loop a t (m * u) u (k * u) delta (j * u)
          = alloc_loop a t (m * u) u (Suc k * u) delta (j * u)"
        using u fits more free False
        by (subst alloc_loop.simps) (simp add: next_start add.commute)
      with IH False show ?thesis
        by (intro exI [of _ delta'] exI [of _ cnt']) (auto simp: upt)
    qed
  qed
qed

section \<open>AllocateN refines first fit\<close>

definition unit_of :: "int \<Rightarrow> int" where
  "unit_of unit = (if unit \<le> 0 then 1 else unit)"

definition units_needed :: "int \<Rightarrow> int \<Rightarrow> nat" where
  "units_needed n unit = nat ((n + unit_of unit - 1) div unit_of unit)"

lemma unit_of_pos [simp]: "0 < unit_of unit" "\<not> unit_of unit \<le> 0"
  by (simp_all add: unit_of_def)

lemma round_up_units: "0 < n \<Longrightarrow> round_up n (unit_of unit) = int (units_needed n unit * nat (unit_of unit))"
proof -
  assume "0 < n"
  then have "0 \<le> (n + unit_of unit - 1) div unit_of unit"
    by (intro div_int_pos_iff [THEN iffD2]) (use unit_of_pos [of unit] in linarith)
  moreover have "0 \<le> unit_of unit" using unit_of_pos [of unit] by linarith
  ultimately show ?thesis by (simp add: round_up_def units_needed_def)
qed

lemma units_needed_pos: "0 < n \<Longrightarrow> 0 < units_needed n unit"
proof -
  assume "0 < n"
  then have "1 \<le> (n + unit_of unit - 1) div unit_of unit"
    using zdiv_mono1 [of "unit_of unit" "n + unit_of unit - 1" "unit_of unit"] unit_of_pos [of unit]
    by simp
  then show ?thesis by (simp add: units_needed_def)
qed

lemma round_up_bounds:
  assumes "0 < n"
  shows "n \<le> round_up n (unit_of unit)" "round_up n (unit_of unit) < n + unit_of unit"
proof -
  let ?u = "unit_of unit"
  have "(n + ?u - 1) div ?u * ?u + (n + ?u - 1) mod ?u = n + ?u - 1" by simp
  moreover have "0 \<le> (n + ?u - 1) mod ?u" "(n + ?u - 1) mod ?u < ?u" by simp_all
  ultimately show "n \<le> round_up n ?u" "round_up n ?u < n + ?u"
    unfolding round_up_def by linarith+
qed

lemma AllocateN_errors:
  "n \<le> 0 \<Longrightarrow> AllocateN a t n unit = (a, Inl ErrN)"
  "0 < n \<Longrightarrow> length a < nat (wordsFor t) \<Longrightarrow> AllocateN a t n unit = (a, Inl ErrBitmapShort)"
  by (simp_all add: AllocateN_def Let_def)

lemma AllocateN_first_fit:
  assumes n: "0 < n" and len: "nat (wordsFor t) \<le> length a"
  shows "case first_fit (cus a) (nat t) (units_needed n unit) (nat (unit_of unit)) of
      None \<Rightarrow> AllocateN a t n unit =
        (a, Inl (ErrInsufficient (round_up n (unit_of unit)) (t - int (card (cus a)))))
    | Some S \<Rightarrow> \<exists>a' d. AllocateN a t n unit = (a', Inr d) \<and> length a' = length a \<and> length d = length a
        \<and> cus d = S \<and> cus a' = cus a \<union> S"
proof -
  let ?u = "nat (unit_of unit)" and ?m = "units_needed n unit"
  let ?ks = "free_units (cus a) (nat t) ?u"
  have u: "0 < ?u" using unit_of_pos [of unit] by simp
  have range: "i div 64 < length a" if "i < nat t" for i
    using wordsFor_covers [OF that] len by simp
  obtain delta cnt where
    loop: "alloc_loop a (nat t) (?m * ?u) ?u (0 * ?u) (replicate (length a) 0) (0 * ?u) = Some (delta, cnt)"
      and len_d: "length delta = length a"
      and cus_d: "cus delta = \<Union> (unit_cus ?u ` set (take ?m ?ks))"
      and cnt: "cnt = ?u * min ?m (length ?ks)"
    using alloc_loop_first_fit [OF u, where t = "nat t" and a = a and k = 0 and j = 0 and m = ?m
        and delta = "replicate (length a) 0"] range
    by (auto simp: free_units_def)
  have need: "round_up n (unit_of unit) = int (?m * ?u)"
    using n by (rule round_up_units)
  have need': "nat (round_up n (unit_of unit)) = ?m * ?u"
    by (simp only: need nat_int)
  have step: "AllocateN a t n unit =
      (if int cnt \<noteq> round_up n (unit_of unit)
       then (a, Inl (ErrInsufficient (round_up n (unit_of unit)) (t - int (card (cus a)))))
       else (foldl (\<lambda>b i. b[i := b ! i OR delta ! i]) a [0..<length a], Inr delta))"
    using n len loop
    by (simp add: AllocateN_def Let_def unit_of_def [symmetric] CountAllocated_card need')
  have enough: "int cnt \<noteq> round_up n (unit_of unit) \<longleftrightarrow> length ?ks < ?m"
    unfolding need of_nat_eq_iff cnt using u by (auto simp: min_def)
  show ?thesis
  proof (cases "length ?ks < ?m")
    case True
    with enough step need show ?thesis by (simp add: first_fit_def)
  next
    case False
    have "cus (foldl (\<lambda>b i. b[i := b ! i OR delta ! i]) a [0..<length a])
        = cus a \<union> {i \<in> cus delta. i div 64 < length a}"
      by (rule cus_or_words) (simp_all add: len_d)
    also have "\<dots> = cus a \<union> cus delta"
      using len_d by (auto simp: cus_def)
    finally show ?thesis using False enough step len_d cus_d by (simp add: first_fit_def)
  qed
qed

lemma first_fit_Some:
  assumes "0 < u" "first_fit S t m u = Some T"
  shows "T \<subseteq> {..<t}" "T \<inter> S = {}" "card T = m * u"
proof -
  let ?ks = "take m (free_units S t u)"
  from assms have T: "T = \<Union> (unit_cus u ` set ?ks)" and len: "length ?ks = m"
    by (auto simp: first_fit_def Let_def split: if_splits)
  have ks: "k < t div u \<and> unit_cus u k \<inter> S = {}" if "k \<in> set ?ks" for k
    using in_set_takeD [OF that] by (simp add: free_units_def)
  show "T \<subseteq> {..<t}" using T ks unit_cus_bound [OF assms(1)] by blast
  show "T \<inter> S = {}" using T ks by blast
  show "card T = m * u" using T len card_units [of ?ks u] by (simp add: mult.commute)
qed

lemma AllocateN_Inr:
  assumes "AllocateN a t n unit = (a', Inr d)"
  shows "0 < n" "length a' = length a" "length d = length a"
    "cus d \<inter> cus a = {}" "cus a' = cus a \<union> cus d" "cus d \<subseteq> {..<nat t}"
    "int (card (cus d)) = round_up n (unit_of unit)"
    "first_fit (cus a) (nat t) (units_needed n unit) (nat (unit_of unit)) = Some (cus d)"
proof -
  show n: "0 < n" using assms AllocateN_errors(1) [of n a t unit] by fastforce
  have len: "nat (wordsFor t) \<le> length a"
    using assms AllocateN_errors(2) [OF n, of a t unit] by fastforce
  let ?ff = "first_fit (cus a) (nat t) (units_needed n unit) (nat (unit_of unit))"
  from AllocateN_first_fit [OF n len, of unit] assms obtain S where
    S: "?ff = Some S" "length a' = length a" "length d = length a" "cus d = S" "cus a' = cus a \<union> S"
    by (cases ?ff) auto
  have u: "0 < nat (unit_of unit)" using unit_of_pos [of unit] by simp
  from S show "length a' = length a" "length d = length a" "cus a' = cus a \<union> cus d" "?ff = Some (cus d)"
    by simp_all
  from first_fit_Some [OF u S(1)] S show "cus d \<inter> cus a = {}" "cus d \<subseteq> {..<nat t}" by simp_all
  from first_fit_Some(3) [OF u S(1)] S round_up_units [OF n, of unit]
  show "int (card (cus d)) = round_up n (unit_of unit)" by simp
qed

lemma AllocateN_Inl:
  assumes "AllocateN a t n unit = (a', Inl e)"
  shows "a' = a" "e \<noteq> IndexPanic"
proof -
  have "a' = a \<and> e \<noteq> IndexPanic"
  proof (cases "0 < n \<and> nat (wordsFor t) \<le> length a")
    case True
    with AllocateN_first_fit [of n t a unit] assms show ?thesis
      by (auto split: option.splits)
  next
    case False
    with AllocateN_errors [of n a t unit] assms show ?thesis by (cases "0 < n") auto
  qed
  then show "a' = a" "e \<noteq> IndexPanic" by simp_all
qed

text \<open>The CUs of a first fit come in whole units.\<close>

lemma unit_cus_iff: "0 < u \<Longrightarrow> c \<in> unit_cus u k \<longleftrightarrow> c div u = k"
proof
  assume "0 < u" "c \<in> unit_cus u k"
  then show "c div u = k" by (intro div_nat_eqI) (simp_all add: unit_cus_def mult.commute)
next
  assume u: "0 < u" and "c div u = k"
  then have "k * u + c mod u = c" "c mod u < u" by auto
  then have "k * u \<le> c" "c < k * u + u" by linarith+
  then show "c \<in> unit_cus u k" by (simp add: unit_cus_def)
qed

lemma first_fit_whole_units:
  assumes "0 < u" "first_fit S t m u = Some T" "c' \<in> T" "c div u = c' div u"
  shows "c \<in> T"
  using assms by (auto simp: first_fit_def Let_def unit_cus_iff split: if_splits)

section \<open>AddAllocation is disjoint union\<close>

lemma AddAllocation_spec:
  assumes "nat (wordsFor t) \<le> length a" "nat (wordsFor t) \<le> length d"
  shows "AddAllocation a t d =
    (if \<exists>c. c div 64 < nat (wordsFor t) \<and> c \<in> cus a \<and> c \<in> cus d then (a, Some ErrDeltaOverlap)
     else (foldl (\<lambda>b i. b[i := b ! i OR d ! i]) a [0..<nat (wordsFor t)], None))"
  using assms words_disjoint_iff [OF assms] by (simp add: AddAllocation_def Let_def)

lemma AddAllocation_unchanged: "AddAllocation a t d = (a', Some e) \<Longrightarrow> a' = a"
  by (auto simp: AddAllocation_def Let_def split: if_splits)

lemma AddAllocation_ok:
  assumes "wf_bitmap t a" "wf_bitmap t d" "cus a \<inter> cus d = {}"
  shows "\<exists>a'. AddAllocation a t d = (a', None) \<and> wf_bitmap t a' \<and> cus a' = cus a \<union> cus d"
proof -
  let ?a' = "foldl (\<lambda>b i. b[i := b ! i OR d ! i]) a [0..<nat (wordsFor t)]"
  have len: "nat (wordsFor t) = length a" "nat (wordsFor t) = length d"
    using assms by (simp_all add: wf_bitmap_def)
  have c: "cus ?a' = cus a \<union> cus d"
    using len cus_or_words [of "nat (wordsFor t)" a d] by (auto simp: cus_def)
  have "AddAllocation a t d = (?a', None)"
    using assms(3) len by (subst AddAllocation_spec) auto
  moreover have "wf_bitmap t ?a'"
    using assms c len by (simp add: wf_bitmap_def)
  ultimately show ?thesis using c by blast
qed

lemma AddAllocation_overlap:
  assumes "wf_bitmap t a" "wf_bitmap t d" "cus a \<inter> cus d \<noteq> {}"
  shows "AddAllocation a t d = (a, Some ErrDeltaOverlap)"
proof -
  have len: "nat (wordsFor t) = length a" "nat (wordsFor t) = length d"
    using assms by (simp_all add: wf_bitmap_def)
  from assms(3) obtain c where "c \<in> cus a" "c \<in> cus d" by blast
  moreover from this(1) len have "c div 64 < nat (wordsFor t)" by (simp add: cus_def)
  ultimately show ?thesis using len by (subst AddAllocation_spec) auto
qed

lemma NewAllocation_ok: "0 < t \<Longrightarrow> \<exists>a. NewAllocation t = Inr a \<and> wf_bitmap t a \<and> cus a = {}"
  by (simp add: NewAllocation_def wf_bitmap_def)

lemma AllocateN_wf:
  assumes "wf_bitmap t a" "AllocateN a t n unit = (a', Inr d)"
  shows "wf_bitmap t a'" "wf_bitmap t d"
  using assms AllocateN_Inr [OF assms(2)] by (auto simp: wf_bitmap_def)

section \<open>The interface the plugin relies on\<close>

text \<open>
  What the callers of the package use: a bitmap type with a validity predicate \<open>wf\<close> for a
  CU count, the set \<open>used\<close> it stands for, and the three operations with their laws.
\<close>

locale cu_bitmap =
  fixes wf :: "int \<Rightarrow> 'b \<Rightarrow> bool"
    and used :: "'b \<Rightarrow> nat set"
    and new :: "int \<Rightarrow> ('e, 'b) result"
    and add :: "'b \<Rightarrow> int \<Rightarrow> 'b \<Rightarrow> 'b \<times> 'e option"
    and alloc :: "'b \<Rightarrow> int \<Rightarrow> int \<Rightarrow> int \<Rightarrow> 'b \<times> ('e, 'b) result"
  assumes new_ok: "0 < t \<Longrightarrow> \<exists>b. new t = Inr b \<and> wf t b \<and> used b = {}"
    and add_ok: "wf t b \<Longrightarrow> wf t d \<Longrightarrow> used b \<inter> used d = {} \<Longrightarrow>
      \<exists>b'. add b t d = (b', None) \<and> wf t b' \<and> used b' = used b \<union> used d"
    and add_overlap: "wf t b \<Longrightarrow> wf t d \<Longrightarrow> used b \<inter> used d \<noteq> {} \<Longrightarrow>
      \<exists>e. add b t d = (b, Some e)"
    and alloc_ok: "wf t b \<Longrightarrow> alloc b t n u = (b', Inr d) \<Longrightarrow>
      wf t b' \<and> wf t d \<and> used d \<noteq> {} \<and> used b \<inter> used d = {} \<and> used b' = used b \<union> used d"
    and alloc_fail: "alloc b t n u = (b', Inl e) \<Longrightarrow> b' = b"
    and used_bound: "wf t b \<Longrightarrow> used b \<subseteq> {..<nat t}"
begin

text \<open>Adding a sequence of bitmaps succeeds exactly when they are pairwise disjoint.\<close>

lemma add_None_iff:
  assumes "wf t b" "wf t d"
  shows "snd (add b t d) = None \<longleftrightarrow> used b \<inter> used d = {}"
  using add_ok [OF assms] add_overlap [OF assms] by fastforce

lemma add_wf:
  assumes "wf t b" "wf t d"
  shows "wf t (fst (add b t d))" "used b \<subseteq> used (fst (add b t d))"
  using assms add_ok [OF assms] add_overlap [OF assms] by (cases "used b \<inter> used d = {}"; fastforce)+

text \<open>Allocations made one after the other on one bitmap never share a CU.\<close>

lemma alloc_twice_disjoint:
  assumes "wf t b" "alloc b t n u = (b', Inr d)" "alloc b' t n' u' = (b'', Inr d')"
  shows "used d \<inter> used d' = {}" "used b'' = used b \<union> used d \<union> used d'"
proof -
  from alloc_ok [OF assms(1,2)] have b': "wf t b'" "used b' = used b \<union> used d" by simp_all
  from alloc_ok [OF b'(1) assms(3)] b'(2) show "used d \<inter> used d' = {}" "used b'' = used b \<union> used d \<union> used d'"
    by auto
qed

text \<open>What was just allocated cannot be added again, and can be added to any bitmap that
  only holds what was there before.\<close>

lemma alloc_then_add:
  assumes "wf t b" "alloc b t n u = (b', Inr d)" "wf t c" "used c \<subseteq> used b"
  shows "\<exists>c'. add c t d = (c', None) \<and> wf t c' \<and> used c' = used c \<union> used d"
    and "\<exists>e. add b' t d = (b', Some e)"
proof -
  from alloc_ok [OF assms(1,2)] have d: "wf t b'" "wf t d" "used d \<noteq> {}" "used b \<inter> used d = {}"
    "used b' = used b \<union> used d" by simp_all
  show "\<exists>c'. add c t d = (c', None) \<and> wf t c' \<and> used c' = used c \<union> used d"
    using assms(3,4) d by (intro add_ok) auto
  show "\<exists>e. add b' t d = (b', Some e)"
    using d by (intro add_overlap) auto
qed

end

interpretation cu: cu_bitmap wf_bitmap cus NewAllocation AddAllocation AllocateN
proof unfold_locales
  fix t n u :: int and a a' d :: allocation and e :: cu_error
  show "0 < t \<Longrightarrow> \<exists>b. NewAllocation t = Inr b \<and> wf_bitmap t b \<and> cus b = {}"
    by (rule NewAllocation_ok)
  show "wf_bitmap t a \<Longrightarrow> wf_bitmap t d \<Longrightarrow> cus a \<inter> cus d = {} \<Longrightarrow>
      \<exists>b'. AddAllocation a t d = (b', None) \<and> wf_bitmap t b' \<and> cus b' = cus a \<union> cus d"
    by (rule AddAllocation_ok)
  show "wf_bitmap t a \<Longrightarrow> wf_bitmap t d \<Longrightarrow> cus a \<inter> cus d \<noteq> {} \<Longrightarrow> \<exists>e. AddAllocation a t d = (a, Some e)"
    using AddAllocation_overlap by blast
  show "AllocateN a t n u = (a', Inl e) \<Longrightarrow> a' = a"
    by (rule AllocateN_Inl)
  show "wf_bitmap t a \<Longrightarrow> cus a \<subseteq> {..<nat t}"
    by (simp add: wf_bitmap_def)
  assume wf: "wf_bitmap t a" and al: "AllocateN a t n u = (a', Inr d)"
  have "0 < round_up n (unit_of u)"
    using AllocateN_Inr(1) [OF al] round_up_bounds(1) [of n u] by linarith
  then have "cus d \<noteq> {}" using AllocateN_Inr(7) [OF al] by auto
  then show "wf_bitmap t a' \<and> wf_bitmap t d \<and> cus d \<noteq> {} \<and> cus a \<inter> cus d = {} \<and> cus a' = cus a \<union> cus d"
    using AllocateN_wf [OF wf al] AllocateN_Inr [OF al] by blast
qed

section \<open>Properties\<close>

text \<open>C5: AllocateN hands out exactly the first free whole units: on a valid bitmap and a positive
  request it returns the CUs of the first \<open>units_needed n unit\<close> free units of \<open>unit\<close> CUs and marks
  them in the bitmap, and when there are not enough free units it fails with the rounded request
  and the number of free CUs and leaves the bitmap as it was.\<close>

theorem AllocateN_is_first_fit:
  assumes "wf_bitmap t a" and "0 < n"
  shows "case first_fit (cus a) (nat t) (units_needed n unit) (nat (unit_of unit)) of
      None \<Rightarrow> AllocateN a t n unit =
        (a, Inl (ErrInsufficient (round_up n (unit_of unit)) (t - int (card (cus a)))))
    | Some S \<Rightarrow> \<exists>a' d. AllocateN a t n unit = (a', Inr d) \<and> wf_bitmap t a' \<and> wf_bitmap t d
        \<and> cus d = S \<and> cus a' = cus a \<union> S"
proof -
  have "nat (wordsFor t) \<le> length a" using assms(1) by (simp add: wf_bitmap_def)
  from AllocateN_first_fit [OF assms(2) this, of unit] AllocateN_wf [OF assms(1), of n unit]
  show ?thesis by (fastforce split: option.splits)
qed

theorem AllocateN_is_first_fit_witness:
  "case first_fit (cus [0b11]) (nat 8) (units_needed 3 2) (nat (unit_of 2)) of
      None \<Rightarrow> AllocateN [0b11] 8 3 2 =
        ([0b11], Inl (ErrInsufficient (round_up 3 (unit_of 2)) (8 - int (card (cus [0b11])))))
    | Some S \<Rightarrow> \<exists>a' d. AllocateN [0b11] 8 3 2 = (a', Inr d) \<and> wf_bitmap 8 a' \<and> wf_bitmap 8 d
        \<and> cus d = S \<and> cus a' = cus [0b11] \<union> S"
proof (rule AllocateN_is_first_fit)
  have "j \<in> {..<8}" if "j \<in> cus [3]" for j
  proof -
    from that have j: "j < 64" "bit (3 :: 64 word) j" by (auto simp: cus_def)
    then have "j < 2" by (cases j; cases "j - 1") (auto simp: bit_Suc)
    then show ?thesis by simp
  qed
  then show "wf_bitmap 8 [0b11]" by (auto simp: wf_bitmap_def wordsFor_def)
qed simp

text \<open>What AllocateN returns never overlaps what was allocated before, consists of whole units,
  is at least the request and less than one unit above it, and is added to the bitmap and to
  nothing else.\<close>

theorem AllocateN_safe:
  assumes "wf_bitmap t a" and "AllocateN a t n unit = (a', Inr d)"
  shows "cus d \<inter> cus a = {} \<and> cus a' = cus a \<union> cus d \<and> cus d \<subseteq> {..<nat t}
    \<and> n \<le> int (card (cus d)) \<and> int (card (cus d)) < n + unit_of unit
    \<and> unit_of unit dvd int (card (cus d))
    \<and> (\<forall>c c'. c div nat (unit_of unit) = c' div nat (unit_of unit) \<longrightarrow> (c \<in> cus d \<longleftrightarrow> c' \<in> cus d))"
proof -
  note r = AllocateN_Inr [OF assms(2)]
  have "0 < nat (unit_of unit)" using unit_of_pos [of unit] by simp
  then have "c \<in> cus d" if "c' \<in> cus d" "c div nat (unit_of unit) = c' div nat (unit_of unit)" for c c'
    using first_fit_whole_units r(8) that by blast
  moreover have "unit_of unit dvd int (card (cus d))" unfolding r(7) by (simp add: round_up_def)
  ultimately show ?thesis
    using r(4,5,6) r(7) round_up_bounds [OF r(1), of unit] by metis
qed

theorem AllocateN_safe_witness:
  "\<exists>a' d. AllocateN [0] 8 3 2 = (a', Inr d) \<and> cus d \<inter> cus [0] = {} \<and> cus a' = cus [0] \<union> cus d \<and> 3 \<le> card (cus d)"
proof -
  have wf: "wf_bitmap 8 [0]" by (simp add: wf_bitmap_def wordsFor_def)
  have f: "first_fit (cus [0]) (nat 8) (units_needed 3 2) (nat (unit_of 2)) \<noteq> None"
    by (simp add: first_fit_def free_units_def units_needed_def unit_of_def upt_rec Let_def)
  obtain a' d where r: "AllocateN [0] 8 3 2 = (a', Inr d)"
    using AllocateN_first_fit [of 3 8 "[0]" 2] f by (auto simp: wordsFor_def split: option.splits)
  from AllocateN_safe [OF wf r] have "cus d \<inter> cus [0] = {}" "cus a' = cus [0] \<union> cus d" "3 \<le> int (card (cus d))"
    by blast+
  with r show ?thesis by simp
qed

text \<open>AddAllocation is the disjoint union of CU sets: on valid bitmaps it adds the delta exactly
  when no CU is already set, and otherwise reports the overlap and leaves the bitmap unchanged.\<close>

theorem AddAllocation_disjoint_union:
  assumes "wf_bitmap t a" and "wf_bitmap t d"
  shows "if cus a \<inter> cus d = {}
    then \<exists>a'. AddAllocation a t d = (a', None) \<and> wf_bitmap t a' \<and> cus a' = cus a \<union> cus d
    else AddAllocation a t d = (a, Some ErrDeltaOverlap)"
  using cu.add_ok [OF assms] AddAllocation_overlap [OF assms] by simp

theorem AddAllocation_disjoint_union_witness:
  "\<exists>a'. AddAllocation [0, 0] 100 [0, 0] = (a', None) \<and> wf_bitmap 100 a' \<and> cus a' = cus [0, 0] \<union> cus [0, 0]"
proof -
  have "wf_bitmap 100 [0, 0]" by (simp add: wf_bitmap_def wordsFor_def)
  from AddAllocation_disjoint_union [OF this this] show ?thesis by simp
qed

end
