(* ===== verification/IdList.thy ===== *)
theory IdList
  imports CuAllocation
begin

text \<open>
  The ID_List text of \<open>internal/pkg/plugin/plugin.go\<close> (\<open>allocationToIDList\<close>,
  \<open>idListToAllocation\<close>), e.g. \<open>0-3,8,10-12\<close>: the CU sets in \<open>HSA_CU_MASK\<close> and in the pod
  annotation \<open>hami.io/amd-cu-allocated\<close>. The lemmas show that decoding yields a well-formed
  bitmap or an error and never panics, and that decoding an encoded non-empty bitmap gives
  it back. The empty bitmap is encoded as \<open>0\<close>, which decodes to CU 0.
\<close>

section \<open>Encoding\<close>

text \<open>The loop that collects the set CUs; it breaks at the first CU past the last word.\<close>

definition alloc_ids :: "allocation \<Rightarrow> int \<Rightarrow> nat list" where
  "alloc_ids a totalCUs =
     filter (\<lambda>i. a ! (i div 64) AND push_bit (i mod 64) 1 \<noteq> 0)
       (takeWhile (\<lambda>i. i div 64 < length a) [0..<nat totalCUs])"

text \<open>The loop that cuts the increasing CU numbers into runs, from \<open>start\<close> and \<open>prev\<close>.\<close>

fun id_runs :: "nat \<Rightarrow> nat \<Rightarrow> nat list \<Rightarrow> (nat \<times> nat) list" where
  "id_runs start prev [] = [(start, prev)]"
| "id_runs start prev (i # js) =
     (if i = prev + 1 then id_runs start i js else (start, prev) # id_runs i i js)"

text \<open>The closure \<open>flush\<close>.\<close>

definition run_text :: "nat \<times> nat \<Rightarrow> string" where
  "run_text r = (case r of (s, e) \<Rightarrow>
     if s = e then Itoa (int s) else Itoa (int s) @ ''-'' @ Itoa (int e))"

definition allocationToIDList :: "allocation \<Rightarrow> int \<Rightarrow> string" where
  "allocationToIDList a totalCUs =
     (if totalCUs \<le> 0 \<or> length a = 0 then ''0''
      else case alloc_ids a totalCUs of
             [] \<Rightarrow> ''0''
           | i # js \<Rightarrow> Join (map run_text (id_runs i i js)) '','')"

section \<open>Decoding\<close>

datatype id_error =
    BadTotal cu_error
  | BadRange string
  | BadRangeStart string num_error
  | BadRangeEnd string num_error
  | RangeOutOfBounds string int
  | BadId string num_error
  | IdOutOfBounds int int
  | IdIndexPanic

text \<open>\<open>allocation[word] |= 1 << bit\<close> for every CU of a list; a word past the end panics.\<close>

definition set_ids :: "allocation \<Rightarrow> nat list \<Rightarrow> (id_error, allocation) result" where
  "set_ids a js =
     (if list_all (\<lambda>i. i div 64 < length a) js then Inr (foldl set_cu a js) else Inl IdIndexPanic)"

definition parse_part :: "int \<Rightarrow> allocation \<Rightarrow> string \<Rightarrow> (id_error, allocation) result" where
  "parse_part totalCUs a raw =
     (let part = TrimSpace raw in
      if part = [] then Inr a
      else if Contains part ''-'' then
        (case Split (CHR ''-'') part of
           [lo, hi] \<Rightarrow>
             (case Atoi (TrimSpace lo) of
                Inl e \<Rightarrow> Inl (BadRangeStart part e)
              | Inr start \<Rightarrow>
                  (case Atoi (TrimSpace hi) of
                     Inl e \<Rightarrow> Inl (BadRangeEnd part e)
                   | Inr stop \<Rightarrow>
                       if start < 0 \<or> stop < start \<or> stop \<ge> totalCUs
                       then Inl (RangeOutOfBounds part totalCUs)
                       else set_ids a [nat start..<Suc (nat stop)]))
         | _ \<Rightarrow> Inl (BadRange part))
      else (case Atoi part of
              Inl e \<Rightarrow> Inl (BadId part e)
            | Inr i \<Rightarrow>
                if i < 0 \<or> i \<ge> totalCUs then Inl (IdOutOfBounds i totalCUs)
                else set_ids a [nat i]))"

fun parse_parts :: "int \<Rightarrow> allocation \<Rightarrow> string list \<Rightarrow> (id_error, allocation) result" where
  "parse_parts totalCUs a [] = Inr a"
| "parse_parts totalCUs a (p # ps) =
     (case parse_part totalCUs a p of Inl e \<Rightarrow> Inl e | Inr a' \<Rightarrow> parse_parts totalCUs a' ps)"

definition idListToAllocation :: "string \<Rightarrow> int \<Rightarrow> (id_error, allocation) result" where
  "idListToAllocation s totalCUs =
     (case NewAllocation totalCUs of
        Inl e \<Rightarrow> Inl (BadTotal e)
      | Inr a \<Rightarrow>
          (let str = TrimSpace s in
           if str = [] then Inr a else parse_parts totalCUs a (Split (CHR '','') str)))"

section \<open>Decoding yields a well-formed bitmap\<close>

lemma set_ids_wf:
  assumes "wf_bitmap t a" "\<And>i. i \<in> set js \<Longrightarrow> i < nat t"
  shows "set_ids a js = Inr (foldl set_cu a js)" "wf_bitmap t (foldl set_cu a js)"
    "cus (foldl set_cu a js) = set js \<union> cus a"
proof -
  have range: "i div 64 < length a" if "i \<in> set js" for i
    using assms(1) wordsFor_covers [OF assms(2) [OF that]] by (simp add: wf_bitmap_def)
  then show "set_ids a js = Inr (foldl set_cu a js)"
    by (simp add: set_ids_def list_all_iff)
  show c: "cus (foldl set_cu a js) = set js \<union> cus a"
    by (rule cus_foldl_set_cu) (rule range)
  show "wf_bitmap t (foldl set_cu a js)"
    using assms c by (auto simp: wf_bitmap_def)
qed

definition extends_bitmap :: "int \<Rightarrow> allocation \<Rightarrow> (id_error, allocation) result \<Rightarrow> bool" where
  "extends_bitmap t a r \<longleftrightarrow> (case r of Inl e \<Rightarrow> e \<noteq> IdIndexPanic | Inr b \<Rightarrow> wf_bitmap t b \<and> cus a \<subseteq> cus b)"

lemma extends_bitmap_simps [simp]:
  "extends_bitmap t a (Inl e) \<longleftrightarrow> e \<noteq> IdIndexPanic"
  "extends_bitmap t a (Inr b) \<longleftrightarrow> wf_bitmap t b \<and> cus a \<subseteq> cus b"
  by (simp_all add: extends_bitmap_def)

lemma set_ids_extends:
  assumes "wf_bitmap t a" "\<And>i. i \<in> set js \<Longrightarrow> i < nat t"
  shows "extends_bitmap t a (set_ids a js)"
  using set_ids_wf [of t a js] assms by auto

lemma parse_part_extends:
  assumes wf: "wf_bitmap t a"
  shows "extends_bitmap t a (parse_part t a p)"
proof -
  have range: "extends_bitmap t a (set_ids a [nat start..<Suc (nat stop)])"
    if "\<not> (start < 0 \<or> stop < start \<or> stop \<ge> t)" for start stop
    using that by (intro set_ids_extends wf) auto
  have one: "extends_bitmap t a (set_ids a [nat i])" if "\<not> (i < 0 \<or> i \<ge> t)" for i
    using that by (intro set_ids_extends wf) auto
  show ?thesis
    unfolding parse_part_def Let_def
    by (simp add: wf range one del: upt_Suc split: list.split sum.split)
qed

lemma parse_parts_extends: "wf_bitmap t a \<Longrightarrow> extends_bitmap t a (parse_parts t a ps)"
proof (induction ps arbitrary: a)
  case Nil
  then show ?case by simp
next
  case (Cons p ps)
  show ?case
  proof (cases "parse_part t a p")
    case (Inl e)
    with parse_part_extends [OF Cons.prems, of p] show ?thesis by simp
  next
    case (Inr b)
    with parse_part_extends [OF Cons.prems, of p] have b: "wf_bitmap t b" "cus a \<subseteq> cus b" by simp_all
    with Cons.IH [OF b(1)] Inr show ?thesis
      by (cases "parse_parts t b ps") auto
  qed
qed

lemma NewAllocation_Inr: "NewAllocation t = Inr z \<Longrightarrow> wf_bitmap t z \<and> cus z = {} \<and> 0 < t"
  using NewAllocation_ok [of t] by (auto simp: NewAllocation_def split: if_splits)

lemma idListToAllocation_cases:
  "case idListToAllocation s t of Inl e \<Rightarrow> e \<noteq> IdIndexPanic | Inr a \<Rightarrow> wf_bitmap t a"
proof (cases "NewAllocation t")
  case (Inl e)
  then show ?thesis by (simp add: idListToAllocation_def)
next
  case (Inr z)
  with NewAllocation_Inr have z: "wf_bitmap t z" by blast
  from parse_parts_extends [OF z, of "Split (CHR '','') (TrimSpace s)"] Inr z show ?thesis
    by (cases "parse_parts t z (Split (CHR '','') (TrimSpace s))")
       (simp_all add: idListToAllocation_def Let_def)
qed

lemma idListToAllocation_wf: "idListToAllocation s t = Inr a \<Longrightarrow> wf_bitmap t a"
  using idListToAllocation_cases [where s = s and t = t] by simp

lemma idListToAllocation_no_panic: "idListToAllocation s t \<noteq> Inl IdIndexPanic"
  using idListToAllocation_cases [where s = s and t = t] by auto

section \<open>Round trip\<close>

lemma wf_bitmap_ext:
  assumes "wf_bitmap t a" "wf_bitmap t b" "cus a = cus b"
  shows "a = b"
proof (rule nth_equalityI)
  show len: "length a = length b" using assms by (simp add: wf_bitmap_def)
  fix i assume i: "i < length a"
  show "a ! i = b ! i"
  proof (rule bit_word_eqI)
    fix j assume "j < LENGTH(64)"
    then have "j < 64" by simp
    then have j: "(64 * i + j) div 64 = i" "(64 * i + j) mod 64 = j"
      by (simp_all only: div_mult_self4 mod_mult_self4 mod_less div_less zero_neq_numeral not_False_eq_True add_0_right)
    have jm: "j mod 64 = j" using \<open>j < 64\<close> by simp
    from assms(3) have "64 * i + j \<in> cus a \<longleftrightarrow> 64 * i + j \<in> cus b" by simp
    then show "bit (a ! i) j = bit (b ! i) j"
      using i len by (simp add: cus_def j jm)
  qed
qed

lemma alloc_ids_eq:
  assumes "wf_bitmap t a"
  shows "set (alloc_ids a t) = cus a" "sorted_wrt (<) (alloc_ids a t)"
proof -
  have "takeWhile (\<lambda>i. i div 64 < length a) [0..<nat t] = [0..<nat t]"
    using assms wordsFor_covers by (auto simp: wf_bitmap_def takeWhile_eq_all_conv)
  then have ids: "alloc_ids a t = filter (\<lambda>i. bit (a ! (i div 64)) (i mod 64)) [0..<nat t]"
    by (simp only: alloc_ids_def and_single_bit)
  show "set (alloc_ids a t) = cus a"
    using assms wordsFor_covers by (auto simp: ids wf_bitmap_def cus_def)
  show "sorted_wrt (<) (alloc_ids a t)"
    unfolding ids by (intro sorted_wrt_filter) simp
qed

lemma id_runs_cover:
  "start \<le> prev \<Longrightarrow> (\<Union>(s, e) \<in> set (id_runs start prev js). {s..e}) = {start..prev} \<union> set js"
proof (induction start prev js rule: id_runs.induct)
  case (1 start prev)
  then show ?case by simp
next
  case (2 start prev i js)
  then show ?case by (auto simp: atLeastAtMostSuc_conv)
qed

lemma id_runs_ordered:
  "start \<le> prev \<Longrightarrow> (s, e) \<in> set (id_runs start prev js) \<Longrightarrow> s \<le> e"
  by (induction start prev js rule: id_runs.induct) (auto split: if_splits)

lemma id_runs_not_Nil [simp]: "id_runs start prev js \<noteq> []"
  by (induction start prev js rule: id_runs.induct) auto

lemma run_text_free [plain_text]:
  "CHR '','' \<notin> set (run_text r)" "spaceless (run_text r)" "run_text r \<noteq> []"
  by (cases r; auto simp: run_text_def Itoa_int plain_text)+

lemma parse_part_run:
  assumes "wf_bitmap t a" "s \<le> e" "e < nat t" "t < 2 ^ 63"
  shows "\<exists>a'. parse_part t a (run_text (s, e)) = Inr a' \<and> wf_bitmap t a' \<and> cus a' = {s..e} \<union> cus a"
proof -
  have et: "\<not> t \<le> int e" using assms by simp
  have se: "Atoi (digits_of s) = Inr (int s)" "Atoi (digits_of e) = Inr (int e)"
    using assms by (auto intro!: Atoi_digits_of)
  have trim: "TrimSpace (run_text (s, e)) = run_text (s, e)"
    by (simp add: plain_text)
  show ?thesis
  proof (cases "s = e")
    case True
    have "\<not> Contains (digits_of s) ''-''" by (simp add: plain_text)
    then have "parse_part t a (run_text (s, e)) = set_ids a [s]"
      using True se assms trim et
      by (auto simp: parse_part_def Let_def run_text_def Itoa_int)
    with True set_ids_wf [OF assms(1), of "[s]"] assms show ?thesis by auto
  next
    case False
    have enc: "run_text (s, e) = digits_of s @ CHR ''-'' # digits_of e"
      using False by (simp add: run_text_def Itoa_int)
    have split: "Split (CHR ''-'') (run_text (s, e)) = [digits_of s, digits_of e]"
      unfolding enc by (simp add: Split_append_sep Split_free plain_text)
    have dash: "Contains (run_text (s, e)) ''-''" unfolding enc by simp
    have "parse_part t a (run_text (s, e)) = set_ids a [s..<Suc e]"
      using assms se run_text_free(3) [of "(s, e)"]
      unfolding parse_part_def Let_def trim if_P [OF dash] split
      by (simp add: spaceless_digits_of et)
    moreover have "i < nat t" if "i \<in> set [s..<Suc e]" for i using that assms by auto
    ultimately show ?thesis using set_ids_wf [OF assms(1), of "[s..<Suc e]"]
      by (simp add: atLeastLessThanSuc_atLeastAtMost del: upt_Suc)
  qed
qed

lemma parse_parts_runs:
  assumes "wf_bitmap t a" "t < 2 ^ 63" "\<And>s e. (s, e) \<in> set rs \<Longrightarrow> s \<le> e \<and> e < nat t"
  shows "\<exists>a'. parse_parts t a (map run_text rs) = Inr a' \<and> wf_bitmap t a'
    \<and> cus a' = (\<Union>(s, e) \<in> set rs. {s..e}) \<union> cus a"
  using assms
proof (induction rs arbitrary: a)
  case Nil
  then show ?case by simp
next
  case (Cons r rs)
  obtain s e where r: "r = (s, e)" by (cases r)
  from Cons.prems(3) [of s e] r have "s \<le> e" "e < nat t" by auto
  from parse_part_run [OF Cons.prems(1) this Cons.prems(2)] obtain b where
    b: "parse_part t a (run_text r) = Inr b" "wf_bitmap t b" "cus b = {s..e} \<union> cus a"
    using r by blast
  from Cons.IH [OF b(2) Cons.prems(2)] Cons.prems(3) obtain a' where
    "parse_parts t b (map run_text rs) = Inr a'" "wf_bitmap t a'"
    "cus a' = (\<Union>(s, e) \<in> set rs. {s..e}) \<union> cus b" by (metis list.set_intros(2))
  with b r show ?case by auto
qed

lemma allocationToIDList_runs:
  assumes "wf_bitmap t a" "cus a \<noteq> {}"
  obtains i js where "alloc_ids a t = i # js"
    "allocationToIDList a t = Join (map run_text (id_runs i i js)) '',''"
    "(\<Union>(s, e) \<in> set (id_runs i i js). {s..e}) = cus a"
proof -
  from alloc_ids_eq(1) [OF assms(1)] assms(2) obtain i js where ids: "alloc_ids a t = i # js"
    by (cases "alloc_ids a t") auto
  have "0 < t" "0 < length a"
    using assms wordsFor_covers [of 0 t] by (auto simp: wf_bitmap_def)
  then have "allocationToIDList a t = Join (map run_text (id_runs i i js)) '',''"
    by (simp add: allocationToIDList_def ids)
  moreover have "(\<Union>(s, e) \<in> set (id_runs i i js). {s..e}) = cus a"
    using id_runs_cover [of i i js] alloc_ids_eq(1) [OF assms(1)] ids by simp
  ultimately show thesis using ids that by blast
qed

lemma spaceless_Join: "(\<And>x. x \<in> set xs \<Longrightarrow> spaceless x) \<Longrightarrow> spaceless sep \<Longrightarrow> spaceless (Join xs sep)"
  by (induction xs sep rule: Join.induct) auto

lemma Join_not_Nil: "xs \<noteq> [] \<Longrightarrow> (\<And>x. x \<in> set xs \<Longrightarrow> x \<noteq> []) \<Longrightarrow> Join xs sep \<noteq> []"
  by (induction xs sep rule: Join.induct) auto

lemma idList_roundtrip:
  assumes "wf_bitmap t a" "cus a \<noteq> {}" "t < 2 ^ 63"
  shows "idListToAllocation (allocationToIDList a t) t = Inr a"
proof -
  obtain i js where "alloc_ids a t = i # js"
    and enc: "allocationToIDList a t = Join (map run_text (id_runs i i js)) '',''"
    and cover: "(\<Union>(s, e) \<in> set (id_runs i i js). {s..e}) = cus a"
    by (rule allocationToIDList_runs [OF assms(1,2)])
  let ?rs = "id_runs i i js"
  have sl: "spaceless (allocationToIDList a t)"
    unfolding enc by (rule spaceless_Join) (auto simp: plain_text)
  have ne: "allocationToIDList a t \<noteq> []"
    unfolding enc by (rule Join_not_Nil) (auto simp: plain_text)
  have parts: "Split (CHR '','') (allocationToIDList a t) = map run_text ?rs"
    unfolding enc by (rule Split_Join) (auto simp: plain_text)
  have t: "0 < t" using assms(1) by (simp add: wf_bitmap_def)
  from NewAllocation_ok [OF t] obtain z where
    z: "NewAllocation t = Inr z" "wf_bitmap t z" "cus z = {}" by blast
  have bounds: "s \<le> e \<and> e < nat t" if r: "(s, e) \<in> set ?rs" for s e
  proof -
    have "s \<le> e" using id_runs_ordered [of i i] r by blast
    then have "e \<in> cus a" using cover r by force
    then show ?thesis using \<open>s \<le> e\<close> assms(1) by (auto simp: wf_bitmap_def)
  qed
  from parse_parts_runs [OF z(2) assms(3), of ?rs] bounds cover z(3) obtain b where
    b: "parse_parts t z (map run_text ?rs) = Inr b" "wf_bitmap t b" "cus b = cus a"
    by auto
  have "idListToAllocation (allocationToIDList a t) t = Inr b"
    unfolding idListToAllocation_def z(1) sum.case Let_def TrimSpace_spaceless [OF sl] if_not_P [OF ne] parts
    by (rule b(1))
  also have "b = a" using b assms(1) by (intro wf_bitmap_ext [of t]) auto
  finally show ?thesis .
qed

text \<open>The empty bitmap has the same text as CU 0.\<close>

lemma allocationToIDList_empty:
  assumes "wf_bitmap t a" "cus a = {}"
  shows "allocationToIDList a t = ''0''"
  using alloc_ids_eq(1) [OF assms(1)] assms(2)
  by (auto simp: allocationToIDList_def split: list.split)

lemma spaceless_allocationToIDList:
  assumes "wf_bitmap t a" "cus a \<noteq> {}"
  shows "spaceless (allocationToIDList a t)" "allocationToIDList a t \<noteq> []"
proof -
  obtain i js where "alloc_ids a t = i # js"
    and enc: "allocationToIDList a t = Join (map run_text (id_runs i i js)) '',''"
    by (rule allocationToIDList_runs [OF assms])
  show "spaceless (allocationToIDList a t)"
    unfolding enc by (rule spaceless_Join) (auto simp: plain_text)
  show "allocationToIDList a t \<noteq> []"
    unfolding enc by (rule Join_not_Nil) (auto simp: plain_text)
qed

section \<open>Properties\<close>

text \<open>C10: the ID list text is a faithful encoding: decoding the text written for any non-empty valid
  bitmap (in \<open>HSA_CU_MASK\<close> and in the pod annotation) gives back the same bitmap.\<close>

theorem IDList_roundtrip:
  assumes "wf_bitmap t a" and "cus a \<noteq> {}" and "t < 2 ^ 63"
  shows "idListToAllocation (allocationToIDList a t) t = Inr a"
  using assms by (rule idList_roundtrip)

theorem IDList_roundtrip_witness:
  "idListToAllocation (allocationToIDList (set_cu (set_cu [0, 0] 3) 64) 70) 70 = Inr (set_cu (set_cu [0, 0] 3) 64)"
proof (rule IDList_roundtrip)
  have "cus (set_cu (set_cu [0, 0] 3) 64) = {64, 3}"
    by (simp add: cus_set_cu)
  then show "wf_bitmap 70 (set_cu (set_cu [0, 0] 3) 64)" "cus (set_cu (set_cu [0, 0] 3) 64) \<noteq> {}"
    by (simp_all add: wf_bitmap_def wordsFor_def)
qed simp

text \<open>Decoding any text, also one written by somebody else, never panics: the result is an error
  or a valid bitmap for the GPU's CU count.\<close>

theorem IDList_decode_total:
  "idListToAllocation s t \<noteq> Inl IdIndexPanic \<and> (\<forall>a. idListToAllocation s t = Inr a \<longrightarrow> wf_bitmap t a)"
  using idListToAllocation_no_panic idListToAllocation_wf by blast

theorem IDList_decode_total_witness:
  "idListToAllocation ''0-1,4'' 8 = Inr [0b10011] \<and> wf_bitmap 8 [0b10011]"
proof -
  have r: "idListToAllocation ''0-1,4'' 8 = Inr [0b10011]"
    by (simp add: idListToAllocation_def NewAllocation_def wordsFor_def parse_part_def set_ids_def set_cu_def
        Atoi_def ParseInt10_def digits_val_def all_digits_def is_digit_def digit_val_def upt_rec Let_def
        TrimSpace_spaceless [unfolded spaceless_def])
  with IDList_decode_total [of "''0-1,4''" 8] show ?thesis by blast
qed

lemmas idlist_eval = idListToAllocation_def NewAllocation_def wordsFor_def parse_part_def set_ids_def set_cu_def
  Atoi_def ParseInt10_def digits_val_def all_digits_def is_digit_def digit_val_def upt_rec Let_def
  TrimSpace_spaceless [unfolded spaceless_def]

end
