(* ===== verification/Json.thy ===== *)
theory Json
  imports Prelude
begin

text \<open>
  Package \<open>encoding/json\<close> of the Go standard library as far as the plugin uses it for the
  annotation \<open>hami.io/amd-cu-allocated\<close>: \<open>json.Marshal\<close> of a \<open>map[string]string\<close> and
  \<open>json.Unmarshal\<close> into one.

  \<open>Unmarshal\<close> accepts \<open>null\<close> (the map becomes nil, \<open>json_null\<close>) and an object whose values are
  strings or \<open>null\<close> (an empty string); every other text is a syntax error or a type error,
  so no other value syntax has to be modelled. Invalid UTF-8 becomes U+FFFD on both ways.
  \<open>json_roundtrip\<close> holds for keys and values of printable ASCII that needs no escape, which
  device ids and CU lists are made of.
\<close>

section \<open>UTF-8\<close>

abbreviation cont_byte :: "nat \<Rightarrow> bool" where
  "cont_byte b \<equiv> 0x80 \<le> b \<and> b < 0xC0"

text \<open>The length of the valid UTF-8 sequence at the front, 0 if there is none.\<close>

fun rune_len :: "nat list \<Rightarrow> nat" where
  "rune_len [] = 0"
| "rune_len (b0 # bs) =
     (if b0 < 0x80 then 1
      else case bs of
        b1 # bs' \<Rightarrow>
          if 0xC2 \<le> b0 \<and> b0 \<le> 0xDF \<and> cont_byte b1 then 2
          else (case bs' of
            b2 # bs'' \<Rightarrow>
              if (b0 = 0xE0 \<and> 0xA0 \<le> b1 \<and> b1 < 0xC0 \<or> b0 = 0xED \<and> 0x80 \<le> b1 \<and> b1 < 0xA0
                  \<or> 0xE1 \<le> b0 \<and> b0 \<le> 0xEF \<and> b0 \<noteq> 0xED \<and> cont_byte b1) \<and> cont_byte b2 then 3
              else (case bs'' of
                b3 # _ \<Rightarrow>
                  if (b0 = 0xF0 \<and> 0x90 \<le> b1 \<and> b1 < 0xC0 \<or> 0xF1 \<le> b0 \<and> b0 \<le> 0xF3 \<and> cont_byte b1
                      \<or> b0 = 0xF4 \<and> 0x80 \<le> b1 \<and> b1 < 0x90) \<and> cont_byte b2 \<and> cont_byte b3 then 4
                  else 0
              | [] \<Rightarrow> 0)
          | [] \<Rightarrow> 0)
      | [] \<Rightarrow> 0)"

definition rune_error :: string where "rune_error = bytes [0xEF, 0xBF, 0xBD]"

text \<open>The UTF-8 encoding of a code point; a surrogate is encoded as U+FFFD.\<close>

definition encode_rune :: "nat \<Rightarrow> string" where
  "encode_rune r =
     (if r < 0x80 then bytes [r]
      else if r < 0x800 then bytes [0xC0 + r div 64, 0x80 + r mod 64]
      else if 0xD800 \<le> r \<and> r < 0xE000 then rune_error
      else if r < 0x10000 then bytes [0xE0 + r div 4096, 0x80 + r div 64 mod 64, 0x80 + r mod 64]
      else bytes [0xF0 + r div 262144, 0x80 + r div 4096 mod 64, 0x80 + r div 64 mod 64, 0x80 + r mod 64])"

section \<open>Strings\<close>

definition hex_char :: "nat \<Rightarrow> char" where
  "hex_char d = (if d < 10 then char_of (48 + d) else char_of (87 + d))"

definition hex_val :: "char \<Rightarrow> nat option" where
  "hex_val c =
     (let n = (of_char c :: nat) in
      if 48 \<le> n \<and> n \<le> 57 then Some (n - 48)
      else if 97 \<le> n \<and> n \<le> 102 then Some (n - 87)
      else if 65 \<le> n \<and> n \<le> 70 then Some (n - 55)
      else None)"

definition hex4 :: "string \<Rightarrow> (nat \<times> string) option" where
  "hex4 s =
     (case s of
        a # b # c # d # t \<Rightarrow>
          (case (hex_val a, hex_val b, hex_val c, hex_val d) of
             (Some w, Some x, Some y, Some z) \<Rightarrow> Some (w * 4096 + x * 256 + y * 16 + z, t)
           | _ \<Rightarrow> None)
      | _ \<Rightarrow> None)"

definition escape_u :: "nat \<Rightarrow> string" where
  "escape_u r =
     [CHR 0x5C, CHR ''u'', hex_char (r div 4096 mod 16), hex_char (r div 256 mod 16),
      hex_char (r div 16 mod 16), hex_char (r mod 16)]"

text \<open>The escape of one ASCII byte in \<open>json.Marshal\<close>, HTML characters included.\<close>

definition escape_ascii :: "nat \<Rightarrow> string" where
  "escape_ascii n =
     (if n = 0x22 \<or> n = 0x5C then [CHR 0x5C, char_of n]
      else if n = 8 then [CHR 0x5C, CHR ''b'']
      else if n = 12 then [CHR 0x5C, CHR ''f'']
      else if n = 10 then [CHR 0x5C, CHR ''n'']
      else if n = 13 then [CHR 0x5C, CHR ''r'']
      else if n = 9 then [CHR 0x5C, CHR ''t'']
      else if n < 32 \<or> n = 0x3C \<or> n = 0x3E \<or> n = 0x26 then escape_u n
      else [char_of n])"

function json_escape :: "string \<Rightarrow> string" where
  "json_escape s =
     (case s of
        [] \<Rightarrow> []
      | c # t \<Rightarrow>
          (let l = rune_len (map of_char s) in
           if l = 0 then escape_u 0xFFFD @ json_escape t
           else if l = 1 then escape_ascii (of_char c) @ json_escape t
           else if take l s = bytes [0xE2, 0x80, 0xA8] then escape_u 0x2028 @ json_escape (drop l s)
           else if take l s = bytes [0xE2, 0x80, 0xA9] then escape_u 0x2029 @ json_escape (drop l s)
           else take l s @ json_escape (drop l s)))"
  by pat_completeness auto
termination
  by (relation "measure length") auto

declare json_escape.simps [simp del]

definition json_quote :: "string \<Rightarrow> string" where
  "json_quote s = [CHR 0x22] @ json_escape s @ [CHR 0x22]"

definition simple_escape :: "char \<Rightarrow> char option" where
  "simple_escape c = map_of
     [(CHR 0x22, CHR 0x22), (CHR 0x5C, CHR 0x5C), (CHR ''/'', CHR ''/''), (CHR ''b'', CHR 8),
      (CHR ''f'', CHR 12), (CHR ''n'', CHR 10), (CHR ''r'', CHR 13), (CHR ''t'', CHR 9)] c"

text \<open>
  One decoded unit at the front of a string body: the bytes and the rest. A high surrogate
  escape followed by a low one is one code point.
\<close>

definition json_unicode :: "string \<Rightarrow> (string \<times> string) option" where
  "json_unicode u =
     (case hex4 u of
        None \<Rightarrow> None
      | Some (r, v) \<Rightarrow>
          (case (if 0xD800 \<le> r \<and> r < 0xDC00 \<and> take 2 v = [CHR 0x5C, CHR ''u''] then hex4 (drop 2 v) else None) of
             Some (r', v') \<Rightarrow>
               if 0xDC00 \<le> r' \<and> r' < 0xE000
               then Some (encode_rune (0x10000 + (r - 0xD800) * 1024 + (r' - 0xDC00)), v')
               else Some (encode_rune r, v)
           | None \<Rightarrow> Some (encode_rune r, v)))"

definition json_escaped :: "string \<Rightarrow> (string \<times> string) option" where
  "json_escaped t =
     (case t of
        [] \<Rightarrow> None
      | e # u \<Rightarrow>
          (case simple_escape e of
             Some x \<Rightarrow> Some ([x], u)
           | None \<Rightarrow> if e = CHR ''u'' then json_unicode u else None))"

definition json_char :: "char \<Rightarrow> string \<Rightarrow> (string \<times> string) option" where
  "json_char c t =
     (if c = CHR 0x5C then json_escaped t
      else if (of_char c :: nat) < 32 then None
      else (let l = rune_len (map of_char (c # t)) in
            if l = 0 then Some (rune_error, t) else Some (take l (c # t), drop l (c # t))))"

text \<open>The text after an opening quote: the decoded bytes and what follows the closing quote.\<close>

function json_chars :: "string \<Rightarrow> (string \<times> string) option" where
  "json_chars [] = None"
| "json_chars (c # t) =
     (if c = CHR 0x22 then Some ([], t)
      else case json_char c t of
             None \<Rightarrow> None
           | Some (x, r) \<Rightarrow>
               if length r \<le> length t then map_option (apfst ((@) x)) (json_chars r) else None)"
  by pat_completeness auto
termination
  by (relation "measure length") auto

section \<open>Objects\<close>

definition is_json_space :: "char \<Rightarrow> bool" where
  "is_json_space c \<longleftrightarrow> c = CHR 32 \<or> c = CHR 9 \<or> c = CHR 10 \<or> c = CHR 13"

definition skip_ws :: "string \<Rightarrow> string" where
  "skip_ws s = dropWhile is_json_space s"

text \<open>A value: a string, or \<open>null\<close> for the empty string.\<close>

definition json_value :: "string \<Rightarrow> (string \<times> string) option" where
  "json_value s =
     (if HasPrefix s ''null'' then Some ([], drop 4 s)
      else case s of
             c # t \<Rightarrow> if c = CHR 0x22 then json_chars t else None
           | [] \<Rightarrow> None)"

definition json_pair :: "string \<Rightarrow> ((string \<times> string) \<times> string) option" where
  "json_pair s =
     (case skip_ws s of
        c # t \<Rightarrow>
          if c \<noteq> CHR 0x22 then None
          else (case json_chars t of
                  None \<Rightarrow> None
                | Some (k, u) \<Rightarrow>
                    (case skip_ws u of
                       d # v \<Rightarrow>
                         if d \<noteq> CHR '':'' then None
                         else (case json_value (skip_ws v) of
                                 None \<Rightarrow> None
                               | Some (x, w) \<Rightarrow> Some ((k, x), skip_ws w))
                     | [] \<Rightarrow> None))
      | [] \<Rightarrow> None)"

text \<open>The members after the opening brace; a repeated key overwrites.\<close>

function json_members :: "string \<Rightarrow> (string \<times> string) list \<Rightarrow> ((string \<times> string) list \<times> string) option" where
  "json_members s m =
     (case json_pair s of
        None \<Rightarrow> None
      | Some ((k, x), r) \<Rightarrow>
          (case r of
             [] \<Rightarrow> None
           | c # t \<Rightarrow>
               if c = CHR ''}'' then Some (assoc_update k x m, t)
               else if c = CHR '','' \<and> length t < length s then json_members t (assoc_update k x m)
               else None))"
  by pat_completeness auto
termination
  by (relation "measure (\<lambda>(s, m). length s)") auto

declare json_members.simps [simp del]

text \<open>\<open>json.Unmarshal(data, &m)\<close> for an empty \<open>m\<close>; \<open>None\<close> is an error.\<close>

definition json_null :: "string \<Rightarrow> bool" where
  "json_null s \<longleftrightarrow> (let t = skip_ws s in HasPrefix t ''null'' \<and> skip_ws (drop 4 t) = [])"

definition json_unmarshal :: "string \<Rightarrow> (string \<times> string) list option" where
  "json_unmarshal s =
     (let t = skip_ws s in
      if HasPrefix t ''null'' \<and> skip_ws (drop 4 t) = [] then Some []
      else case t of
             c # u \<Rightarrow>
               if c \<noteq> CHR ''{'' then None
               else (case skip_ws u of
                       d # v \<Rightarrow>
                         if d = CHR ''}'' then (if skip_ws v = [] then Some [] else None)
                         else (case json_members u [] of
                                 None \<Rightarrow> None
                               | Some (m, w) \<Rightarrow> if skip_ws w = [] then Some m else None)
                     | [] \<Rightarrow> None)
           | [] \<Rightarrow> None)"

lemmas json_eval = json_unmarshal_def json_members.simps json_pair_def json_value_def json_char_def
  skip_ws_def is_json_space_def HasPrefix_def Let_def

lemma json_example:
  "json_unmarshal ''{ \"a\" : \"0-3\", \"b\":null}'' = Some [(''a'', ''0-3''), (''b'', [])]"
  "json_unmarshal ''{\"a\":1}'' = None"
  by (simp_all add: json_eval)

text \<open>\<open>json.Marshal\<close> of a map: the keys in increasing order.\<close>

definition json_marshal :: "(string \<times> string) list \<Rightarrow> string" where
  "json_marshal m =
     ''{'' @ Join (map (\<lambda>(k, x). json_quote k @ '':'' @ json_quote x) (sort_key fst m)) '','' @ ''}''"

section \<open>Round trip\<close>

lemma update_new: "k \<notin> fst ` set m \<Longrightarrow> assoc_update k v m = m @ [(k, v)]"
  by (induction m) auto

lemma distinct_fst_insort_key:
  "distinct (map fst (insort_key f x xs)) = distinct (fst x # map fst xs)"
  by (induction xs) (auto simp: set_insort_key)

lemma distinct_map_fst_sort_key: "distinct (map fst (sort_key f m)) = distinct (map fst m)"
  by (induction m) (auto simp: distinct_fst_insort_key)

definition json_plain :: "string \<Rightarrow> bool" where
  "json_plain s \<longleftrightarrow> (\<forall>c \<in> set s. let n = (of_char c :: nat) in
     32 \<le> n \<and> n < 127 \<and> n \<noteq> 0x22 \<and> n \<noteq> 0x5C \<and> n \<noteq> 0x3C \<and> n \<noteq> 0x3E \<and> n \<noteq> 0x26)"

lemma json_plain_Cons:
  "json_plain (c # s) \<longleftrightarrow> (32::nat) \<le> of_char c \<and> of_char c < (127::nat) \<and> of_char c \<noteq> (0x22::nat)
     \<and> of_char c \<noteq> (0x5C::nat) \<and> of_char c \<noteq> (0x3C::nat) \<and> of_char c \<noteq> (0x3E::nat)
     \<and> of_char c \<noteq> (0x26::nat) \<and> json_plain s"
  by (auto simp: json_plain_def Let_def)

lemma json_plain_append [simp]: "json_plain (s @ t) \<longleftrightarrow> json_plain s \<and> json_plain t"
  by (auto simp: json_plain_def)

lemma json_plain_Nil [simp]: "json_plain []"
  by (simp add: json_plain_def)

lemma json_escape_plain: "json_plain s \<Longrightarrow> json_escape s = s"
proof (induction s)
  case Nil
  then show ?case by (simp add: json_escape.simps)
next
  case (Cons c s)
  then show ?case
    by (subst json_escape.simps) (simp add: json_plain_Cons escape_ascii_def)
qed

lemma json_char_plain:
  "json_plain (c # s) \<Longrightarrow> json_char c t = Some ([c], t)"
  by (auto simp: json_plain_Cons json_char_def)

lemma json_chars_plain:
  "json_plain s \<Longrightarrow> json_chars (s @ CHR 0x22 # t) = Some (s, t)"
proof (induction s)
  case Nil
  then show ?case by simp
next
  case (Cons c s)
  then have "c \<noteq> CHR 0x22" by (auto simp: json_plain_Cons)
  moreover have "json_plain s" using Cons.prems by (simp add: json_plain_Cons)
  ultimately show ?case using Cons.IH by (simp add: json_char_plain [OF Cons.prems])
qed

lemma skip_ws_quote [simp]: "skip_ws (CHR 0x22 # s) = CHR 0x22 # s"
  "skip_ws (CHR '':'' # s) = CHR '':'' # s" "skip_ws (CHR ''}'' # s) = CHR ''}'' # s"
  "skip_ws (CHR '','' # s) = CHR '','' # s" "skip_ws (CHR ''{'' # s) = CHR ''{'' # s"
  "skip_ws [] = []"
  by (simp_all add: skip_ws_def is_json_space_def)

lemma json_pair_plain:
  assumes "json_plain k" "json_plain x" "skip_ws r = r"
  shows "json_pair (json_quote k @ '':'' @ json_quote x @ r) = Some ((k, x), r)"
  using assms
  by (simp add: json_pair_def json_quote_def json_escape_plain json_chars_plain json_value_def HasPrefix_def)

lemma json_members_plain:
  assumes "ps \<noteq> []" "\<forall>(k, x) \<in> set ps. json_plain k \<and> json_plain x"
    and "distinct (map fst m @ map fst ps)"
  shows "json_members (Join (map (\<lambda>(k, x). json_quote k @ '':'' @ json_quote x) ps) '','' @ ''}'') m
    = Some (m @ ps, [])"
  using assms
proof (induction ps arbitrary: m)
  case Nil
  then show ?case by simp
next
  case (Cons p ps)
  obtain k x where p: "p = (k, x)" by (cases p)
  with Cons.prems have kx: "json_plain k" "json_plain x" by auto
  have up: "assoc_update k x m = m @ [(k, x)]"
    using Cons.prems(3) p by (intro update_new) auto
  show ?case
  proof (cases ps)
    case Nil
    have "json_pair (json_quote k @ '':'' @ json_quote x @ ''}'') = Some ((k, x), ''}'')"
      using kx by (intro json_pair_plain) auto
    with Nil p up show ?thesis by (subst json_members.simps) simp
  next
    case (Cons q qs)
    let ?rest = "Join (map (\<lambda>(k, x). json_quote k @ '':'' @ json_quote x) ps) '','' @ ''}''"
    have "json_pair (json_quote k @ '':'' @ json_quote x @ '','' @ ?rest) = Some ((k, x), '','' @ ?rest)"
      using kx by (intro json_pair_plain) auto
    moreover have "json_members ?rest (m @ [(k, x)]) = Some ((m @ [(k, x)]) @ ps, [])"
      using Cons.prems p Cons by (intro Cons.IH) auto
    ultimately show ?thesis using Cons p up
      by (subst json_members.simps) simp
  qed
qed

theorem json_roundtrip:
  assumes "distinct (map fst m)" "\<forall>(k, x) \<in> set m. json_plain k \<and> json_plain x"
  shows "json_unmarshal (json_marshal m) = Some (sort_key fst m)"
proof (cases "m = []")
  case True
  then show ?thesis by (simp add: json_unmarshal_def json_marshal_def HasPrefix_def)
next
  case False
  let ?ps = "sort_key fst m"
  let ?body = "Join (map (\<lambda>(k, x). json_quote k @ '':'' @ json_quote x) ?ps) '','' @ ''}''"
  obtain p ps where ps: "?ps = p # ps" using False by (cases ?ps) (auto simp flip: set_empty)
  have quote: "\<exists>t. ?body = CHR 0x22 # t"
    using ps by (cases p; cases ps) (auto simp: json_quote_def)
  have "json_members ?body [] = Some ([] @ ?ps, [])"
  proof (rule json_members_plain)
    show "?ps \<noteq> []" using ps by simp
    show "\<forall>(k, x) \<in> set ?ps. json_plain k \<and> json_plain x" using assms(2) by simp
    show "distinct (map fst [] @ map fst ?ps)"
      using assms(1) by (simp add: distinct_map_fst_sort_key)
  qed
  then show ?thesis
    using quote by (auto simp: json_unmarshal_def json_marshal_def HasPrefix_def)
qed

section \<open>Decoded maps\<close>

lemma json_members_distinct:
  "json_members s m = Some (m', r) \<Longrightarrow> distinct (map fst m) \<Longrightarrow> distinct (map fst m')"
proof (induction s m arbitrary: m' r rule: json_members.induct)
  case (1 s m)
  from "1.prems"(1) obtain k x c t where p: "json_pair s = Some ((k, x), c # t)"
    by (subst (asm) json_members.simps) (auto split: option.splits list.splits)
  have d: "distinct (map fst (assoc_update k x m))" using "1.prems"(2) by (simp add: distinct_update)
  show ?case
  proof (cases "c = CHR ''}''")
    case True
    with "1.prems"(1) p d show ?thesis by (subst (asm) json_members.simps) simp
  next
    case False
    with "1.prems"(1) p have "c = CHR '','' \<and> length t < length s" "json_members t (assoc_update k x m) = Some (m', r)"
      by (subst (asm) json_members.simps, simp split: if_splits)+
    with "1.IH" [OF p refl refl refl False] d show ?thesis by blast
  qed
qed

lemma json_unmarshal_distinct: "json_unmarshal s = Some m \<Longrightarrow> distinct (map fst m)"
  by (auto simp: json_unmarshal_def Let_def dest: json_members_distinct split: if_splits list.splits option.splits)

lemma json_null_Nil: "json_null s \<Longrightarrow> json_unmarshal s = Some m \<Longrightarrow> m = []"
  by (auto simp: json_null_def json_unmarshal_def Let_def)

lemma json_marshal_ends:
  "json_marshal m \<noteq> []" "hd (json_marshal m) = CHR ''{''" "last (json_marshal m) = CHR ''}''"
  by (simp_all add: json_marshal_def)

lemma TrimSpace_json_marshal: "TrimSpace (json_marshal m) = json_marshal m"
  by (rule TrimSpace_ends) (simp_all add: json_marshal_ends)

end
