(* ===== verification/Sysfs.thy ===== *)
theory Sysfs
  imports Prelude
begin

text \<open>
  Reading the sysfs tree: \<open>path/filepath.Join\<close>, the line splitting of \<open>bufio.Scanner\<close>, the
  search for a pattern \<open>name\s(\d+)\<close> in a line, \<open>strconv.ParseInt(s, 0, 64)\<close> on the digits it
  captures, and \<open>ParseTopologyProperties\<close> of \<open>internal/pkg/amdgpu/amdgpu.go\<close>. The file
  system is a parameter: \<open>fs path\<close> is the content of a file, \<open>None\<close> when opening it fails.
\<close>

section \<open>Package path/filepath\<close>

text \<open>The elements of a path as \<open>Clean\<close> leaves them; the list grows at its front.\<close>

fun clean_elems :: "bool \<Rightarrow> string list \<Rightarrow> string list \<Rightarrow> string list" where
  "clean_elems rooted acc [] = rev acc"
| "clean_elems rooted acc (e # es) =
     (if e = [] \<or> e = ''.'' then clean_elems rooted acc es
      else if e = ''..'' then
        (case acc of
           [] \<Rightarrow> clean_elems rooted (if rooted then [] else [e]) es
         | a # acc' \<Rightarrow> clean_elems rooted (if a = ''..'' then e # acc else acc') es)
      else clean_elems rooted (e # acc) es)"

definition path_Clean :: "string \<Rightarrow> string" where
  "path_Clean p =
     (let rooted = HasPrefix p ''/'';
          body = Join (clean_elems rooted [] (Split (CHR ''/'') p)) ''/''
      in if rooted then CHR ''/'' # body else if body = [] then ''.'' else body)"

definition path_Join :: "string list \<Rightarrow> string" where
  "path_Join elems =
     (let es = dropWhile (\<lambda>e. e = []) elems in
      if es = [] then [] else path_Clean (Join es ''/''))"

lemma path_Join_example:
  "path_Join [''/sys'', ''class/kfd/../kfd'', ''3'', ''properties''] = ''/sys/class/kfd/3/properties''"
  by (simp add: path_Join_def path_Clean_def HasPrefix_def)

section \<open>Lines\<close>

text \<open>
  \<open>bufio.ScanLines\<close>: lines end at a newline and lose one trailing carriage return; a last
  line without newline counts when it is not empty. A line that fills the 64 KiB buffer
  stops the scanner with an error: the second component.
\<close>

definition raw_lines :: "string \<Rightarrow> string list" where
  "raw_lines s = (let ps = Split (CHR 0x0A) s in if last ps = [] then butlast ps else ps)"

definition scan_lines :: "string \<Rightarrow> string list \<times> bool" where
  "scan_lines s =
     (let ls = raw_lines s; ok = takeWhile (\<lambda>l. length l < 65536) ls
      in (map (\<lambda>l. TrimSuffix l [CHR 0x0D]) ok, length ok < length ls))"

section \<open>The pattern \<open>name\s(\d+)\<close>\<close>

definition is_re_space :: "char \<Rightarrow> bool" where
  "is_re_space c \<longleftrightarrow> c \<in> {CHR 0x09, CHR 0x0A, CHR 0x0C, CHR 0x0D, CHR '' ''}"

text \<open>A match at the start of the text: the captured digits.\<close>

definition match_here :: "string \<Rightarrow> string \<Rightarrow> string option" where
  "match_here name s =
     (if HasPrefix s name then
        (case drop (length name) s of
           c # t \<Rightarrow>
             if is_re_space c \<and> takeWhile is_digit t \<noteq> [] then Some (takeWhile is_digit t) else None
         | [] \<Rightarrow> None)
      else None)"

text \<open>\<open>FindStringSubmatch\<close>: the leftmost match; \<open>Some m\<close> is \<open>m[1]\<close>.\<close>

fun find_submatch :: "string \<Rightarrow> string \<Rightarrow> string option" where
  "find_submatch name [] = match_here name []"
| "find_submatch name (c # s) =
     (case match_here name (c # s) of Some ds \<Rightarrow> Some ds | None \<Rightarrow> find_submatch name s)"

text \<open>\<open>strconv.ParseInt(ds, 0, 64)\<close> of a text of decimal digits: a leading zero selects base 8.\<close>

definition ParseInt0 :: "string \<Rightarrow> (num_error, int) result" where
  "ParseInt0 ds =
     (if hd ds = CHR ''0'' then
        (if list_all (\<lambda>c. digit_val c < 8) (tl ds)
         then (let v = foldl (\<lambda>a c. a * 8 + digit_val c) 0 (tl ds)
               in if v < 2 ^ 63 then Inr (int v) else Inl ErrRange)
         else Inl ErrSyntax)
      else if digits_val ds < 2 ^ 63 then Inr (int (digits_val ds)) else Inl ErrRange)"

section \<open>ParseTopologyProperties\<close>

type_synonym files = "string \<Rightarrow> string option"

datatype topo_error = TopoOpen string | TopoScan | TopoNotFound string | TopoNum num_error

text \<open>The loop over the lines returns at the first that matches.\<close>

fun first_property :: "string \<Rightarrow> string list \<Rightarrow> (num_error, int) result option" where
  "first_property name [] = None"
| "first_property name (l # ls) =
     (case find_submatch name l of Some m \<Rightarrow> Some (ParseInt0 m) | None \<Rightarrow> first_property name ls)"

definition ParseTopologyProperties :: "files \<Rightarrow> string \<Rightarrow> string \<Rightarrow> (topo_error, int) result" where
  "ParseTopologyProperties fs path name =
     (case fs path of
        None \<Rightarrow> Inl (TopoOpen path)
      | Some content \<Rightarrow>
          (case scan_lines content of (ls, err) \<Rightarrow>
             (case first_property name ls of
                Some r \<Rightarrow> wrap_error TopoNum r
              | None \<Rightarrow> if err then Inl TopoScan else Inl (TopoNotFound name))))"

section \<open>Reading back a properties file\<close>

text \<open>The format the kernel writes: one \<open>name value\<close> line per property.\<close>

definition property_line :: "string \<times> nat \<Rightarrow> string" where
  "property_line kv = fst kv @ '' '' @ digits_of (snd kv)"

definition properties_text :: "(string \<times> nat) list \<Rightarrow> string" where
  "properties_text kvs = concat (map (\<lambda>kv. property_line kv @ [CHR 0x0A]) kvs)"

definition wf_property :: "string \<times> nat \<Rightarrow> bool" where
  "wf_property kv \<longleftrightarrow> list_all (\<lambda>c. \<not> is_re_space c \<and> c \<noteq> CHR 0x0A \<and> c \<noteq> CHR 0x0D) (fst kv)
     \<and> length (property_line kv) < 65536 \<and> snd kv < 2 ^ 63"

lemma raw_lines_append:
  "CHR 0x0A \<notin> set l \<Longrightarrow> raw_lines (l @ CHR 0x0A # s) = l # raw_lines s"
  by (simp add: raw_lines_def Split_append_sep Let_def)

lemma raw_lines_Nil [simp]: "raw_lines [] = []"
  by (simp add: raw_lines_def)

lemma digit_not_space: "is_digit c \<Longrightarrow> \<not> is_re_space c \<and> c \<noteq> CHR 0x0A \<and> c \<noteq> CHR 0x0D"
  by (auto simp: is_digit_def is_re_space_def)

lemma property_line_free:
  assumes "wf_property kv"
  shows "CHR 0x0A \<notin> set (property_line kv)" "CHR 0x0D \<notin> set (property_line kv)"
  using assms by (auto simp: wf_property_def property_line_def list_all_iff
      dest: set_digits_of digit_not_space)

lemma TrimSuffix_no_cr: "c \<notin> set l \<Longrightarrow> TrimSuffix l [c] = l"
  by (auto simp: TrimSuffix_def HasSuffix_iff)

lemma scan_properties_text:
  assumes "\<forall>kv \<in> set kvs. wf_property kv"
  shows "scan_lines (properties_text kvs) = (map property_line kvs, False)"
proof -
  have raw: "raw_lines (properties_text kvs) = map property_line kvs"
    using assms
  proof (induction kvs)
    case (Cons kv kvs)
    then show ?case by (simp add: properties_text_def raw_lines_append property_line_free)
  qed (simp add: properties_text_def)
  have all: "takeWhile (\<lambda>l. length l < 65536) (map property_line kvs) = map property_line kvs"
    using assms by (subst takeWhile_eq_all_conv) (auto simp: wf_property_def)
  show ?thesis
    unfolding scan_lines_def raw Let_def all
    using assms by (simp add: property_line_free TrimSuffix_no_cr)
qed

lemma match_here_no_space: "\<forall>c \<in> set s. \<not> is_re_space c \<Longrightarrow> match_here name s = None"
  by (auto simp: match_here_def HasPrefix_iff split: list.split)

lemma match_here_line:
  assumes "\<forall>c \<in> set k. \<not> is_re_space c" "\<forall>c \<in> set name. \<not> is_re_space c" "all_digits ds"
  shows "match_here name (k @ CHR '' '' # ds) = (if k = name then Some ds else None)"
proof (cases "k = name")
  case True
  with assms(3) show ?thesis
    by (auto simp: match_here_def is_re_space_def all_digits_def list_all_iff takeWhile_eq_all_conv [THEN iffD2])
next
  case False
  have "match_here name (k @ CHR '' '' # ds) = None"
  proof (rule ccontr)
    assume "match_here name (k @ CHR '' '' # ds) \<noteq> None"
    then obtain t c u where t: "k @ CHR '' '' # ds = name @ t" "t = c # u" "is_re_space c"
      by (auto simp: match_here_def HasPrefix_iff split: if_splits list.splits)
    have "takeWhile (\<lambda>c. \<not> is_re_space c) (k @ CHR '' '' # ds) = k"
      using assms(1) by (subst takeWhile_append2) (auto simp: is_re_space_def)
    moreover have "takeWhile (\<lambda>c. \<not> is_re_space c) (name @ c # u) = name"
      using assms(2) t(3) by (subst takeWhile_append2) auto
    ultimately show False using False t(1,2) by simp
  qed
  with False show ?thesis by simp
qed

lemma find_submatch_no_space: "\<forall>c \<in> set s. \<not> is_re_space c \<Longrightarrow> find_submatch name s = None"
  by (induction s) (auto simp: match_here_no_space split: option.split)

lemma find_submatch_line:
  assumes "\<forall>c \<in> set name. \<not> is_re_space c" "all_digits ds"
  shows "\<forall>c \<in> set k. \<not> is_re_space c \<Longrightarrow>
    find_submatch name (k @ CHR '' '' # ds) = (if HasSuffix k name then Some ds else None)"
proof (induction k)
  case Nil
  have "\<forall>c \<in> set ds. \<not> is_re_space c"
    using assms(2) digit_not_space by (auto simp: all_digits_def list_all_iff)
  then show ?case
    using match_here_line [of "[]" name ds] assms
    by (auto simp: find_submatch_no_space HasSuffix_iff split: option.split)
next
  case (Cons c k)
  have "HasSuffix (c # k) name \<longleftrightarrow> c # k = name \<or> HasSuffix k name"
    by (auto simp: HasSuffix_iff Cons_eq_append_conv)
  then show ?case
    using Cons match_here_line [of "c # k" name ds] assms by (auto split: option.split)
qed

lemma ParseInt0_digits_of: "n < 2 ^ 63 \<Longrightarrow> ParseInt0 (digits_of n) = Inr (int n)"
proof (cases "n = 0")
  case True
  then show ?thesis
    by (subst digits_of.simps) (simp add: ParseInt0_def digit_char_def char_of_def bit_0)
next
  case False
  have "hd (digits_of n) \<noteq> CHR ''0''"
    using False
  proof (induction n rule: digits_of.induct)
    case (1 n)
    show ?case
    proof (cases "n < 10")
      case True
      with 1 have "digit_char n \<noteq> CHR ''0''"
        using digit_val_digit_char [of n] by (auto simp: digit_val_def)
      with True show ?thesis by (subst digits_of.simps) simp
    next
      case False
      with 1 show ?thesis by (subst digits_of.simps) simp
    qed
  qed
  then show "n < 2 ^ 63 \<Longrightarrow> ?thesis" by (simp add: ParseInt0_def)
qed

lemma ParseTopologyProperties_text:
  assumes "fs path = Some (properties_text kvs)" "\<forall>kv \<in> set kvs. wf_property kv"
    and "\<forall>c \<in> set name. \<not> is_re_space c"
  shows "ParseTopologyProperties fs path name =
    (case find (\<lambda>kv. HasSuffix (fst kv) name) kvs of
       Some kv \<Rightarrow> Inr (int (snd kv)) | None \<Rightarrow> Inl (TopoNotFound name))"
proof -
  have "first_property name (map property_line kvs) =
      (case find (\<lambda>kv. HasSuffix (fst kv) name) kvs of Some kv \<Rightarrow> Some (Inr (int (snd kv))) | None \<Rightarrow> None)"
    using assms(2)
  proof (induction kvs)
    case (Cons kv kvs)
    then have "\<forall>c \<in> set (fst kv). \<not> is_re_space c" "snd kv < 2 ^ 63"
      by (auto simp: wf_property_def list_all_iff)
    with Cons show ?case
      by (simp add: property_line_def find_submatch_line [OF assms(3)] ParseInt0_digits_of)
  qed simp
  then show ?thesis
    by (simp add: ParseTopologyProperties_def assms(1) scan_properties_text [OF assms(2)] split: option.split)
qed

end
