(* ===== verification/Annotations.thy ===== *)
theory Annotations
  imports Prelude
begin

text \<open>
  The device allocation text of \<open>internal/pkg/utils/types.go\<close>: the HAMi scheduler writes one
  slot per container into the pod annotation \<open>hami.io/amd-devices-to-allocate\<close>, slots ended
  by \<open>;\<close>, devices of a slot ended by \<open>:\<close>, the fields of a device separated by \<open>,\<close>.
  \<open>CustomInfo\<close> is never set by the decoder nor read by the encoder and is left out of the
  record. The lemmas give the round trips \<open>Decode (Encode x) = x\<close> for devices whose fields
  are free of the separators and in the range of \<open>int32\<close>, and the ranges of what a decoder
  returns.
\<close>

section \<open>Types and constants\<close>

record ContainerDevice =
  UUID :: string
  DType :: string
  Usedmem :: int
  Usedcores :: int

type_synonym ContainerDevices = "ContainerDevice list"
type_synonym PodSingleDevice = "ContainerDevices list"
type_synonym PodDevices = "(string \<times> PodSingleDevice) list"
type_synonym annotations = "(string \<times> string) list"

definition AssignedNodeAnnotations :: string where "AssignedNodeAnnotations = ''hami.io/vgpu-node''"
definition BindTimeAnnotations :: string where "BindTimeAnnotations = ''hami.io/bind-time''"
definition DeviceBindPhase :: string where "DeviceBindPhase = ''hami.io/bind-phase''"
definition DeviceAllocation :: string where "DeviceAllocation = ''hami.io/amd-devices-allocated''"
definition DeviceToAllocate :: string where "DeviceToAllocate = ''hami.io/amd-devices-to-allocate''"
definition CuAllocationKey :: string where "CuAllocationKey = ''hami.io/amd-cu-allocated''"
definition DeviceBindAllocating :: string where "DeviceBindAllocating = ''allocating''"
definition DeviceBindFailed :: string where "DeviceBindFailed = ''failed''"
definition DeviceBindSuccess :: string where "DeviceBindSuccess = ''success''"

lemmas annotation_keys = AssignedNodeAnnotations_def BindTimeAnnotations_def DeviceBindPhase_def
  DeviceAllocation_def DeviceToAllocate_def CuAllocationKey_def

text \<open>The package variable \<open>InRequestDevices\<close>.\<close>

definition InRequestDevices :: "(string \<times> string) list" where
  "InRequestDevices = [(''amd'', DeviceToAllocate)]"

datatype anno_error =
    AnnoMissing
  | AnnoDevmem string num_error
  | AnnoDevcores string num_error

section \<open>Decoding\<close>

text \<open>The loop of \<open>DecodeContainerDevices\<close> over the \<open>:\<close>-separated parts.\<close>

fun decode_devices :: "string list \<Rightarrow> ContainerDevices \<Rightarrow> (anno_error, ContainerDevices) result" where
  "decode_devices [] contdev = Inr contdev"
| "decode_devices (val # cd) contdev =
     (if Contains val '','' then
        (let tmpstr = Split (CHR '','') val in
         if length tmpstr < 4 then Inl AnnoMissing
         else (case ParseInt10 32 (tmpstr ! 2) of
                 Inl e \<Rightarrow> Inl (AnnoDevmem (tmpstr ! 2) e)
               | Inr devmem \<Rightarrow>
                   (case ParseInt10 32 (tmpstr ! 3) of
                      Inl e \<Rightarrow> Inl (AnnoDevcores (tmpstr ! 3) e)
                    | Inr devcores \<Rightarrow>
                        decode_devices cd (contdev @
                          [\<lparr>UUID = tmpstr ! 0, DType = tmpstr ! 1, Usedmem = devmem, Usedcores = devcores\<rparr>]))))
      else decode_devices cd contdev)"

definition DecodeContainerDevices :: "string \<Rightarrow> (anno_error, ContainerDevices) result" where
  "DecodeContainerDevices str =
     (if length str = 0 then Inr [] else decode_devices (Split (CHR '':'') str) [])"

text \<open>
  \<open>DecodePodDevices\<close> iterates the checklist map; the entry of a device type is replaced when
  the key occurs (\<open>pd[devID] = make(...)\<close>). Entries stay aligned with the containers, so
  empty slots are kept and only one trailing \<open>;\<close> is dropped.
\<close>

fun decode_checklist ::
  "(string \<times> string) list \<Rightarrow> annotations \<Rightarrow> PodDevices \<Rightarrow> (anno_error, PodDevices) result" where
  "decode_checklist [] annos pd = Inr pd"
| "decode_checklist ((devID, devs) # checklist) annos pd =
     (case map_of annos devs of
        None \<Rightarrow> decode_checklist checklist annos pd
      | Some str \<Rightarrow>
          (case traverse DecodeContainerDevices (Split (CHR '';'') (TrimSuffix str '';'')) of
             Inl e \<Rightarrow> Inl e
           | Inr cds \<Rightarrow> decode_checklist checklist annos (assoc_update devID cds pd)))"

definition DecodePodDevices ::
  "(string \<times> string) list \<Rightarrow> annotations \<Rightarrow> (anno_error, PodDevices) result" where
  "DecodePodDevices checklist annos =
     (if length annos = 0 then Inr [] else decode_checklist checklist annos [])"

section \<open>Encoding\<close>

definition encode_device :: "ContainerDevice \<Rightarrow> string" where
  "encode_device val =
     UUID val @ '','' @ DType val @ '','' @ Itoa (Usedmem val) @ '','' @ Itoa (Usedcores val)"

fun EncodeContainerDevices :: "ContainerDevices \<Rightarrow> string" where
  "EncodeContainerDevices [] = []"
| "EncodeContainerDevices (val # cd) = encode_device val @ '':'' @ EncodeContainerDevices cd"

fun EncodePodSingleDevice :: "PodSingleDevice \<Rightarrow> string" where
  "EncodePodSingleDevice [] = []"
| "EncodePodSingleDevice (ctrdevs # pd) = EncodeContainerDevices ctrdevs @ '';'' @ EncodePodSingleDevice pd"

section \<open>Round trips\<close>

definition sep_free :: "string \<Rightarrow> bool" where
  "sep_free s \<longleftrightarrow> CHR '','' \<notin> set s \<and> CHR '':'' \<notin> set s \<and> CHR '';'' \<notin> set s"

definition int32_range :: "int \<Rightarrow> bool" where
  "int32_range i \<longleftrightarrow> - (2 ^ 31) \<le> i \<and> i < 2 ^ 31"

definition wf_device :: "ContainerDevice \<Rightarrow> bool" where
  "wf_device d \<longleftrightarrow> sep_free (UUID d) \<and> sep_free (DType d) \<and> int32_range (Usedmem d) \<and> int32_range (Usedcores d)"

lemma ParseInt10_32_Itoa: "int32_range i \<Longrightarrow> ParseInt10 32 (Itoa i) = Inr i"
  by (rule ParseInt10_Itoa) (simp_all add: int32_range_def)

lemma ParseInt10_32_range: "ParseInt10 32 s = Inr i \<Longrightarrow> int32_range i"
  using ParseInt10_range [of 32 s i] by (simp add: int32_range_def)

lemma encode_device_free:
  assumes "wf_device d"
  shows "CHR '':'' \<notin> set (encode_device d)" "CHR '';'' \<notin> set (encode_device d)"
    "CHR '','' \<in> set (encode_device d)"
  using assms by (auto simp: wf_device_def sep_free_def encode_device_def plain_text)

lemma Split_encode_device:
  assumes "wf_device d"
  shows "Split (CHR '','') (encode_device d) = [UUID d, DType d, Itoa (Usedmem d), Itoa (Usedcores d)]"
  using assms
  by (simp add: wf_device_def sep_free_def encode_device_def Split_append_sep Split_free plain_text)

lemma device_eta:
  "\<lparr>UUID = UUID d, DType = DType d, Usedmem = Usedmem d, Usedcores = Usedcores d\<rparr> = d"
  by simp

lemma decode_devices_encoded:
  "(\<And>d. d \<in> set cd \<Longrightarrow> wf_device d) \<Longrightarrow>
   decode_devices (map encode_device cd @ [[]]) acc = Inr (acc @ cd)"
proof (induction cd arbitrary: acc)
  case Nil
  then show ?case by simp
next
  case (Cons d cd)
  then have d: "wf_device d" by simp
  then have "int32_range (Usedmem d)" "int32_range (Usedcores d)" by (simp_all add: wf_device_def)
  then have p: "ParseInt10 32 (Itoa (Usedmem d)) = Inr (Usedmem d)"
    "ParseInt10 32 (Itoa (Usedcores d)) = Inr (Usedcores d)"
    by (simp_all add: ParseInt10_32_Itoa)
  have "decode_devices (map encode_device (d # cd) @ [[]]) acc
      = decode_devices (map encode_device cd @ [[]]) (acc @ [d])"
    using encode_device_free(3) [OF d] by (simp add: Split_encode_device [OF d] p device_eta)
  also have "\<dots> = Inr (acc @ d # cd)"
    using Cons.IH [of "acc @ [d]"] Cons.prems by simp
  finally show ?case .
qed

lemma Split_EncodeContainerDevices:
  "(\<And>d. d \<in> set cd \<Longrightarrow> wf_device d) \<Longrightarrow>
   Split (CHR '':'') (EncodeContainerDevices cd) = map encode_device cd @ [[]]"
  by (induction cd) (auto simp: Split_append_sep encode_device_free)

lemma EncodeContainerDevices_free:
  "(\<And>d. d \<in> set cd \<Longrightarrow> wf_device d) \<Longrightarrow> CHR '';'' \<notin> set (EncodeContainerDevices cd)"
  by (induction cd) (auto simp: encode_device_free)

lemma Decode_EncodeContainerDevices:
  assumes "\<And>d. d \<in> set cd \<Longrightarrow> wf_device d"
  shows "DecodeContainerDevices (EncodeContainerDevices cd) = Inr cd"
proof (cases cd)
  case Nil
  then show ?thesis by (simp add: DecodeContainerDevices_def)
next
  case (Cons d cd')
  then have "EncodeContainerDevices cd \<noteq> []" by simp
  then have "DecodeContainerDevices (EncodeContainerDevices cd)
      = decode_devices (map encode_device cd @ [[]]) []"
    by (simp add: DecodeContainerDevices_def Split_EncodeContainerDevices assms)
  also have "\<dots> = Inr cd"
    using decode_devices_encoded [of cd "[]"] assms by simp
  finally show ?thesis .
qed

lemma EncodePodSingleDevice_Join:
  "pd \<noteq> [] \<Longrightarrow> EncodePodSingleDevice pd = Join (map EncodeContainerDevices pd) '';'' @ '';''"
proof (induction pd)
  case Nil
  then show ?case by simp
next
  case (Cons c pd)
  then show ?case by (cases pd) auto
qed

text \<open>The slots the plugin reads back are the slots that were written.\<close>

lemma slots_roundtrip:
  assumes "pd \<noteq> []" "\<And>cd d. cd \<in> set pd \<Longrightarrow> d \<in> set cd \<Longrightarrow> wf_device d"
  shows "traverse DecodeContainerDevices (Split (CHR '';'') (TrimSuffix (EncodePodSingleDevice pd) '';''))
    = Inr pd"
proof -
  have "Split (CHR '';'') (Join (map EncodeContainerDevices pd) '';'') = map EncodeContainerDevices pd"
    using assms by (intro Split_Join) (auto simp: EncodeContainerDevices_free)
  moreover have "traverse DecodeContainerDevices (map EncodeContainerDevices pd) = Inr (map (\<lambda>x. x) pd)"
    using assms(2) by (intro traverse_map Decode_EncodeContainerDevices) auto
  ultimately show ?thesis by (simp add: EncodePodSingleDevice_Join [OF assms(1)])
qed

lemma Decode_EncodePodSingleDevice:
  assumes "pd \<noteq> []" "\<And>cd d. cd \<in> set pd \<Longrightarrow> d \<in> set cd \<Longrightarrow> wf_device d"
    and "map_of annos DeviceToAllocate = Some (EncodePodSingleDevice pd)"
  shows "DecodePodDevices InRequestDevices annos = Inr [(''amd'', pd)]"
proof -
  have "annos \<noteq> []" using assms(3) by auto
  with assms(3) slots_roundtrip [OF assms(1,2)] show ?thesis
    by (simp add: DecodePodDevices_def InRequestDevices_def)
qed

section \<open>Ranges of decoded devices\<close>

definition in_range_device :: "ContainerDevice \<Rightarrow> bool" where
  "in_range_device d \<longleftrightarrow> int32_range (Usedmem d) \<and> int32_range (Usedcores d)"

lemma decode_devices_range:
  "decode_devices vs acc = Inr cd \<Longrightarrow> \<forall>d \<in> set acc. in_range_device d \<Longrightarrow> \<forall>d \<in> set cd. in_range_device d"
proof (induction vs acc rule: decode_devices.induct)
  case (1 contdev)
  then show ?case by simp
next
  case (2 val vs contdev)
  show ?case
  proof (cases "Contains val '',''")
    case False
    with 2 show ?thesis by simp
  next
    case True
    with "2.prems"(1) obtain m c where
      mc: "\<not> length (Split (CHR '','') val) < 4"
        "ParseInt10 32 (Split (CHR '','') val ! 2) = Inr m"
        "ParseInt10 32 (Split (CHR '','') val ! 3) = Inr c"
      and rest: "decode_devices vs (contdev @ [\<lparr>UUID = Split (CHR '','') val ! 0,
          DType = Split (CHR '','') val ! 1, Usedmem = m, Usedcores = c\<rparr>]) = Inr cd"
      by (auto simp: Let_def split: if_splits sum.splits)
    from mc have "int32_range m" "int32_range c" by (auto dest: ParseInt10_32_range)
    with "2.prems"(2) show ?thesis
      by (intro "2.IH"(1) [OF True refl mc rest]) (simp add: in_range_device_def)
  qed
qed

lemma DecodeContainerDevices_range:
  "DecodeContainerDevices s = Inr cd \<Longrightarrow> \<forall>d \<in> set cd. in_range_device d"
  using decode_devices_range [of "Split (CHR '':'') s" "[]" cd]
  by (simp add: DecodeContainerDevices_def split: if_splits)

section \<open>Properties\<close>

text \<open>C11: the allocation text of a pod round trips: the slots the plugin writes into
  \<open>hami.io/amd-devices-to-allocate\<close>, empty ones included, are the slots it reads back, so slots
  stay aligned with the containers of the pod.\<close>

theorem PodDevices_roundtrip:
  assumes "pd \<noteq> []" and "\<forall>cd \<in> set pd. \<forall>d \<in> set cd. wf_device d"
    and "map_of annos DeviceToAllocate = Some (EncodePodSingleDevice pd)"
  shows "DecodePodDevices InRequestDevices annos = Inr [(''amd'', pd)]"
  using assms by (intro Decode_EncodePodSingleDevice) auto

theorem PodDevices_roundtrip_witness:
  "DecodePodDevices InRequestDevices
     [(DeviceToAllocate, EncodePodSingleDevice
        [[], [\<lparr>UUID = ''GPU-1a2b#0'', DType = ''AMDGPU'', Usedmem = 1024, Usedcores = 50\<rparr>]])]
   = Inr [(''amd'', [[], [\<lparr>UUID = ''GPU-1a2b#0'', DType = ''AMDGPU'', Usedmem = 1024, Usedcores = 50\<rparr>]])]"
  by (rule PodDevices_roundtrip) (simp_all add: wf_device_def sep_free_def int32_range_def)

end
