(* ===== verification/GoTime.thy ===== *)
theory GoTime
  imports Prelude
begin

text \<open>
  \<open>time.Parse(time.RFC3339, s)\<close> of the Go standard library, which
  \<open>internal/pkg/utils/nodelocks.go\<close> reads the time of a node lock with. The layout is
  \<open>2006-01-02T15:04:05Z07:00\<close>: four-digit year, two-digit month, day, minute and second, an
  hour of one or two digits, an optional fraction after the second, and \<open>Z\<close> or a signed
  offset; the month, the day of the month, the time of day and the offset are range-checked.
\<close>

record go_time =
  tyear :: nat
  tmonth :: nat
  tday :: nat
  thour :: nat
  tminute :: nat
  tsecond :: nat
  tnanos :: nat
  toffset :: int

definition is_leap :: "nat \<Rightarrow> bool" where
  "is_leap y \<longleftrightarrow> y mod 4 = 0 \<and> (y mod 100 \<noteq> 0 \<or> y mod 400 = 0)"

definition days_in :: "nat \<Rightarrow> nat \<Rightarrow> nat" where
  "days_in m y =
     (if m = 2 then (if is_leap y then 29 else 28)
      else if m = 4 \<or> m = 6 \<or> m = 9 \<or> m = 11 then 30 else 31)"

text \<open>\<open>getnum\<close>: two digits, or one when the width is not fixed.\<close>

definition getnum :: "bool \<Rightarrow> string \<Rightarrow> (nat \<times> string) option" where
  "getnum fixed s =
     (case s of
        a # t \<Rightarrow>
          if \<not> is_digit a then None
          else (case t of
                  b # u \<Rightarrow> if is_digit b then Some (digit_val a * 10 + digit_val b, u)
                          else if fixed then None else Some (digit_val a, t)
                | [] \<Rightarrow> if fixed then None else Some (digit_val a, t))
      | [] \<Rightarrow> None)"

definition expect :: "char \<Rightarrow> string \<Rightarrow> string option" where
  "expect c s = (case s of d # t \<Rightarrow> if d = c then Some t else None | [] \<Rightarrow> None)"

definition get_year :: "string \<Rightarrow> (nat \<times> string) option" where
  "get_year s =
     (if 4 \<le> length s \<and> list_all is_digit (take 4 s) then Some (digits_val (take 4 s), drop 4 s) else None)"

text \<open>The fraction of a second: at most nine digits count.\<close>

definition get_fraction :: "string \<Rightarrow> nat \<times> string" where
  "get_fraction s =
     (case s of
        p # d # t \<Rightarrow>
          if (p = CHR ''.'' \<or> p = CHR '','') \<and> is_digit d
          then (let ds = takeWhile is_digit (d # t); n9 = take 9 ds
                in (digits_val n9 * 10 ^ (9 - length n9), dropWhile is_digit (d # t)))
          else (0, s)
      | _ \<Rightarrow> (0, s))"

text \<open>The offset, in seconds; hours up to 24 and minutes up to 60 are accepted.\<close>

definition get_zone :: "string \<Rightarrow> (int \<times> string) option" where
  "get_zone s =
     (case s of
        CHR ''Z'' # t \<Rightarrow> Some (0, t)
      | sg # a # b # c # d # e # t \<Rightarrow>
          if c \<noteq> CHR '':'' then None
          else (case (getnum True [a, b], getnum True [d, e]) of
                  (Some (hh, _), Some (mm, _)) \<Rightarrow>
                    if hh > 24 \<or> mm > 60 then None
                    else if sg = CHR ''+'' then Some (int (hh * 60 + mm) * 60, t)
                    else if sg = CHR ''-'' then Some (- (int (hh * 60 + mm) * 60), t)
                    else None
                | _ \<Rightarrow> None)
      | _ \<Rightarrow> None)"

definition time_Parse :: "string \<Rightarrow> go_time option" where
  "time_Parse s =
     Option.bind (get_year s) (\<lambda>(y, s).
     Option.bind (expect (CHR ''-'') s) (\<lambda>s.
     Option.bind (getnum True s) (\<lambda>(mo, s).
     Option.bind (expect (CHR ''-'') s) (\<lambda>s.
     Option.bind (getnum True s) (\<lambda>(d, s).
     Option.bind (expect (CHR ''T'') s) (\<lambda>s.
     Option.bind (getnum False s) (\<lambda>(h, s).
     Option.bind (expect (CHR '':'') s) (\<lambda>s.
     Option.bind (getnum True s) (\<lambda>(mi, s).
     Option.bind (expect (CHR '':'') s) (\<lambda>s.
     Option.bind (getnum True s) (\<lambda>(sec, s).
     (case get_fraction s of (ns, s) \<Rightarrow>
     Option.bind (get_zone s) (\<lambda>(off, s).
       if s = [] \<and> 1 \<le> mo \<and> mo \<le> 12 \<and> h < 24 \<and> mi < 60 \<and> sec < 60 \<and> 1 \<le> d \<and> d \<le> days_in mo y
       then Some \<lparr>tyear = y, tmonth = mo, tday = d, thour = h, tminute = mi, tsecond = sec,
                  tnanos = ns, toffset = off\<rparr>
       else None)))))))))))))"

lemmas time_parse_eval = time_Parse_def get_year_def expect_def getnum_def get_fraction_def get_zone_def
  days_in_def is_leap_def is_digit_def digit_val_def digits_val_def Let_def

lemma time_Parse_example:
  "time_Parse ''2026-10-13T08:30:00Z'' \<noteq> None"
  by (simp add: time_parse_eval)

lemma time_Parse_example2:
  "time_Parse ''2026-02-29T08:30:00Z'' = None"
  by (simp add: time_parse_eval)

lemma time_Parse_example3:
  "time_Parse ''2024-02-29T8:30:00.125+02:00'' \<noteq> None"
  by (simp add: time_parse_eval)

lemma time_Parse_example4:
  "time_Parse ''not a time'' = None"
  by (simp add: time_parse_eval)

end
