(* ===== verification/Kube.thy ===== *)
theory Kube
  imports Annotations GoTime
begin

text \<open>
  The Kubernetes side of the plugin: \<open>internal/pkg/utils/utils.go\<close> and
  \<open>internal/pkg/utils/nodelocks.go\<close>. The API server and client-go are not part of the
  repository: they are the parameter \<open>api\<close>, one function per call the code makes, over an
  arbitrary environment state \<open>'w\<close>; a call may fail, and the state may change in any way
  between calls. A function of the code that talks to the server is an \<open>io\<close>: it passes
  the state through its calls in the order the code makes them. \<open>logged api\<close> is the same
  server with every call and its answer recorded, which is what theorems about the requests
  the code sends are stated over.
\<close>

section \<open>Objects\<close>

record Container =
  CName :: string
  Image :: string

record Pod =
  PNamespace :: string
  PName :: string
  PUID :: string
  PAnnotations :: annotations
  Phase :: string
  QOSClass :: string
  InitContainers :: "Container list"
  Containers :: "Container list"

record Node =
  NName :: string
  NAnnotations :: annotations
  ResourceVersion :: string
  Capacity :: "(string \<times> int) list"
  Allocatable :: "(string \<times> int) list"

datatype api_error = NotFound | Unauthorized | ApiError string

section \<open>Calls with effects\<close>

type_synonym ('w, 'e, 'a) io = "'w \<Rightarrow> ('e, 'a) result \<times> 'w"

definition return_io :: "'a \<Rightarrow> ('w, 'e, 'a) io" where
  "return_io x = (\<lambda>w. (Inr x, w))"

definition throw_io :: "'e \<Rightarrow> ('w, 'e, 'a) io" where
  "throw_io e = (\<lambda>w. (Inl e, w))"

definition bind_io :: "('w, 'e, 'a) io \<Rightarrow> ('a \<Rightarrow> ('w, 'e, 'b) io) \<Rightarrow> ('w, 'e, 'b) io" where
  "bind_io m f = (\<lambda>w. case m w of (Inl e, w') \<Rightarrow> (Inl e, w') | (Inr x, w') \<Rightarrow> f x w')"

text \<open>Continue with the result, error or not, of a call.\<close>

definition try_io :: "('w, 'e, 'a) io \<Rightarrow> (('e, 'a) result \<Rightarrow> ('w, 'f, 'b) io) \<Rightarrow> ('w, 'f, 'b) io" where
  "try_io m f = (\<lambda>w. case m w of (r, w') \<Rightarrow> f r w')"

definition lift_io :: "('e \<Rightarrow> 'f) \<Rightarrow> ('e, 'a) result \<Rightarrow> ('w, 'f, 'a) io" where
  "lift_io g r = (case r of Inl e \<Rightarrow> throw_io (g e) | Inr x \<Rightarrow> return_io x)"

lemma io_simps [simp]:
  "return_io x w = (Inr x, w)"
  "throw_io e w = (Inl e, w)"
  "bind_io (return_io x) f = f x"
  "bind_io (throw_io e) f = throw_io e"
  by (simp_all add: return_io_def throw_io_def bind_io_def)

lemma bind_io_run: "bind_io m f w = (case m w of (Inl e, w') \<Rightarrow> (Inl e, w') | (Inr x, w') \<Rightarrow> f x w')"
  by (simp add: bind_io_def)

lemma try_io_run: "try_io m f w = f (fst (m w)) (snd (m w))"
  by (simp add: try_io_def case_prod_beta)

lemma lift_io_simps [simp]:
  "lift_io g (Inl e) = throw_io (g e)"
  "lift_io g (Inr x) = return_io x"
  by (simp_all add: lift_io_def)

section \<open>The API server\<close>

text \<open>
  \<open>patchPod ns name annos labels\<close> and \<open>patchNode name rv annos\<close> are the merge patches the
  code sends: an annotation with value \<open>None\<close> is removed (JSON \<open>null\<close>), and \<open>rv\<close> is the
  resource version the patch is bound to, if any. \<open>listPods\<close> lists the pods of all
  namespaces whose \<open>spec.nodeName\<close> is the argument. \<open>patchStatus\<close> patches capacity and
  allocatable of a node.
\<close>

record 'w api =
  getNode :: "string \<Rightarrow> ('w, api_error, Node) io"
  listPods :: "string \<Rightarrow> ('w, api_error, Pod list) io"
  getPod :: "string \<Rightarrow> string \<Rightarrow> ('w, api_error, Pod) io"
  patchPod :: "string \<Rightarrow> string \<Rightarrow> annotations \<Rightarrow> annotations \<Rightarrow> ('w, api_error, unit) io"
  patchNode :: "string \<Rightarrow> string option \<Rightarrow> (string \<times> string option) list \<Rightarrow> ('w, api_error, unit) io"
  patchStatus :: "string \<Rightarrow> (string \<times> int option) list \<Rightarrow> ('w, api_error, unit) io"

datatype call =
    CGetNode string "(api_error, Node) result"
  | CListPods string "(api_error, Pod list) result"
  | CGetPod string string "(api_error, Pod) result"
  | CPatchPod string string annotations annotations "(api_error, unit) result"
  | CPatchNode string "string option" "(string \<times> string option) list" "(api_error, unit) result"
  | CPatchStatus string "(string \<times> int option) list" "(api_error, unit) result"

definition log_call :: "(('e, 'a) result \<Rightarrow> call) \<Rightarrow> ('w, 'e, 'a) io \<Rightarrow> ('w \<times> call list, 'e, 'a) io" where
  "log_call c m = (\<lambda>(w, l). case m w of (r, w') \<Rightarrow> (r, (w', l @ [c r])))"

definition logged :: "'w api \<Rightarrow> ('w \<times> call list) api" where
  "logged a = \<lparr>
     getNode = (\<lambda>n. log_call (CGetNode n) (getNode a n)),
     listPods = (\<lambda>n. log_call (CListPods n) (listPods a n)),
     getPod = (\<lambda>ns n. log_call (CGetPod ns n) (getPod a ns n)),
     patchPod = (\<lambda>ns n an la. log_call (CPatchPod ns n an la) (patchPod a ns n an la)),
     patchNode = (\<lambda>n rv an. log_call (CPatchNode n rv an) (patchNode a n rv an)),
     patchStatus = (\<lambda>n rs. log_call (CPatchStatus n rs) (patchStatus a n rs))\<rparr>"

text \<open>The calls a run on the logged server adds to the log.\<close>

definition run_logged :: "('w \<times> call list, 'e, 'a) io \<Rightarrow> 'w \<Rightarrow> ('e, 'a) result \<times> call list" where
  "run_logged m w = (case m (w, []) of (r, (_, l)) \<Rightarrow> (r, l))"

section \<open>Node locks (nodelocks.go)\<close>

definition NodeLockKey :: string where "NodeLockKey = ''hami.io/mutex.lock''"
definition NodeLockSep :: string where "NodeLockSep = '',''"

datatype kube_error =
    KEmptyNodeName
  | KNodeNotFound string
  | KUnauthorized string
  | KGetNode string api_error
  | KNoPendingPod string
  | KApi api_error
  | KLockTime string
  | KLockMalformed nat string
  | KPodNil
  | KReleaseLock string api_error
  | KAnno anno_error
  | KDeviceRequestNotFound
  | KContainerIndex nat nat nat
  | KEraseNotFound

definition ParseNodeLock :: "string \<Rightarrow> (kube_error, go_time \<times> string \<times> string) result" where
  "ParseNodeLock value =
     (if \<not> Contains value NodeLockSep then
        (case time_Parse value of None \<Rightarrow> Inl (KLockTime value) | Some t \<Rightarrow> Inr (t, [], []))
      else
        (case Split (CHR '','') value of
           [s0, s1, s2] \<Rightarrow>
             (case time_Parse s0 of None \<Rightarrow> Inl (KLockTime s0) | Some t \<Rightarrow> Inr (t, s1, s2))
         | s \<Rightarrow> Inl (KLockMalformed (length s) value)))"

definition GeneratePodNamespaceName :: "Pod option \<Rightarrow> string \<Rightarrow> string" where
  "GeneratePodNamespaceName p sep =
     (case p of None \<Rightarrow> [] | Some pod \<Rightarrow> PNamespace pod @ sep @ PName pod)"

text \<open>One attempt of \<open>ReleaseNodeLock\<close>: the function passed to \<open>retry.OnError\<close>.\<close>

definition release_attempt :: "'w api \<Rightarrow> string \<Rightarrow> Pod \<Rightarrow> bool \<Rightarrow> ('w, api_error, unit) io" where
  "release_attempt api nodeName pod skipNodeLockOwnerCheck =
     bind_io (getNode api nodeName) (\<lambda>node.
       case map_of (NAnnotations node) NodeLockKey of
         None \<Rightarrow> return_io ()
       | Some lockStr \<Rightarrow>
           if \<not> skipNodeLockOwnerCheck
              \<and> \<not> HasSuffix lockStr (NodeLockSep @ GeneratePodNamespaceName (Some pod) NodeLockSep)
           then return_io ()
           else patchNode api nodeName (Some (ResourceVersion node)) [(NodeLockKey, None)])"

text \<open>
  \<open>retry.OnError\<close> of client-go with a classifier that retries every error: the function is
  run until it succeeds, at most \<open>steps\<close> times; the last error is returned.
\<close>

fun retry_OnError :: "nat \<Rightarrow> ('w, 'e, unit) io \<Rightarrow> ('w, 'e, unit) io" where
  "retry_OnError 0 fn = return_io ()"
| "retry_OnError (Suc 0) fn = fn"
| "retry_OnError (Suc (Suc steps)) fn =
     try_io fn (\<lambda>r. case r of Inr u \<Rightarrow> return_io u | Inl e \<Rightarrow> retry_OnError (Suc steps) fn)"

definition DefaultStrategy_Steps :: nat where "DefaultStrategy_Steps = 5"

definition ReleaseNodeLock :: "'w api \<Rightarrow> string \<Rightarrow> Pod option \<Rightarrow> bool \<Rightarrow> ('w, kube_error, unit) io" where
  "ReleaseNodeLock api nodeName p skipNodeLockOwnerCheck =
     (case p of
        None \<Rightarrow> throw_io KPodNil
      | Some pod \<Rightarrow>
          try_io (retry_OnError DefaultStrategy_Steps (release_attempt api nodeName pod skipNodeLockOwnerCheck))
            (lift_io (KReleaseLock nodeName)))"

section \<open>Nodes and pods (utils.go)\<close>

definition GetNode :: "'w api \<Rightarrow> string \<Rightarrow> ('w, kube_error, Node) io" where
  "GetNode api nodename =
     (if nodename = [] then throw_io KEmptyNodeName
      else try_io (getNode api nodename) (lift_io (\<lambda>e.
             case e of NotFound \<Rightarrow> KNodeNotFound nodename
                     | Unauthorized \<Rightarrow> KUnauthorized nodename
                     | ApiError _ \<Rightarrow> KGetNode nodename e)))"

text \<open>The pod the lock of the node names; a missing lock, an incomplete one and a lock whose
  pod is gone yield no pod and no error.\<close>

definition GetAllocatePodByNode :: "'w api \<Rightarrow> string \<Rightarrow> ('w, kube_error, Pod option) io" where
  "GetAllocatePodByNode api nodeName =
     bind_io (try_io (getNode api nodeName) (lift_io KApi)) (\<lambda>node.
       case map_of (NAnnotations node) NodeLockKey of
         None \<Rightarrow> return_io None
       | Some value \<Rightarrow>
           bind_io (lift_io id (ParseNodeLock value)) (\<lambda>(_, ns, name).
             if ns = [] \<or> name = [] then return_io None
             else try_io (getPod api ns name) (\<lambda>r.
               case r of
                 Inl NotFound \<Rightarrow> return_io None
               | Inl e \<Rightarrow> throw_io (KApi e)
               | Inr pod \<Rightarrow> return_io (Some pod))))"

definition is_pending_on :: "string \<Rightarrow> Pod \<Rightarrow> bool" where
  "is_pending_on node p \<longleftrightarrow>
     Phase p = ''Pending'' \<and> map_of (PAnnotations p) BindTimeAnnotations \<noteq> None
     \<and> map_of (PAnnotations p) DeviceBindPhase = Some DeviceBindAllocating
     \<and> (case map_of (PAnnotations p) AssignedNodeAnnotations of None \<Rightarrow> node = [] | Some n \<Rightarrow> n = node)"

text \<open>The scan over the listed pods returns at the first that passes all four tests.\<close>

definition GetPendingPod :: "'w api \<Rightarrow> string \<Rightarrow> ('w, kube_error, Pod) io" where
  "GetPendingPod api node =
     bind_io (GetAllocatePodByNode api node) (\<lambda>locked.
       case locked of
         Some pod \<Rightarrow> return_io pod
       | None \<Rightarrow>
           bind_io (try_io (listPods api node) (lift_io KApi)) (\<lambda>podlist.
             case find (is_pending_on node) podlist of
               Some p \<Rightarrow> return_io p
             | None \<Rightarrow> throw_io (KNoPendingPod node)))"

definition PatchPodAnnotations :: "'w api \<Rightarrow> Pod \<Rightarrow> annotations \<Rightarrow> ('w, kube_error, unit) io" where
  "PatchPodAnnotations api pod annos =
     try_io (patchPod api (PNamespace pod) (PName pod) annos
        (case map_of annos AssignedNodeAnnotations of
           Some v \<Rightarrow> if v \<noteq> [] then [(AssignedNodeAnnotations, v)] else []
         | None \<Rightarrow> []))
       (lift_io KApi)"

definition PatchNodeAnnotations :: "'w api \<Rightarrow> Node \<Rightarrow> annotations \<Rightarrow> ('w, kube_error, unit) io" where
  "PatchNodeAnnotations api node annos =
     try_io (patchNode api (NName node) None (map (apsnd Some) annos)) (lift_io KApi)"

definition PatchNodeStatusCapacity :: "'w api \<Rightarrow> Node \<Rightarrow> (string \<times> int) list \<Rightarrow> ('w, kube_error, unit) io" where
  "PatchNodeStatusCapacity api node resources =
     (if resources = [] then return_io ()
      else try_io (patchStatus api (NName node) (map (apsnd Some) resources)) (lift_io KApi))"

definition ClearNodeStatusCapacity :: "'w api \<Rightarrow> Node \<Rightarrow> string list \<Rightarrow> ('w, kube_error, unit) io" where
  "ClearNodeStatusCapacity api node names =
     (let stale = filter (\<lambda>n. map_of (Capacity node) n \<noteq> None \<or> map_of (Allocatable node) n \<noteq> None) names in
      if stale = [] then return_io ()
      else try_io (patchStatus api (NName node) (map (\<lambda>n. (n, None)) stale)) (lift_io KApi))"

definition IsPodInTerminatedState :: "Pod \<Rightarrow> bool" where
  "IsPodInTerminatedState pod \<longleftrightarrow> Phase pod = ''Failed'' \<or> Phase pod = ''Succeeded''"

text \<open>Both errors are only logged by the code.\<close>

definition updatePodAnnotationsAndReleaseLock :: "'w api \<Rightarrow> string \<Rightarrow> Pod \<Rightarrow> string \<Rightarrow> ('w, 'e, unit) io" where
  "updatePodAnnotationsAndReleaseLock api nodeName pod deviceBindPhase =
     try_io (PatchPodAnnotations api pod [(DeviceBindPhase, deviceBindPhase)]) (\<lambda>_.
     try_io (ReleaseNodeLock api nodeName (Some pod) False) (\<lambda>_. return_io ()))"

definition PodAllocationSuccess :: "'w api \<Rightarrow> string \<Rightarrow> Pod \<Rightarrow> ('w, 'e, unit) io" where
  "PodAllocationSuccess api nodeName pod =
     updatePodAnnotationsAndReleaseLock api nodeName pod DeviceBindSuccess"

definition PodAllocationFailed :: "'w api \<Rightarrow> string \<Rightarrow> Pod \<Rightarrow> ('w, 'e, unit) io" where
  "PodAllocationFailed api nodeName pod =
     updatePodAnnotationsAndReleaseLock api nodeName pod DeviceBindFailed"

definition PodAllocationTrySuccess :: "'w api \<Rightarrow> string \<Rightarrow> Pod \<Rightarrow> ('w, 'e, unit) io" where
  "PodAllocationTrySuccess api nodeName pod =
     try_io (getPod api (PNamespace pod) (PName pod)) (\<lambda>r.
       case r of
         Inl _ \<Rightarrow> return_io ()
       | Inr refreshed \<Rightarrow>
           (case DecodePodDevices InRequestDevices (PAnnotations refreshed) of
              Inl _ \<Rightarrow> return_io ()
            | Inr pdevices \<Rightarrow>
                if list_ex (\<lambda>(_, pd). list_ex (\<lambda>ctrdevs. 0 < length ctrdevs) pd) pdevices
                then return_io ()
                else PodAllocationSuccess api nodeName pod))"

section \<open>The next device request of a pod (utils.go)\<close>

text \<open>
  The loop over the slots: the first non-empty one is the next request. Slot \<open>ctridx\<close> belongs
  to the init containers first, then to the app containers; a slot past them is refused.
\<close>

fun next_request ::
  "Container list \<Rightarrow> Container list \<Rightarrow> nat \<Rightarrow> PodSingleDevice \<Rightarrow> (kube_error, Container \<times> ContainerDevices) result" where
  "next_request ini app ctridx [] = Inl KDeviceRequestNotFound"
| "next_request ini app ctridx (ctrDevice # pd) =
     (if length ctrDevice = 0 then next_request ini app (Suc ctridx) pd
      else if ctridx < length ini then Inr (ini ! ctridx, ctrDevice)
      else if ctridx - length ini \<ge> length app
      then Inl (KContainerIndex ctridx (length ini) (length app))
      else Inr (app ! (ctridx - length ini), ctrDevice))"

definition GetNextDeviceRequest :: "string \<Rightarrow> Pod \<Rightarrow> (kube_error, Container \<times> ContainerDevices) result" where
  "GetNextDeviceRequest dtype p =
     (case DecodePodDevices InRequestDevices (PAnnotations p) of
        Inl e \<Rightarrow> Inl (KAnno e)
      | Inr pdevices \<Rightarrow>
          (case map_of pdevices dtype of
             None \<Rightarrow> Inl KDeviceRequestNotFound
           | Some pd \<Rightarrow> next_request (InitContainers p) (Containers p) 0 pd))"

text \<open>The loop of \<open>EraseNextDeviceTypeFromAnnotation\<close>: only the first non-empty slot is emptied.\<close>

fun erase_next :: "bool \<Rightarrow> PodSingleDevice \<Rightarrow> PodSingleDevice" where
  "erase_next found [] = []"
| "erase_next found (val # pd) =
     (if found then val # erase_next True pd
      else if length val > 0 then [] # erase_next True pd
      else val # erase_next False pd)"

definition EraseNextDeviceTypeFromAnnotation :: "'w api \<Rightarrow> string \<Rightarrow> Pod \<Rightarrow> ('w, kube_error, unit) io" where
  "EraseNextDeviceTypeFromAnnotation api dtype p =
     (case DecodePodDevices InRequestDevices (PAnnotations p) of
        Inl e \<Rightarrow> throw_io (KAnno e)
      | Inr pdevices \<Rightarrow>
          (case map_of pdevices dtype of
             None \<Rightarrow> throw_io KEraseNotFound
           | Some pd \<Rightarrow>
               PatchPodAnnotations api p
                 [(case map_of InRequestDevices dtype of Some k \<Rightarrow> k | None \<Rightarrow> [],
                   EncodePodSingleDevice (erase_next False pd))]))"


section \<open>What a release of the node lock sends\<close>

text \<open>
  The abstract protocol of \<open>ReleaseNodeLock\<close>: a sequence of attempts. An attempt reads the
  node; a failed read, a node without a lock and a lock that is not the pod's end it there,
  otherwise it removes the lock by a patch that is bound to the resource version it read.
\<close>

definition lock_owned :: "Pod \<Rightarrow> bool \<Rightarrow> Node \<Rightarrow> bool" where
  "lock_owned pod skip node =
     (case map_of (NAnnotations node) NodeLockKey of
        None \<Rightarrow> False
      | Some s \<Rightarrow> skip \<or> HasSuffix s (NodeLockSep @ GeneratePodNamespaceName (Some pod) NodeLockSep))"

fun attempt_log :: "string \<Rightarrow> Pod \<Rightarrow> bool \<Rightarrow> call list \<Rightarrow> bool" where
  "attempt_log n pod skip [CGetNode n1 (Inl e)] \<longleftrightarrow> n1 = n"
| "attempt_log n pod skip [CGetNode n1 (Inr node)] \<longleftrightarrow> n1 = n \<and> \<not> lock_owned pod skip node"
| "attempt_log n pod skip [CGetNode n1 (Inr node), CPatchNode n2 rv annos r] \<longleftrightarrow>
     n1 = n \<and> n2 = n \<and> lock_owned pod skip node \<and> rv = Some (ResourceVersion node) \<and> annos = [(NodeLockKey, None)]"
| "attempt_log n pod skip _ \<longleftrightarrow> False"

fun attempt_ok :: "call list \<Rightarrow> bool" where
  "attempt_ok [CGetNode n1 (Inr node)] \<longleftrightarrow> True"
| "attempt_ok [c, CPatchNode n2 rv annos (Inr u)] \<longleftrightarrow> True"
| "attempt_ok _ \<longleftrightarrow> False"

lemma log_call_run [simp]: "log_call c m (w, l) = (fst (m w), (snd (m w), l @ [c (fst (m w))]))"
  by (simp add: log_call_def case_prod_beta)

lemma logged_simps [simp]:
  "getNode (logged a) n = log_call (CGetNode n) (getNode a n)"
  "listPods (logged a) n = log_call (CListPods n) (listPods a n)"
  "getPod (logged a) ns n = log_call (CGetPod ns n) (getPod a ns n)"
  "patchPod (logged a) ns n an la = log_call (CPatchPod ns n an la) (patchPod a ns n an la)"
  "patchNode (logged a) n rv pa = log_call (CPatchNode n rv pa) (patchNode a n rv pa)"
  "patchStatus (logged a) n rs = log_call (CPatchStatus n rs) (patchStatus a n rs)"
  by (simp_all add: logged_def)

lemma release_attempt_logged:
  "\<exists>at w'. release_attempt (logged a) n pod skip (w, l) =
     (fst (release_attempt (logged a) n pod skip (w, l)), (w', l @ at))
   \<and> attempt_log n pod skip at
   \<and> (attempt_ok at \<longleftrightarrow> fst (release_attempt (logged a) n pod skip (w, l)) = Inr ())"
proof (cases "getNode a n w")
  case (Pair r w1)
  show ?thesis
  proof (cases r)
    case (Inl e)
    with Pair show ?thesis
      by (intro exI [of _ "[CGetNode n (Inl e)]"] exI [of _ w1])
        (simp add: release_attempt_def bind_io_run)
  next
    case r: (Inr node)
    show ?thesis
    proof (cases "lock_owned pod skip node")
      case False
      with Pair r show ?thesis
        by (intro exI [of _ "[CGetNode n (Inr node)]"] exI [of _ w1])
          (auto simp: release_attempt_def bind_io_run lock_owned_def split: option.splits)
    next
      case True
      then obtain s where s: "map_of (NAnnotations node) NodeLockKey = Some s"
        "skip \<or> HasSuffix s (NodeLockSep @ GeneratePodNamespaceName (Some pod) NodeLockSep)"
        by (auto simp: lock_owned_def split: option.splits)
      obtain r2 w2 where p: "patchNode a n (Some (ResourceVersion node)) [(NodeLockKey, None)] w1 = (r2, w2)"
        by fastforce
      from True Pair r s p show ?thesis
        by (intro exI [of _ "[CGetNode n (Inr node),
             CPatchNode n (Some (ResourceVersion node)) [(NodeLockKey, None)] r2]"] exI [of _ w2])
          (cases r2; auto simp: release_attempt_def bind_io_run)
    qed
  qed
qed

text \<open>A retried call leaves a log of at most \<open>steps\<close> attempts; all but the last have failed.\<close>

lemma retry_logged:
  assumes one: "\<And>w l. \<exists>at w'. fn (w, l) = (fst (fn (w, l)), (w', l @ at)) \<and> A at
      \<and> (K at \<longleftrightarrow> fst (fn (w, l)) = Inr ())"
  shows "0 < steps \<Longrightarrow> \<exists>ats w'. retry_OnError steps fn (w, l) =
      (fst (retry_OnError steps fn (w, l)), (w', l @ concat ats))
    \<and> ats \<noteq> [] \<and> length ats \<le> steps \<and> (\<forall>at \<in> set ats. A at) \<and> (\<forall>at \<in> set (butlast ats). \<not> K at)
    \<and> (K (last ats) \<longleftrightarrow> fst (retry_OnError steps fn (w, l)) = Inr ())
    \<and> (K (last ats) \<or> length ats = steps)"
proof (induction steps arbitrary: w l)
  case 0
  then show ?case by simp
next
  case (Suc steps)
  from one [of w l] obtain at w1 where
    at: "fn (w, l) = (fst (fn (w, l)), (w1, l @ at))" "A at" "K at \<longleftrightarrow> fst (fn (w, l)) = Inr ()" by blast
  show ?case
  proof (cases "steps = 0 \<or> K at")
    case True
    have run: "retry_OnError (Suc steps) fn (w, l) = fn (w, l)"
    proof (cases steps)
      case 0
      then show ?thesis by simp
    next
      case (Suc k)
      with True at show ?thesis by (auto simp: try_io_run intro: prod_eqI)
    qed
    show ?thesis
      unfolding run using at True by (intro exI [of _ "[at]"] exI [of _ w1]) auto
  next
    case False
    then obtain k where k: "steps = Suc k" by (cases steps) auto
    from False at obtain e where e: "fst (fn (w, l)) = Inl e"
      by (cases "fst (fn (w, l))") auto
    have run: "retry_OnError (Suc steps) fn (w, l) = retry_OnError steps fn (w1, l @ at)"
      using at e unfolding k by (subst retry_OnError.simps) (simp add: try_io_run)
    from Suc.IH [of w1 "l @ at"] k obtain ats w' where
      ih: "retry_OnError steps fn (w1, l @ at) =
          (fst (retry_OnError steps fn (w1, l @ at)), (w', (l @ at) @ concat ats))"
        "ats \<noteq> []" "length ats \<le> steps" "\<forall>at \<in> set ats. A at" "\<forall>at \<in> set (butlast ats). \<not> K at"
        "K (last ats) \<longleftrightarrow> fst (retry_OnError steps fn (w1, l @ at)) = Inr ()"
        "K (last ats) \<or> length ats = steps" by blast
    show ?thesis
      unfolding run using ih at False
      by (intro exI [of _ "at # ats"] exI [of _ w']) auto
  qed
qed

lemma release_logged:
  "\<exists>ats w'. ReleaseNodeLock (logged a) n (Some pod) skip (w, l) =
     (fst (ReleaseNodeLock (logged a) n (Some pod) skip (w, l)), (w', l @ concat ats))
   \<and> ats \<noteq> [] \<and> length ats \<le> DefaultStrategy_Steps \<and> (\<forall>at \<in> set ats. attempt_log n pod skip at)
   \<and> (\<forall>at \<in> set (butlast ats). \<not> attempt_ok at)
   \<and> (attempt_ok (last ats) \<longleftrightarrow> fst (ReleaseNodeLock (logged a) n (Some pod) skip (w, l)) = Inr ())
   \<and> (attempt_ok (last ats) \<or> length ats = DefaultStrategy_Steps)"
proof -
  let ?r = "retry_OnError DefaultStrategy_Steps (release_attempt (logged a) n pod skip)"
  have run: "ReleaseNodeLock (logged a) n (Some pod) skip (w, l) =
      (case fst (?r (w, l)) of Inl e \<Rightarrow> Inl (KReleaseLock n e) | Inr u \<Rightarrow> Inr u, snd (?r (w, l)))"
    by (simp add: ReleaseNodeLock_def try_io_run lift_io_def split: sum.split)
  have "\<exists>ats w'. ?r (w, l) = (fst (?r (w, l)), (w', l @ concat ats))
    \<and> ats \<noteq> [] \<and> length ats \<le> DefaultStrategy_Steps \<and> (\<forall>at \<in> set ats. attempt_log n pod skip at)
    \<and> (\<forall>at \<in> set (butlast ats). \<not> attempt_ok at)
    \<and> (attempt_ok (last ats) \<longleftrightarrow> fst (?r (w, l)) = Inr ())
    \<and> (attempt_ok (last ats) \<or> length ats = DefaultStrategy_Steps)"
    by (rule retry_logged [OF release_attempt_logged]) (simp add: DefaultStrategy_Steps_def)
  then obtain ats w' where *: "?r (w, l) = (fst (?r (w, l)), (w', l @ concat ats))"
    "ats \<noteq> []" "length ats \<le> DefaultStrategy_Steps" "\<forall>at \<in> set ats. attempt_log n pod skip at"
    "\<forall>at \<in> set (butlast ats). \<not> attempt_ok at" "attempt_ok (last ats) \<longleftrightarrow> fst (?r (w, l)) = Inr ()"
    "attempt_ok (last ats) \<or> length ats = DefaultStrategy_Steps" by blast
  have snd: "snd (?r (w, l)) = (w', l @ concat ats)" by (subst *(1)) simp
  from * show ?thesis
    unfolding run snd
    by (intro exI [of _ ats] exI [of _ w']) (auto split: sum.splits)
qed


section \<open>The owner of a lock\<close>

lemma ParseNodeLock_cases:
  assumes "ParseNodeLock v = Inr (t, ns, name)"
  shows "(CHR '','' \<notin> set v \<and> ns = [] \<and> name = []) \<or> (\<exists>s. v = s @ '','' @ ns @ '','' @ name \<and> CHR '','' \<notin> set s
      \<and> CHR '','' \<notin> set ns \<and> CHR '','' \<notin> set name)"
proof (cases "CHR '','' \<in> set v")
  case False
  with assms show ?thesis
    by (auto simp: ParseNodeLock_def NodeLockSep_def split: option.splits)
next
  case True
  with assms obtain s where s: "Split (CHR '','') v = [s, ns, name]"
    by (auto simp: ParseNodeLock_def NodeLockSep_def split: list.splits option.splits)
  then have "CHR '','' \<notin> set s" "CHR '','' \<notin> set ns" "CHR '','' \<notin> set name"
    using Split_parts_free [of _ "CHR '',''" v] by simp_all
  moreover have "v = Join [s, ns, name] '',''"
    using Join_Split [of "CHR '',''" v] s by simp
  ultimately show ?thesis by auto
qed

lemma suffix_fields:
  assumes "CHR '','' \<notin> set a" "CHR '','' \<notin> set b" "CHR '','' \<notin> set a'" "CHR '','' \<notin> set b'"
  shows "HasSuffix (s @ '','' @ a @ '','' @ b) ('','' @ a' @ '','' @ b') \<longleftrightarrow> a = a' \<and> b = b'"
proof
  assume "HasSuffix (s @ '','' @ a @ '','' @ b) ('','' @ a' @ '','' @ b')"
  then obtain u where u: "s @ '','' @ a @ '','' @ b = u @ '','' @ a' @ '','' @ b'"
    by (auto simp: HasSuffix_iff)
  then have "rev (Split (CHR '','') (rev (s @ '','' @ a @ '','' @ b)))
      = rev (Split (CHR '','') (rev (u @ '','' @ a' @ '','' @ b')))" by simp
  then show "a = a' \<and> b = b'"
    using assms by (simp add: Split_append_sep)
qed (auto simp: HasSuffix_iff)

lemma lock_suffix_iff:
  assumes "ParseNodeLock v = Inr (t, ns, name)" "ns \<noteq> []"
    and "CHR '','' \<notin> set (PNamespace pod)" "CHR '','' \<notin> set (PName pod)"
  shows "HasSuffix v (NodeLockSep @ GeneratePodNamespaceName (Some pod) NodeLockSep)
    \<longleftrightarrow> ns = PNamespace pod \<and> name = PName pod"
  using ParseNodeLock_cases [OF assms(1)] assms(2-)
  by (auto simp: NodeLockSep_def GeneratePodNamespaceName_def suffix_fields [simplified])

section \<open>Slots served in order\<close>

text \<open>The slots that still hold devices, in order; slot \<open>k\<close> belongs to container \<open>k\<close> of
  init containers followed by app containers.\<close>

definition busy_slots :: "PodSingleDevice \<Rightarrow> nat list" where
  "busy_slots pd = filter (\<lambda>k. pd ! k \<noteq> []) [0..<length pd]"

lemma busy_slots_Cons:
  "busy_slots (x # pd) = (if x \<noteq> [] then [0] else []) @ map Suc (busy_slots pd)"
proof -
  have "[0..<Suc (length pd)] = 0 # map Suc [0..<length pd]"
    by (subst upt_conv_Cons) (simp_all add: map_Suc_upt)
  then show ?thesis by (simp add: busy_slots_def filter_map o_def del: upt_Suc)
qed

lemma busy_slots_Nil: "busy_slots [] = []"
  by (simp add: busy_slots_def)

lemma erase_next_True [simp]: "erase_next True pd = pd"
  by (induction pd) auto

lemma erase_next_hd: "erase_next False pd = (case busy_slots pd of [] \<Rightarrow> pd | k # ks \<Rightarrow> pd[k := []])"
  by (induction pd) (auto simp: busy_slots_Cons split: list.splits)

lemma busy_slots_erase: "busy_slots (erase_next False pd) = tl (busy_slots pd)"
  by (induction pd) (auto simp: busy_slots_Cons busy_slots_Nil map_tl)

lemma busy_slots_nth: "k \<in> set (busy_slots pd) \<longleftrightarrow> k < length pd \<and> pd ! k \<noteq> []"
  by (auto simp: busy_slots_def)

lemma length_erase_next [simp]: "length (erase_next f pd) = length pd"
  by (induction f pd rule: erase_next.induct) auto

lemma erase_next_pow:
  "busy_slots ((erase_next False ^^ j) pd) = drop j (busy_slots pd)
   \<and> length ((erase_next False ^^ j) pd) = length pd
   \<and> (\<forall>k \<in> set (drop j (busy_slots pd)). (erase_next False ^^ j) pd ! k = pd ! k)"
proof (induction j)
  case 0
  then show ?case by simp
next
  case (Suc j)
  let ?pd = "(erase_next False ^^ j) pd"
  have tl: "drop (Suc j) (busy_slots pd) = tl (drop j (busy_slots pd))"
    by (simp add: drop_Suc tl_drop)
  have dist: "distinct (drop j (busy_slots pd))" by (simp add: busy_slots_def distinct_drop)
  show ?case
  proof (cases "drop j (busy_slots pd)")
    case Nil
    with Suc show ?thesis unfolding tl by (simp add: busy_slots_erase)
  next
    case (Cons k ks)
    with Suc have "busy_slots ?pd = k # ks" by simp
    then have "erase_next False ?pd = ?pd[k := []]" by (simp only: erase_next_hd list.case)
    moreover have "busy_slots (erase_next False ?pd) = ks"
      unfolding busy_slots_erase \<open>busy_slots ?pd = k # ks\<close> by simp
    moreover have "\<forall>i \<in> set ks. ?pd[k := []] ! i = ?pd ! i"
      using dist Cons by (metis distinct.simps(2) nth_list_update_neq)
    ultimately show ?thesis using Suc Cons unfolding tl by simp
  qed
qed

lemma erase_next_wf:
  "\<forall>cd \<in> set pd. \<forall>d \<in> set cd. wf_device d \<Longrightarrow> \<forall>cd \<in> set (erase_next f pd). \<forall>d \<in> set cd. wf_device d"
  by (induction f pd rule: erase_next.induct) auto

lemma erase_next_pow_wf:
  "\<forall>cd \<in> set pd. \<forall>d \<in> set cd. wf_device d \<Longrightarrow>
   \<forall>cd \<in> set ((erase_next False ^^ j) pd). \<forall>d \<in> set cd. wf_device d"
  by (induction j) (auto simp: erase_next_wf)

lemma next_request_busy:
  "next_request ini app i pd = (case busy_slots pd of
      [] \<Rightarrow> Inl KDeviceRequestNotFound
    | k # ks \<Rightarrow> if i + k < length (ini @ app) then Inr ((ini @ app) ! (i + k), pd ! k)
                else Inl (KContainerIndex (i + k) (length ini) (length app)))"
proof (induction pd arbitrary: i)
  case Nil
  then show ?case by (simp add: busy_slots_def)
next
  case (Cons x pd)
  show ?case
  proof (cases "x = []")
    case True
    then show ?thesis by (simp add: Cons.IH busy_slots_Cons split: list.splits)
  next
    case False
    then show ?thesis by (auto simp: busy_slots_Cons nth_append not_less)
  qed
qed

text \<open>Serving slot after slot through the annotation: after \<open>j\<close> erasures the next request is
  the \<open>j\<close>-th slot with devices, with its container and the devices written at scheduling.\<close>

lemma GetNextDeviceRequest_served:
  assumes "\<forall>cd \<in> set pd. \<forall>d \<in> set cd. wf_device d" "j < length (busy_slots pd)"
    and "map_of (PAnnotations p) DeviceToAllocate = Some (EncodePodSingleDevice ((erase_next False ^^ j) pd))"
    and "length pd \<le> length (InitContainers p @ Containers p)"
  shows "GetNextDeviceRequest ''amd'' p =
     Inr ((InitContainers p @ Containers p) ! (busy_slots pd ! j), pd ! (busy_slots pd ! j))"
proof -
  let ?pd = "(erase_next False ^^ j) pd" and ?k = "busy_slots pd ! j"
  have "length pd \<noteq> 0" using assms(2) by (auto simp: busy_slots_def)
  then have "?pd \<noteq> []" using erase_next_pow [of j pd] by auto
  then have dec: "DecodePodDevices InRequestDevices (PAnnotations p) = Inr [(''amd'', ?pd)]"
    by (rule Decode_EncodePodSingleDevice [OF _ _ assms(3)])
      (use erase_next_pow_wf [OF assms(1)] in blast)
  have busy: "busy_slots ?pd = ?k # drop (Suc j) (busy_slots pd)"
    using erase_next_pow [of j pd] Cons_nth_drop_Suc [OF assms(2)] by simp
  have "?k \<in> set (drop j (busy_slots pd))"
    by (simp add: Cons_nth_drop_Suc [OF assms(2), symmetric])
  then have "?pd ! ?k = pd ! ?k" using erase_next_pow [of j pd] by blast
  moreover have "?k < length pd" using assms(2) nth_mem busy_slots_nth by blast
  ultimately show ?thesis
    using assms(4) by (simp add: GetNextDeviceRequest_def dec next_request_busy busy)
qed

section \<open>The pod being allocated\<close>

lemma GetPendingPod_Inr:
  assumes "GetPendingPod api node w = (Inr p, w')"
  shows "(\<exists>w1. GetAllocatePodByNode api node w = (Inr (Some p), w1) \<and> w' = w1)
    \<or> (\<exists>w1 ps. GetAllocatePodByNode api node w = (Inr None, w1) \<and> listPods api node w1 = (Inr ps, w')
        \<and> find (is_pending_on node) ps = Some p)"
  using assms
  by (auto simp: GetPendingPod_def bind_io_run try_io_run lift_io_def prod_eq_iff
      split: prod.splits sum.splits option.splits)

lemma GetAllocatePodByNode_Some:
  assumes "GetAllocatePodByNode api nodeName w = (Inr (Some p), w')"
  shows "\<exists>n w1 v t ns name. getNode api nodeName w = (Inr n, w1)
    \<and> map_of (NAnnotations n) NodeLockKey = Some v
    \<and> ParseNodeLock v = Inr (t, ns, name) \<and> ns \<noteq> [] \<and> name \<noteq> [] \<and> getPod api ns name w1 = (Inr p, w')"
  using assms
  by (auto simp: GetAllocatePodByNode_def bind_io_run try_io_run lift_io_def prod_eq_iff
      split: prod.splits sum.splits option.splits if_splits api_error.splits)

section \<open>Properties\<close>

text \<open>C12: ReleaseNodeLock, against any API server, sends at most five attempts; each reads the node
  first, removes the lock only when that read shows it owned by the pod, by one patch bound to the
  resource version it read, and sends nothing else. It stops at the first attempt that succeeds, and
  it reports an error exactly when all five have failed.\<close>

theorem ReleaseNodeLock_protocol:
  "case run_logged (ReleaseNodeLock (logged a) n (Some pod) skip) w of (r, log) \<Rightarrow>
     \<exists>attempts. log = concat attempts \<and> attempts \<noteq> [] \<and> length attempts \<le> 5
       \<and> (\<forall>at \<in> set attempts. attempt_log n pod skip at)
       \<and> (\<forall>at \<in> set (butlast attempts). \<not> attempt_ok at)
       \<and> (r = Inr () \<longleftrightarrow> attempt_ok (last attempts))
       \<and> (r \<noteq> Inr () \<longrightarrow> length attempts = 5)"
proof -
  let ?m = "ReleaseNodeLock (logged a) n (Some pod) skip (w, [])"
  obtain ats w' where *: "?m = (fst ?m, (w', [] @ concat ats))" "ats \<noteq> []"
    "length ats \<le> DefaultStrategy_Steps" "\<forall>at \<in> set ats. attempt_log n pod skip at"
    "\<forall>at \<in> set (butlast ats). \<not> attempt_ok at" "attempt_ok (last ats) \<longleftrightarrow> fst ?m = Inr ()"
    "attempt_ok (last ats) \<or> length ats = DefaultStrategy_Steps"
    using release_logged [of a n pod skip w "[]"] by blast
  have "run_logged (ReleaseNodeLock (logged a) n (Some pod) skip) w = (fst ?m, concat ats)"
    unfolding run_logged_def by (subst *(1)) simp
  with * show ?thesis
    by (auto simp: DefaultStrategy_Steps_def)
qed

text \<open>An API server that answers the same node for every read and accepts every patch.\<close>

definition fixed_api :: "Node \<Rightarrow> Pod list \<Rightarrow> unit api" where
  "fixed_api node pods = \<lparr>
     getNode = (\<lambda>_ w. (Inr node, w)),
     listPods = (\<lambda>_ w. (Inr pods, w)),
     getPod = (\<lambda>ns n w. (case find (\<lambda>p. PNamespace p = ns \<and> PName p = n) pods of
                            None \<Rightarrow> Inl NotFound | Some p \<Rightarrow> Inr p, w)),
     patchPod = (\<lambda>_ _ _ _ w. (Inr (), w)),
     patchNode = (\<lambda>_ _ _ w. (Inr (), w)),
     patchStatus = (\<lambda>_ _ w. (Inr (), w))\<rparr>"

definition sample_pod :: "string \<Rightarrow> annotations \<Rightarrow> Pod" where
  "sample_pod name annos = \<lparr>PNamespace = ''ns'', PName = name, PUID = ''uid-'' @ name, PAnnotations = annos,
     Phase = ''Pending'', QOSClass = ''Guaranteed'', InitContainers = [\<lparr>CName = ''i'', Image = ''img''\<rparr>],
     Containers = [\<lparr>CName = ''a'', Image = ''img''\<rparr>, \<lparr>CName = ''b'', Image = ''img''\<rparr>]\<rparr>"

definition sample_node :: "annotations \<Rightarrow> Node" where
  "sample_node annos = \<lparr>NName = ''n1'', NAnnotations = annos, ResourceVersion = ''7'', Capacity = [], Allocatable = []\<rparr>"

theorem ReleaseNodeLock_protocol_witness:
  "let node = sample_node [(NodeLockKey, ''2026-10-13T08:30:00Z,ns,p'')] in
   \<exists>attempts. concat attempts = [CGetNode ''n1'' (Inr node),
        CPatchNode ''n1'' (Some ''7'') [(NodeLockKey, None)] (Inr ())]
     \<and> (\<forall>at \<in> set attempts. attempt_log ''n1'' (sample_pod ''p'' []) False at)"
proof -
  let ?node = "sample_node [(NodeLockKey, ''2026-10-13T08:30:00Z,ns,p'')]"
  have "run_logged (ReleaseNodeLock (logged (fixed_api ?node [])) ''n1'' (Some (sample_pod ''p'' [])) False) ()
      = (Inr (), [CGetNode ''n1'' (Inr ?node), CPatchNode ''n1'' (Some ''7'') [(NodeLockKey, None)] (Inr ())])"
    by (simp add: run_logged_def ReleaseNodeLock_def DefaultStrategy_Steps_def eval_nat_numeral try_io_run
        release_attempt_def bind_io_run fixed_api_def sample_node_def sample_pod_def
        NodeLockSep_def GeneratePodNamespaceName_def HasSuffix_def)
  with ReleaseNodeLock_protocol [where a = "fixed_api ?node []" and n = "''n1''" and pod = "sample_pod ''p'' []"
      and skip = False and w = "()"]
  show ?thesis by (simp add: Let_def) metis
qed

text \<open>The owner check of ReleaseNodeLock, a test on the suffix of the lock text, agrees with the
  pod the lock names: for a lock that ParseNodeLock accepts, the suffix test passes for a pod exactly
  when the parsed namespace and name are the pod's. So the pod GetAllocatePodByNode finds through the
  lock can release it, and no other pod can.\<close>

theorem lock_owner_agrees:
  assumes "ParseNodeLock v = Inr (t, ns, name)" and "ns \<noteq> []"
    and "CHR '','' \<notin> set (PNamespace pod)" and "CHR '','' \<notin> set (PName pod)"
    and "map_of (NAnnotations node) NodeLockKey = Some v"
  shows "lock_owned pod False node \<longleftrightarrow> ns = PNamespace pod \<and> name = PName pod"
  using lock_suffix_iff [OF assms(1-4)] assms(5) by (simp add: lock_owned_def)

theorem lock_owner_agrees_witness:
  "lock_owned (sample_pod ''p'' []) False (sample_node [(NodeLockKey, ''2026-10-13T08:30:00Z,ns,p'')])
   \<and> \<not> lock_owned (sample_pod ''q'' []) False (sample_node [(NodeLockKey, ''2026-10-13T08:30:00Z,ns,p'')])"
proof -
  have "\<exists>t. ParseNodeLock ''2026-10-13T08:30:00Z,ns,p'' = Inr (t, ''ns'', ''p'')"
    by (simp add: ParseNodeLock_def NodeLockSep_def time_parse_eval)
  then obtain t where t: "ParseNodeLock ''2026-10-13T08:30:00Z,ns,p'' = Inr (t, ''ns'', ''p'')" ..
  show ?thesis
    using lock_owner_agrees [OF t, of "sample_pod ''p'' []" "sample_node [(NodeLockKey, ''2026-10-13T08:30:00Z,ns,p'')]"]
      lock_owner_agrees [OF t, of "sample_pod ''q'' []" "sample_node [(NodeLockKey, ''2026-10-13T08:30:00Z,ns,p'')]"]
    by (simp add: sample_pod_def sample_node_def)
qed



end
