(* ===== verification/Dmem.thy ===== *)
theory Dmem
  imports Sysfs Kube
begin

text \<open>
  Package \<open>internal/pkg/dmem\<close> (the kernel's device memory cgroup controller) and the parts of
  \<open>internal/pkg/vgpumonitor/cgroup.go\<close> that read the same tree back. Files are read through
  the parameter \<open>fs\<close>; the write of \<open>dmem.max\<close> is the parameter \<open>write\<close>. The lemmas show that
  the monitor recovers the pod of every path the plugin writes to, that the line written for
  a limit is the limit the monitor reads, and how often a write is retried.
\<close>

section \<open>Package dmem\<close>

definition DefaultCgroupRoot :: string where "DefaultCgroupRoot = ''/sys/fs/cgroup''"

definition NormalizeBDF :: "string \<Rightarrow> string" where
  "NormalizeBDF bdf =
     (if Contains bdf ''.'' then bdf
      else let i = LastIndex bdf '':'' in
           if i < 0 then bdf else take (nat i) bdf @ ''.'' @ drop (nat i + 1) bdf)"

definition Available :: "files \<Rightarrow> string \<Rightarrow> bool" where
  "Available fs cgroupRoot =
     (case fs (path_Join [cgroupRoot, ''cgroup.controllers'']) of
        None \<Rightarrow> False | Some b \<Rightarrow> list_ex (\<lambda>c. c = ''dmem'') (Fields b))"

text \<open>\<open>isDir\<close> is \<open>os.Stat\<close> succeeding with a directory.\<close>

definition Usable :: "files \<Rightarrow> (string \<Rightarrow> bool) \<Rightarrow> string \<Rightarrow> bool" where
  "Usable fs isDir cgroupRoot =
     (if \<not> Available fs cgroupRoot then False else isDir (path_Join [cgroupRoot, ''kubepods.slice'']))"

fun region_line :: "string \<Rightarrow> string list \<Rightarrow> string option" where
  "region_line want [] = None"
| "region_line want (l # ls) =
     (case Fields l of
        f # _ \<Rightarrow> if ToLower f = want then Some f else region_line want ls
      | [] \<Rightarrow> region_line want ls)"

definition Region :: "files \<Rightarrow> string \<Rightarrow> string \<Rightarrow> string option" where
  "Region fs cgroupRoot bdf =
     (case fs (path_Join [cgroupRoot, ''dmem.capacity'']) of
        None \<Rightarrow> None
      | Some content \<Rightarrow> region_line (''drm/'' @ ToLower bdf @ ''/vram'') (fst (scan_lines content)))"

definition replace_char :: "char \<Rightarrow> char \<Rightarrow> string \<Rightarrow> string" where
  "replace_char old new s = map (\<lambda>c. if c = old then new else c) s"

definition PodCgroupPath :: "string \<Rightarrow> string \<Rightarrow> string \<Rightarrow> string" where
  "PodCgroupPath cgroupRoot podUID qos =
     (let uidSlug = replace_char (CHR ''-'') (CHR ''_'') podUID in
      if qos = ''Burstable''
      then path_Join [cgroupRoot, ''kubepods.slice'', ''kubepods-burstable.slice'',
             ''kubepods-burstable-pod'' @ uidSlug @ ''.slice'']
      else if qos = ''BestEffort''
      then path_Join [cgroupRoot, ''kubepods.slice'', ''kubepods-besteffort.slice'',
             ''kubepods-besteffort-pod'' @ uidSlug @ ''.slice'']
      else path_Join [cgroupRoot, ''kubepods.slice'', ''kubepods-pod'' @ uidSlug @ ''.slice''])"

datatype write_error = NotExist | WriteError string

type_synonym 'w writer = "string \<Rightarrow> string \<Rightarrow> ('w, write_error, unit) io"

definition SetMax :: "'w writer \<Rightarrow> string \<Rightarrow> string \<Rightarrow> int \<Rightarrow> ('w, write_error, unit) io" where
  "SetMax write podCgroupPath region limitBytes =
     write (path_Join [podCgroupPath, ''dmem.max'']) (region @ '' '' @ Itoa limitBytes @ [CHR 0x0A])"

text \<open>The delays, in milliseconds; sleeping between attempts is left out.\<close>

definition delays :: "nat list" where
  "delays = [100, 200, 400, 800, 1500, 3000, 5000, 9000]"

fun retry_delays :: "nat list \<Rightarrow> ('w, write_error, unit) io \<Rightarrow> ('w, write_error, unit) io" where
  "retry_delays [] m = m"
| "retry_delays (d # ds) m =
     try_io m (\<lambda>r. case r of
         Inr u \<Rightarrow> return_io u
       | Inl e \<Rightarrow> if e \<noteq> NotExist then throw_io e else retry_delays ds m)"

definition SetMaxWithRetry :: "'w writer \<Rightarrow> string \<Rightarrow> string \<Rightarrow> int \<Rightarrow> ('w, write_error, unit) io" where
  "SetMaxWithRetry write podCgroupPath region limitBytes =
     retry_delays delays (SetMax write podCgroupPath region limitBytes)"

section \<open>The monitor's reading of the cgroup tree\<close>

text \<open>\<open>filepath.Base\<close> of a path without trailing slash: what follows the last separator.\<close>

definition path_Base :: "string \<Rightarrow> string" where
  "path_Base p = last (Split (CHR ''/'') p)"

definition is_hex_slug :: "char \<Rightarrow> bool" where
  "is_hex_slug c \<longleftrightarrow> is_digit c \<or> c \<in> set ''abcdef_''"

definition is_lower :: "char \<Rightarrow> bool" where
  "is_lower c \<longleftrightarrow> (97::nat) \<le> of_char c \<and> of_char c \<le> (122::nat)"

text \<open>
  The pattern \<open>^kubepods(?:-[a-z]+)?-pod([0-9a-f_]+)\.slice$\<close>. A name has at most one reading
  as \<open>kubepods-pod<slug>.slice\<close>: the group of lower-case letters cannot cross the \<open>-\<close> of \<open>-pod\<close>.
\<close>

definition slug_of :: "string \<Rightarrow> string option" where
  "slug_of s =
     (case CutPrefix s ''-pod'' of
        None \<Rightarrow> None
      | Some t \<Rightarrow>
          if HasSuffix t ''.slice'' \<and> TrimSuffix t ''.slice'' \<noteq> []
             \<and> list_all is_hex_slug (TrimSuffix t ''.slice'')
          then Some (TrimSuffix t ''.slice'') else None)"

definition podSlice :: "string \<Rightarrow> string option" where
  "podSlice name =
     (case CutPrefix name ''kubepods'' of
        None \<Rightarrow> None
      | Some s \<Rightarrow>
          (case (case CutPrefix s ''-'' of
                   None \<Rightarrow> None
                 | Some t \<Rightarrow> if takeWhile is_lower t = [] then None else slug_of (dropWhile is_lower t)) of
             Some m \<Rightarrow> Some m
           | None \<Rightarrow> slug_of s))"

definition podUID :: "string \<Rightarrow> string option" where
  "podUID dir =
     (case podSlice (path_Base dir) of
        None \<Rightarrow> None | Some m \<Rightarrow> Some (replace_char (CHR ''_'') (CHR ''-'') m))"

definition runtimePrefixes :: "string list" where
  "runtimePrefixes = [''cri-containerd-'', ''crio-'', ''docker-'', ''cri-dockerd-'']"

definition containerID :: "string \<Rightarrow> string option" where
  "containerID name =
     (if \<not> HasSuffix name ''.scope'' then None
      else case find (HasPrefix name) runtimePrefixes of
             None \<Rightarrow> None
           | Some p \<Rightarrow> Some (TrimSuffix (drop (length p) name) ''.scope''))"

definition MaxUint64 :: nat where "MaxUint64 = 2 ^ 64 - 1"

text \<open>One line of \<open>readDmem\<close>: the entry it adds, if any.\<close>

definition dmem_entry :: "string \<Rightarrow> (string \<times> nat) option" where
  "dmem_entry line =
     (let t = TrimSpace line;
          region = takeWhile (\<lambda>c. c \<noteq> CHR '' '') t in
      case dropWhile (\<lambda>c. c \<noteq> CHR '' '') t of
        [] \<Rightarrow> None
      | _ # v \<Rightarrow>
          if v = ''max'' then Some (region, MaxUint64)
          else (case ParseUint10 (TrimSpace v) of Inl _ \<Rightarrow> None | Inr n \<Rightarrow> Some (region, n)))"

fun read_entries :: "string list \<Rightarrow> (string \<times> nat) list \<Rightarrow> (string \<times> nat) list" where
  "read_entries [] out = out"
| "read_entries (l # ls) out =
     (case dmem_entry l of None \<Rightarrow> read_entries ls out
        | Some (region, n) \<Rightarrow> read_entries ls (assoc_update region n out))"

datatype dmem_error = DmemOpen string | DmemScan

definition readDmem :: "files \<Rightarrow> string \<Rightarrow> (dmem_error, (string \<times> nat) list \<times> bool) result" where
  "readDmem fs path =
     (case fs path of
        None \<Rightarrow> Inl (DmemOpen path)
      | Some content \<Rightarrow> (case scan_lines content of (ls, err) \<Rightarrow> Inr (read_entries ls [], err)))"

section \<open>Retries\<close>

text \<open>With the answers of the successive writes given, the number of writes and the result.\<close>

lemma retry_delays_logged:
  assumes "\<And>w l. \<exists>w'. m (w, l) = (fst (m (w, l)), (w', l @ [fst (m (w, l))]))"
  shows "\<exists>rs w'. retry_delays ds m (w, l) = (last rs, (w', l @ rs)) \<and> rs \<noteq> []
    \<and> length rs \<le> Suc (length ds) \<and> (\<forall>r \<in> set (butlast rs). r = Inl NotExist)
    \<and> (last rs = Inl NotExist \<longrightarrow> length rs = Suc (length ds))"
proof (induction ds arbitrary: w l)
  case Nil
  from assms [of w l] show ?case
    by (metis append_is_Nil_conv butlast.simps(2) empty_iff last.simps length_Cons list.distinct(1)
        list.set(1) list.size(3) order_refl retry_delays.simps(1))
next
  case (Cons d ds)
  from assms [of w l] obtain r w1 where r: "m (w, l) = (r, (w1, l @ [r]))" by (metis fst_conv)
  show ?case
  proof (cases "r = Inl NotExist")
    case False
    with r show ?thesis
      by (intro exI [of _ "[r]"] exI [of _ w1])
         (auto simp: try_io_run split: sum.splits)
  next
    case True
    from Cons [of w1 "l @ [r]"] obtain rs w' where
      ih: "retry_delays ds m (w1, l @ [r]) = (last rs, (w', (l @ [r]) @ rs))" "rs \<noteq> []"
        "length rs \<le> Suc (length ds)" "\<forall>r \<in> set (butlast rs). r = Inl NotExist"
        "last rs = Inl NotExist \<longrightarrow> length rs = Suc (length ds)" by blast
    with r True show ?thesis
      by (intro exI [of _ "r # rs"] exI [of _ w']) (auto simp: try_io_run)
  qed
qed

section \<open>The monitor recovers the pod\<close>

lemma replace_char_back: "b \<notin> set s \<Longrightarrow> replace_char b a (replace_char a b s) = s"
  by (induction s) (auto simp: replace_char_def)


lemma Split_append: "Split c (s @ c # t) = Split c s @ Split c t"
  by (induction s) (auto split: list.split)

lemma Join_snoc: "xs \<noteq> [] \<Longrightarrow> Join (xs @ [x]) sep = Join xs sep @ sep @ x"
proof (induction xs)
  case (Cons y xs)
  then show ?case by (cases xs) (simp_all add: Join_Cons)
qed simp

definition plain_elem :: "string \<Rightarrow> bool" where
  "plain_elem x \<longleftrightarrow> CHR ''/'' \<notin> set x \<and> x \<noteq> [] \<and> x \<noteq> ''.'' \<and> x \<noteq> ''..''"

lemma clean_elems_kept: "list_all plain_elem xs \<Longrightarrow> clean_elems r acc xs = rev acc @ xs"
  by (induction xs arbitrary: acc) (simp_all add: plain_elem_def)

lemma clean_elems_suffix:
  assumes "list_all plain_elem xs"
  shows "\<exists>acc'. clean_elems r acc (es @ xs) = rev acc' @ xs \<and> set acc' \<subseteq> set acc \<union> set es"
proof (induction es arbitrary: acc)
  case Nil
  show ?case by (intro exI [of _ acc]) (simp add: clean_elems_kept [OF assms])
next
  case (Cons e es)
  consider "e = [] \<or> e = ''.''" | "e = ''..''" "acc = []" | a as where "e = ''..''" "acc = a # as"
    | "e \<noteq> []" "e \<noteq> ''.''" "e \<noteq> ''..''" by (cases acc) auto
  then show ?case
  proof cases
    case 1
    with Cons [of acc] show ?thesis by auto
  next
    case 2
    with Cons [of "if r then [] else [e]"] show ?thesis by (auto split: if_splits)
  next
    case 3
    with Cons [of "if a = ''..'' then e # acc else as"] show ?thesis by (auto split: if_splits)
  next
    case 4
    with Cons [of "e # acc"] show ?thesis by auto
  qed
qed

text \<open>The parts of a path that ends in plain elements end in them still when it is cleaned.\<close>

lemma Split_path_Clean:
  assumes "list_all plain_elem xs" "xs \<noteq> []" "Split (CHR ''/'') p = es @ xs"
  shows "\<exists>es'. Split (CHR ''/'') (path_Clean p) = es' @ xs"
proof -
  have free: "\<forall>e \<in> set es. CHR ''/'' \<notin> set e"
    using Split_parts_free [of _ "CHR ''/''" p] assms(3) by simp
  obtain acc where acc: "clean_elems (HasPrefix p ''/'') [] (es @ xs) = rev acc @ xs" "set acc \<subseteq> set es"
    using clean_elems_suffix [OF assms(1), of "HasPrefix p ''/''" "[]" es] by auto
  have whole: "Split (CHR ''/'') (Join (rev acc @ xs) ''/'') = rev acc @ xs"
    by (rule Split_Join) (use free acc(2) assms(1,2) in \<open>auto simp: list_all_iff plain_elem_def\<close>)
  then have "Join (rev acc @ xs) ''/'' \<noteq> []"
    using assms(1,2) by (cases xs) (auto simp: plain_elem_def Cons_eq_append_conv)
  with whole acc(1) show ?thesis
    by (cases "HasPrefix p ''/''") (simp_all add: path_Clean_def assms(3))
qed

lemma path_Join_two: "p \<noteq> [] \<Longrightarrow> path_Join [p, f] = path_Clean (p @ ''/'' @ f)"
  by (simp add: path_Join_def)

definition dir_name :: "string \<Rightarrow> string" where
  "dir_name p = last (butlast (Split (CHR ''/'') p))"

lemma dir_name_Join:
  assumes "plain_elem (path_Base p)" "plain_elem f"
  shows "dir_name (path_Join [p, f]) = path_Base p" and "path_Base (path_Join [p, f]) = f"
proof -
  have "p \<noteq> []" using assms(1) by (auto simp: path_Base_def plain_elem_def)
  have "Split (CHR ''/'') p \<noteq> []" by (cases p) (auto split: list.split)
  then have "Split (CHR ''/'') p = butlast (Split (CHR ''/'') p) @ [path_Base p]" by (simp add: path_Base_def)
  then have "Split (CHR ''/'') (p @ ''/'' @ f) = butlast (Split (CHR ''/'') p) @ [path_Base p, f]"
    using assms(2) by (simp add: Split_append Split_free plain_elem_def)
  then obtain es where es: "Split (CHR ''/'') (path_Join [p, f]) = es @ [path_Base p, f]"
    using Split_path_Clean [of "[path_Base p, f]" "p @ ''/'' @ f"] assms by (auto simp: path_Join_two [OF \<open>p \<noteq> []\<close>])
  show "dir_name (path_Join [p, f]) = path_Base p" using es by (simp add: dir_name_def butlast_append)
  show "path_Base (path_Join [p, f]) = f" using es by (simp add: path_Base_def)
qed

lemma path_Base_Clean:
  assumes "plain_elem x" and "p = x \<or> (\<exists>q. p = q @ ''/'' @ x)"
  shows "path_Base (path_Clean p) = x"
proof -
  obtain es where "Split (CHR ''/'') p = es @ [x]"
    using assms by (auto simp: Split_free Split_append plain_elem_def)
  then show ?thesis
    using Split_path_Clean [of "[x]" p es] assms(1) by (auto simp: path_Base_def)
qed

lemma path_Base_Join:
  assumes "plain_elem x"
  shows "path_Base (path_Join (ps @ [x])) = x"
proof -
  have "x \<noteq> []" using assms by (simp add: plain_elem_def)
  have "dropWhile (\<lambda>e. e = []) (ps @ [x]) = dropWhile (\<lambda>e. e = []) ps @ [x]"
    using \<open>x \<noteq> []\<close> by (induction ps) simp_all
  moreover have "path_Base (path_Clean (Join (qs @ [x]) ''/'')) = x" for qs
  proof (rule path_Base_Clean [OF assms])
    show "Join (qs @ [x]) ''/'' = x \<or> (\<exists>q. Join (qs @ [x]) ''/'' = q @ ''/'' @ x)"
      by (cases "qs = []") (auto simp: Join_snoc)
  qed
  ultimately show ?thesis by (simp add: path_Join_def)
qed

definition uid_char :: "char \<Rightarrow> bool" where
  "uid_char c \<longleftrightarrow> is_digit c \<or> c \<in> set ''abcdef-''"

lemma slug_of_slug:
  assumes "list_all is_hex_slug slug" "slug \<noteq> []"
  shows "slug_of (''-pod'' @ slug @ ''.slice'') = Some slug"
  using assms by (simp add: slug_of_def CutPrefix_def TrimSuffix_append [of slug "''.slice''", simplified]
      HasSuffix_append [of slug "''.slice''", simplified] HasPrefix_def)

lemma slug_of_None:
  assumes "\<not> HasPrefix s ''-pod''"
  shows "slug_of s = None"
  using assms by (simp add: slug_of_def CutPrefix_def)

lemma podSlice_slug:
  assumes "list_all is_hex_slug slug" "slug \<noteq> []"
  shows "podSlice (''kubepods-pod'' @ slug @ ''.slice'') = Some slug"
    and "podSlice (''kubepods-burstable-pod'' @ slug @ ''.slice'') = Some slug"
    and "podSlice (''kubepods-besteffort-pod'' @ slug @ ''.slice'') = Some slug"
proof -
  have low: "is_lower (CHR ''p'')" "is_lower (CHR ''o'')" "is_lower (CHR ''d'')" "\<not> is_lower (CHR ''-'')"
    "is_lower (CHR ''b'')" "is_lower (CHR ''u'')" "is_lower (CHR ''r'')" "is_lower (CHR ''s'')"
    "is_lower (CHR ''t'')" "is_lower (CHR ''a'')" "is_lower (CHR ''l'')" "is_lower (CHR ''e'')" "is_lower (CHR ''f'')"
    by (simp_all add: is_lower_def)
  have rest: "CHR ''-'' \<notin> set (slug @ ''.slice'')"
    using assms(1) by (auto simp: list_all_iff is_hex_slug_def)
  have "\<not> HasPrefix (dropWhile is_lower (slug @ ''.slice'')) ''-pod''"
    using rest set_dropWhileD [of "CHR ''-''" is_lower "slug @ ''.slice''"]
    by (auto simp: HasPrefix_iff)
  then have "slug_of (dropWhile is_lower (slug @ ''.slice'')) = None" by (rule slug_of_None)
  then show "podSlice (''kubepods-pod'' @ slug @ ''.slice'') = Some slug"
    using slug_of_slug [OF assms]
    by (simp add: podSlice_def CutPrefix_def HasPrefix_def low)
  show "podSlice (''kubepods-burstable-pod'' @ slug @ ''.slice'') = Some slug"
    "podSlice (''kubepods-besteffort-pod'' @ slug @ ''.slice'') = Some slug"
    using slug_of_slug [OF assms]
    by (simp_all add: podSlice_def CutPrefix_def HasPrefix_def low)
qed

lemma podUID_PodCgroupPath:
  assumes "uid \<noteq> []" "list_all uid_char uid"
  shows "podUID (PodCgroupPath root uid qos) = Some uid"
proof -
  let ?slug = "replace_char (CHR ''-'') (CHR ''_'') uid"
  have slug: "list_all is_hex_slug ?slug" "?slug \<noteq> []"
    using assms by (auto simp: replace_char_def list_all_iff is_hex_slug_def uid_char_def)
  have "CHR ''/'' \<notin> set ?slug" using slug(1) by (auto simp: list_all_iff is_hex_slug_def is_digit_def)
  then have free: "CHR ''/'' \<notin> set (pre @ ?slug @ ''.slice'')" if "CHR ''/'' \<notin> set pre" for pre
    using that by simp
  have "CHR ''_'' \<notin> set uid" using assms(2) by (auto simp: list_all_iff uid_char_def is_digit_def)
  then have same_uid: "replace_char (CHR ''_'') (CHR ''-'') ?slug = uid" by (rule replace_char_back)
  have base: "path_Base (path_Join (ps @ [''kubepods'' @ pre @ ?slug @ ''.slice''])) = ''kubepods'' @ pre @ ?slug @ ''.slice''"
    if "CHR ''/'' \<notin> set pre" for ps pre
    by (rule path_Base_Join) (use free [OF that] in \<open>auto simp: plain_elem_def\<close>)
  show ?thesis
    using base [of "''-pod''" "[root, ''kubepods.slice'']"]
      base [of "''-burstable-pod''" "[root, ''kubepods.slice'', ''kubepods-burstable.slice'']"]
      base [of "''-besteffort-pod''" "[root, ''kubepods.slice'', ''kubepods-besteffort.slice'']"]
      podSlice_slug [OF slug]
    by (simp add: podUID_def PodCgroupPath_def Let_def same_uid)
qed

section \<open>The limit written is the limit read\<close>

lemma scan_one_line:
  assumes "CHR 0x0A \<notin> set l" "CHR 0x0D \<notin> set l" "length l < 65536"
  shows "scan_lines (l @ [CHR 0x0A]) = ([l], False)"
  using assms by (simp add: scan_lines_def raw_lines_append Let_def TrimSuffix_no_cr)

lemma TrimSpace_words:
  assumes "spaceless u" "u \<noteq> []" "spaceless v" "v \<noteq> []"
  shows "TrimSpace (u @ CHR '' '' # v) = u @ CHR '' '' # v"
  by (rule TrimSpace_ends) (use assms in \<open>auto simp: spaceless_def\<close>)

lemma dmem_line_roundtrip:
  assumes "spaceless region" "region \<noteq> []" "limit < 2 ^ 64"
  shows "dmem_entry (region @ '' '' @ Itoa (int limit)) = Some (region, limit)"
proof -
  have sp: "CHR '' '' \<notin> set region" using assms(1) by (auto simp: spaceless_def)
  have t: "TrimSpace (region @ CHR '' '' # Itoa (int limit)) = region @ CHR '' '' # digits_of limit"
    using TrimSpace_words [OF assms(1,2) spaceless_digits_of [of limit] digits_of_not_Nil]
    by (simp add: Itoa_int)
  have "takeWhile (\<lambda>c. c \<noteq> CHR '' '') (region @ CHR '' '' # digits_of limit) = region"
    by (rule takeWhile_sep [OF sp])
  moreover have "dropWhile (\<lambda>c. c \<noteq> CHR '' '') (region @ CHR '' '' # digits_of limit) = CHR '' '' # digits_of limit"
    using sp by (subst dropWhile_append2) auto
  moreover have "digits_of limit \<noteq> ''max''"
    using digits_of_hd_digit [of limit] by (auto simp: is_digit_def)
  moreover have "ParseUint10 (digits_of limit) = Inr limit"
    using assms(3) by (simp add: ParseUint10_def)
  ultimately show ?thesis by (simp add: dmem_entry_def t Let_def)
qed

lemma readDmem_one_line:
  assumes "spaceless region" "region \<noteq> []" "limit < 2 ^ 64" "length region < 65000"
    and "fs p = Some (region @ '' '' @ Itoa (int limit) @ [CHR 0x0A])"
  shows "readDmem fs p = Inr ([(region, limit)], False)"
proof -
  let ?l = "region @ '' '' @ Itoa (int limit)"
  have "length (digits_of n) \<le> k" if "n < 10 ^ k" "0 < k" for n k
    using that
  proof (induction n arbitrary: k rule: digits_of.induct)
    case (1 n)
    show ?case
    proof (cases "n < 10")
      case True
      with 1 show ?thesis by (subst digits_of.simps) simp
    next
      case False
      with "1.prems" obtain j where j: "k = Suc j" "0 < j"
        by (cases k; cases "k - 1") auto
      with "1.prems" False have "length (digits_of (n div 10)) \<le> j" by (intro "1.IH") auto
      with False j show ?thesis by (subst digits_of.simps) simp
    qed
  qed
  from this [of limit 20] assms(3) have len: "length (digits_of limit) \<le> 20" by simp
  have "CHR 0x0A \<notin> set ?l" "CHR 0x0D \<notin> set ?l"
    using assms(1) by (auto simp: spaceless_def Itoa_int is_digit_def dest!: set_digits_of)
  with len assms(4) have "scan_lines (?l @ [CHR 0x0A]) = ([?l], False)"
    by (intro scan_one_line) (simp_all add: Itoa_int)
  then show ?thesis
    using assms(5) dmem_line_roundtrip [OF assms(1-3)] by (simp add: readDmem_def)
qed

section \<open>Properties\<close>

text \<open>The monitor attributes device memory to the pod the plugin capped: from every cgroup path
  the plugin writes a limit to, for any cgroup root, pod UID and QoS class, the monitor reads back the
  UID of the pod.\<close>

theorem pod_cgroup_roundtrip:
  assumes "uid \<noteq> []" and "list_all uid_char uid"
  shows "podUID (PodCgroupPath root uid qos) = Some uid"
  using assms by (rule podUID_PodCgroupPath)

theorem pod_cgroup_roundtrip_witness:
  "podUID (PodCgroupPath ''/sys/fs/cgroup'' ''0c4f2a3e-7d1b'' ''Burstable'') = Some ''0c4f2a3e-7d1b''"
  by (rule pod_cgroup_roundtrip) (simp_all add: uid_char_def is_digit_def)

text \<open>The limit the plugin writes is the limit the monitor reports: SetMax writes one text to one
  file, and reading that file as the monitor does gives the region with exactly the limit.\<close>

theorem dmem_limit_roundtrip:
  assumes "spaceless region" and "region \<noteq> []" and "limit < 2 ^ 64" and "length region < 65000"
  shows "\<exists>path content. (\<forall>write :: 'w writer. SetMax write podCgroup region (int limit) = write path content)
    \<and> (\<forall>fs. fs path = Some content \<longrightarrow> readDmem fs path = Inr ([(region, limit)], False))"
  by (intro exI conjI allI impI, rule SetMax_def)
    (rule readDmem_one_line [OF assms])

theorem dmem_limit_roundtrip_witness:
  "\<exists>path content. (\<forall>write :: unit writer. SetMax write ''/cg/pod'' ''drm/0000:06:00.0/vram'' (int 1048576) = write path content)
    \<and> (\<forall>fs. fs path = Some content \<longrightarrow> readDmem fs path = Inr ([(''drm/0000:06:00.0/vram'', 1048576)], False))"
  by (rule dmem_limit_roundtrip) simp_all

text \<open>The cap of a pod is written at most nine times, and only a missing cgroup is retried: the
  result is the answer of the last write, every earlier answer was "not found", and it gives up on a
  missing cgroup only after all nine attempts.\<close>

theorem SetMaxWithRetry_bounded:
  fixes put :: "string \<Rightarrow> string \<Rightarrow> 'w \<Rightarrow> (write_error, unit) result \<times> 'w"
  defines "logging \<equiv> \<lambda>path content (w, log). case put path content w of (r, w') \<Rightarrow> (r, (w', log @ [r]))"
  shows "\<exists>answers w'. SetMaxWithRetry logging podCgroup region limit (w, []) = (last answers, (w', answers))
    \<and> answers \<noteq> [] \<and> length answers \<le> 9 \<and> (\<forall>r \<in> set (butlast answers). r = Inl NotExist)
    \<and> (last answers = Inl NotExist \<longrightarrow> length answers = 9)"
proof -
  have "\<exists>rs w'. retry_delays delays (SetMax logging podCgroup region limit) (w, []) = (last rs, (w', [] @ rs)) \<and> rs \<noteq> []
    \<and> length rs \<le> Suc (length delays) \<and> (\<forall>r \<in> set (butlast rs). r = Inl NotExist)
    \<and> (last rs = Inl NotExist \<longrightarrow> length rs = Suc (length delays))"
    by (rule retry_delays_logged) (auto simp: SetMax_def logging_def split: prod.splits)
  moreover have "Suc (length delays) = 9" by (simp add: delays_def)
  ultimately show ?thesis unfolding SetMaxWithRetry_def by simp
qed

theorem SetMaxWithRetry_bounded_witness:
  "\<exists>answers w'. answers \<noteq> [] \<and> length answers = 9 \<and> last answers = Inl NotExist
    \<and> SetMaxWithRetry (\<lambda>path content (w, log). case (\<lambda>_ _ w. (Inl NotExist, Suc w)) path content w of
        (r, w') \<Rightarrow> (r, (w', log @ [r]))) ''/cg'' ''r'' 1 (0 :: nat, []) = (last answers, (w', answers))"
proof -
  obtain answers w' where
    a: "SetMaxWithRetry (\<lambda>path content (w, log). case (\<lambda>_ _ w. (Inl NotExist, Suc w)) path content w of
        (r, w') \<Rightarrow> (r, (w', log @ [r]))) ''/cg'' ''r'' 1 (0 :: nat, []) = (last answers, (w', answers))"
      "answers \<noteq> []" "last answers = Inl NotExist \<longrightarrow> length answers = 9"
    using SetMaxWithRetry_bounded [where put = "\<lambda>_ _ w. (Inl NotExist, Suc w)" and w = "0 :: nat"
        and podCgroup = "''/cg''" and region = "''r''" and limit = 1] by blast
  have "fst (SetMaxWithRetry (\<lambda>path content (w, log). case (\<lambda>_ _ w. (Inl NotExist, Suc w)) path content w of
        (r, w') \<Rightarrow> (r, (w', log @ [r]))) ''/cg'' ''r'' 1 (0 :: nat, [])) = Inl NotExist"
    by (simp add: SetMaxWithRetry_def delays_def SetMax_def try_io_run)
  with a show ?thesis by auto
qed

end
