(* ===== verification/DeviceIds.thy ===== *)
theory DeviceIds
  imports Complex_Main "HOL-Library.Multiset" Dmem
begin

text \<open>
  The state of the device plugin and its device ids (\<open>internal/pkg/plugin/plugin.go\<close>): the ids
  kubelet sees (\<open><key>#<slot>\<close>, or \<open><key>#<mode>\<close> for a hard partition), the ids the scheduler
  sees (AMD SMI or ROCr UUIDs), and their resolution to the topology entry, the ROCr UUID and
  the registered device. The GPUs are a map from topology key to device data, in Go a
  \<open>map[string]interface{}\<close> read with checked type assertions: a field is \<open>None\<close> when it is
  absent or has another type. Maps are association lists with distinct keys.
\<close>

section \<open>State\<close>

record device_data =
  d_card :: "int option"
  d_renderD :: "int option"
  d_devID :: "string option"
  d_computePartitionType :: "string option"
  d_memoryPartitionType :: "string option"
  d_computePartitionFixed :: "bool option"
  d_numaNode :: "int option"
  d_nodeId :: "int option"

type_synonym gpu_map = "(string \<times> device_data) list"

text \<open>\<open>amdsmi.PartitionProfile\<close>.\<close>

record PartitionProfile =
  ProfileIndex :: int
  PP_Type :: string
  MemoryCaps :: string
  NumPartitions :: int
  XCCPerPartition :: int

datatype custom_value = CString string | CInt int | CStrings "string list" | CProfiles "PartitionProfile list"

text \<open>\<open>utils.DeviceInfo\<close>.\<close>

record DeviceInfo =
  DI_ID :: string
  DI_Index :: int
  DI_Count :: int
  DI_Devmem :: int
  DI_Devcore :: int
  DI_Type :: string
  DI_Numa :: int
  DI_Mode :: string
  DI_Health :: bool
  DI_DeviceVendor :: string
  DI_CustomInfo :: "(string \<times> custom_value) list"

text \<open>
  \<open>AMDGPUPlugin\<close> with the package variables \<open>splitCount\<close> and \<open>memoryScaling\<close>. The mutex, the
  channels and the allocator are not part of the state: every operation below reads one
  consistent snapshot of the maps, which discovery replaces wholesale. Entries of
  \<open>deviceCache\<close> are never nil.
\<close>

record plugin =
  AMDGPUs :: gpu_map
  deviceCache :: "DeviceInfo list"
  operatingMode :: string
  cdiSpecDir :: string
  amdSMIUUIDToTopology :: "(string \<times> string) list"
  amdSMIUUIDToROCrUUID :: "(string \<times> string) list"
  rocrUUIDToTopology :: "(string \<times> string) list"
  sortedBDFs :: "string list"
  bdfToROCrUUID :: "(string \<times> string) list"
  sysfsRoot :: string
  dmemEnabled :: bool
  hipLogLevel :: int
  dmemCgroupRoot :: string
  libcheckEnabled :: bool
  splitCount :: int
  memoryScaling :: rat

definition str_of :: "string option \<Rightarrow> string" where
  "str_of o' = (case o' of None \<Rightarrow> [] | Some s \<Rightarrow> s)"

definition int_of :: "int option \<Rightarrow> int" where
  "int_of o' = (case o' of None \<Rightarrow> 0 | Some i \<Rightarrow> i)"

lemma of_option_simps [simp]:
  "str_of None = []" "str_of (Some s) = s" "int_of None = 0" "int_of (Some i) = i"
  by (simp_all add: str_of_def int_of_def)

definition sysRoot :: "plugin \<Rightarrow> string" where
  "sysRoot p = (if sysfsRoot p = [] then ''/sys'' else sysfsRoot p)"

definition kfdNodesDir :: "plugin \<Rightarrow> string" where
  "kfdNodesDir p = path_Join [sysRoot p, ''class/kfd/kfd/topology/nodes'']"

section \<open>Per-node properties\<close>

definition node_property :: "files \<Rightarrow> string \<Rightarrow> int \<Rightarrow> string \<Rightarrow> (topo_error, int) result" where
  "node_property fs topoNodesDir nodeId name =
     ParseTopologyProperties fs (path_Join [topoNodesDir, Itoa nodeId, ''properties'']) name"

definition splitCountFor :: "int \<Rightarrow> files \<Rightarrow> string \<Rightarrow> int \<Rightarrow> int" where
  "splitCountFor split fs topoNodesDir nodeId =
     (if split > 0 then split
      else case node_property fs topoNodesDir nodeId ''gfx_target_version'' of
             Inr v \<Rightarrow> if v \<ge> 120000 then 2 else 10
           | Inl _ \<Rightarrow> 10)"

definition cuPerWGP :: "files \<Rightarrow> string \<Rightarrow> int \<Rightarrow> int" where
  "cuPerWGP fs topoNodesDir nodeId =
     (case node_property fs topoNodesDir nodeId ''gfx_target_version'' of
        Inr v \<Rightarrow> if v \<ge> 100000 then 2 else 1
      | Inl _ \<Rightarrow> 1)"

definition computeQueues :: "files \<Rightarrow> string \<Rightarrow> int \<Rightarrow> int option" where
  "computeQueues fs topoNodesDir nodeId =
     (case node_property fs topoNodesDir nodeId ''num_cp_queues'' of
        Inr q \<Rightarrow> if q > 0 then Some q else None
      | Inl _ \<Rightarrow> None)"

definition deviceCustomInfo :: "files \<Rightarrow> string \<Rightarrow> string \<Rightarrow> int \<Rightarrow> (string \<times> custom_value) list" where
  "deviceCustomInfo fs bdf topoNodesDir nodeId =
     [(''pciBDF'', CString (ToLower bdf)), (''cuPerWGP'', CInt (cuPerWGP fs topoNodesDir nodeId))]
     @ (case computeQueues fs topoNodesDir nodeId of None \<Rightarrow> [] | Some q \<Rightarrow> [(''computeQueues'', CInt q)])"

section \<open>Partition mode\<close>

definition IsPartitionMode :: "string \<Rightarrow> bool" where
  "IsPartitionMode mode \<longleftrightarrow> mode \<in> {''spx'', ''dpx'', ''tpx'', ''qpx'', ''cpx''}"

definition stripPartitionModeSuffix :: "string \<Rightarrow> string" where
  "stripPartitionModeSuffix ident =
     (let idx = LastIndex ident ''#'' in
      if idx > 0 \<and> IsPartitionMode (drop (nat idx + 1) ident) then take (nat idx) ident else ident)"

definition is_xcp :: "string \<Rightarrow> bool" where
  "is_xcp key \<longleftrightarrow> HasPrefix key ''amdgpu_xcp_''"

definition xcpParents :: "gpu_map \<Rightarrow> string set" where
  "xcpParents devices =
     set (map (\<lambda>(key, d). str_of (d_devID d))
       (filter (\<lambda>(key, d). is_xcp key \<and> str_of (d_devID d) \<noteq> []) devices))"

definition isSchedulableTopologyKey :: "plugin \<Rightarrow> string \<Rightarrow> device_data \<Rightarrow> string set \<Rightarrow> bool" where
  "isSchedulableTopologyKey p key d parents =
     (if is_xcp key then operatingMode p = ''partition''
      else if operatingMode p = ''partition'' then str_of (d_devID d) \<notin> parents
      else True)"

definition hardPartitionType :: "plugin \<Rightarrow> device_data \<Rightarrow> string" where
  "hardPartitionType p d =
     (if operatingMode p \<noteq> ''partition'' then []
      else if d_computePartitionFixed d = Some True then []
      else str_of (d_computePartitionType d))"

definition partitionCapableBDFs :: "gpu_map \<Rightarrow> string list" where
  "partitionCapableBDFs devices =
     map (\<lambda>(key, d). str_of (d_devID d))
       (filter (\<lambda>(key, d). \<not> is_xcp key \<and> str_of (d_devID d) \<noteq> [] \<and> str_of (d_computePartitionType d) \<noteq> []
          \<and> d_computePartitionFixed d \<noteq> Some True) devices)"

fun numPartitionsForMode :: "PartitionProfile list \<Rightarrow> string \<Rightarrow> int" where
  "numPartitionsForMode [] computeType = 1"
| "numPartitionsForMode (profile # profiles) computeType =
     (if EqualFold (PP_Type profile) computeType then NumPartitions profile
      else numPartitionsForMode profiles computeType)"

fun partitionCounts ::
  "gpu_map \<Rightarrow> (string \<times> PartitionProfile list) list \<Rightarrow> (string \<times> int) list \<Rightarrow> (string \<times> int) list" where
  "partitionCounts [] profiles counts = counts"
| "partitionCounts ((key, d) # devices) profiles counts =
     (if is_xcp key then partitionCounts devices profiles counts
      else let bdf = str_of (d_devID d) in
        (case map_of profiles (ToLower bdf) of
           Some gpuProfiles \<Rightarrow>
             if bdf \<noteq> []
             then partitionCounts devices profiles
                    (assoc_update bdf (numPartitionsForMode gpuProfiles (str_of (d_computePartitionType d))) counts)
             else partitionCounts devices profiles counts
         | None \<Rightarrow> partitionCounts devices profiles counts))"

definition kubeletIDs :: "plugin \<Rightarrow> files \<Rightarrow> string \<Rightarrow> device_data \<Rightarrow> string list" where
  "kubeletIDs p fs key d =
     (let t = hardPartitionType p d in
      if t \<noteq> [] then [key @ ''#'' @ t]
      else map (\<lambda>i. key @ ''#'' @ Itoa (int i))
             [0..<nat (splitCountFor (splitCount p) fs (kfdNodesDir p) (int_of (d_nodeId d)))])"

definition registerHardEntry :: "plugin \<Rightarrow> device_data \<Rightarrow> DeviceInfo \<Rightarrow> DeviceInfo \<times> bool" where
  "registerHardEntry p d info =
     (let t = hardPartitionType p d in
      if t = [] then (info, False) else (info\<lparr>DI_Mode := t, DI_Count := 1\<rparr>, True))"

section \<open>Resolving ids\<close>

datatype dev_error =
    UnavailableSMI string string
  | UnavailableROCr string string
  | NoTopologyEntry string
  | NoROCrUUID string
  | NotInCache string
  | InvalidCuCount string int

definition parseAMDGPUIndex :: "string \<Rightarrow> int" where
  "parseAMDGPUIndex ident =
     (let idx = LastIndex ident ''AMDGPU-'' in
      if idx < 0 then -1
      else case Atoi (drop (nat idx + length ''AMDGPU-'') ident) of Inl _ \<Rightarrow> -1 | Inr n \<Rightarrow> n)"

fun slot_index :: "int list \<Rightarrow> int \<Rightarrow> int \<Rightarrow> int" where
  "slot_index [] idx i = -1"
| "slot_index (n # ns) idx i = (if i < n then idx else slot_index ns (idx + 1) (i - n))"

definition slot_counts :: "plugin \<Rightarrow> files \<Rightarrow> int list" where
  "slot_counts p fs =
     map (\<lambda>bdf. splitCountFor (splitCount p) fs (kfdNodesDir p)
            (case map_of (AMDGPUs p) bdf of None \<Rightarrow> 0 | Some d \<Rightarrow> int_of (d_nodeId d)))
       (sortedBDFs p)"

definition gpuIndexOfSlot :: "plugin \<Rightarrow> files \<Rightarrow> int \<Rightarrow> int" where
  "gpuIndexOfSlot p fs i = (if i < 0 then -1 else slot_index (slot_counts p fs) 0 i)"

definition topologyKeyOfSlot :: "plugin \<Rightarrow> files \<Rightarrow> int \<Rightarrow> string" where
  "topologyKeyOfSlot p fs i =
     (let idx = gpuIndexOfSlot p fs i in
      if idx < 0 \<or> idx \<ge> int (length (sortedBDFs p)) then [] else sortedBDFs p ! nat idx)"

text \<open>The part of an id before the first \<open>#\<close>, \<open>strings.SplitN(id, "#", 2)[0]\<close>.\<close>

definition before_hash :: "string \<Rightarrow> string" where
  "before_hash ident = hd (SplitN2 (CHR ''#'') ident)"

text \<open>The two fallbacks of \<open>deviceDataFromAllocationUUID\<close> for ids that are no UUID.\<close>

definition device_by_slot :: "plugin \<Rightarrow> files \<Rightarrow> string \<Rightarrow> (dev_error, device_data) result" where
  "device_by_slot p fs uuid =
     (let key = topologyKeyOfSlot p fs (parseAMDGPUIndex uuid) in
      case (if key \<noteq> [] then map_of (AMDGPUs p) key else None) of
        Some d \<Rightarrow> Inr d
      | None \<Rightarrow> Inl (NoTopologyEntry uuid))"

definition device_by_key :: "plugin \<Rightarrow> files \<Rightarrow> string \<Rightarrow> (dev_error, device_data) result" where
  "device_by_key p fs uuid =
     (let bdf = before_hash uuid in
      case (if bdf \<noteq> uuid then map_of (AMDGPUs p) bdf else None) of
        Some d \<Rightarrow> Inr d
      | None \<Rightarrow> device_by_slot p fs uuid)"

definition deviceDataFromAllocationUUID ::
  "plugin \<Rightarrow> files \<Rightarrow> string \<Rightarrow> (dev_error, device_data) result" where
  "deviceDataFromAllocationUUID p fs ident =
     (let uuid = stripPartitionModeSuffix ident in
      case map_of (amdSMIUUIDToTopology p) uuid of
        Some topoKey \<Rightarrow>
          (case map_of (AMDGPUs p) topoKey of Some d \<Rightarrow> Inr d | None \<Rightarrow> Inl (UnavailableSMI uuid topoKey))
      | None \<Rightarrow>
          (case map_of (rocrUUIDToTopology p) uuid of
             Some topoKey \<Rightarrow>
               (case map_of (AMDGPUs p) topoKey of Some d \<Rightarrow> Inr d | None \<Rightarrow> Inl (UnavailableROCr uuid topoKey))
           | None \<Rightarrow> device_by_key p fs uuid))"

definition rocrUUIDFromAllocationUUID :: "plugin \<Rightarrow> files \<Rightarrow> string \<Rightarrow> (dev_error, string) result" where
  "rocrUUIDFromAllocationUUID p fs ident =
     (let uuid = stripPartitionModeSuffix ident in
      if HasPrefix uuid ''GPU-'' then Inr uuid
      else case map_of (amdSMIUUIDToROCrUUID p) uuid of
        Some r \<Rightarrow> Inr r
      | None \<Rightarrow>
          (let bdf = before_hash uuid in
           case (if bdf \<noteq> uuid then map_of (bdfToROCrUUID p) bdf else None) of
             Some r \<Rightarrow> Inr r
           | None \<Rightarrow>
               (let key = topologyKeyOfSlot p fs (parseAMDGPUIndex uuid) in
                case (if key \<noteq> [] then map_of (bdfToROCrUUID p) key else None) of
                  Some r \<Rightarrow> Inr r
                | None \<Rightarrow> Inl (NoROCrUUID uuid))))"

definition cuMaskUnit :: "plugin \<Rightarrow> files \<Rightarrow> string \<Rightarrow> string \<Rightarrow> int" where
  "cuMaskUnit p fs uuid topoNodesDir =
     (case deviceDataFromAllocationUUID p fs uuid of
        Inl _ \<Rightarrow> 1
      | Inr d \<Rightarrow> cuPerWGP fs topoNodesDir (int_of (d_nodeId d)))"

definition cached_for :: "string \<Rightarrow> DeviceInfo \<Rightarrow> bool" where
  "cached_for uuid d \<longleftrightarrow>
     DI_ID d = uuid
     \<or> (case map_of (DI_CustomInfo d) ''pciBDF'' of
          Some (CString pciBDF) \<Rightarrow> before_hash uuid \<noteq> uuid \<and> pciBDF = before_hash uuid
        | _ \<Rightarrow> False)"

definition lookupDevice :: "plugin \<Rightarrow> string \<Rightarrow> DeviceInfo option" where
  "lookupDevice p uuid = find (cached_for uuid) (deviceCache p)"

definition getDeviceTotalCUs :: "plugin \<Rightarrow> string \<Rightarrow> (dev_error, int) result" where
  "getDeviceTotalCUs p uuid =
     (case lookupDevice p uuid of
        None \<Rightarrow> Inl (NotInCache uuid)
      | Some d \<Rightarrow> if DI_Devcore d \<le> 0 then Inl (InvalidCuCount uuid (DI_Devcore d)) else Inr (DI_Devcore d))"

definition slice_of :: "plugin \<Rightarrow> ContainerDevice \<Rightarrow> bool" where
  "slice_of p d \<longleftrightarrow>
     (case lookupDevice p (UUID d) of
        None \<Rightarrow> True
      | Some info \<Rightarrow> (Usedcores d > 0 \<and> Usedcores d < DI_Devcore info)
                   \<or> (Usedmem d > 0 \<and> Usedmem d < DI_Devmem info))"

definition isWholeGPU :: "plugin \<Rightarrow> ContainerDevices \<Rightarrow> bool" where
  "isWholeGPU p devreq \<longleftrightarrow> list_all (\<lambda>d. \<not> slice_of p d) devreq"

definition rocrVisibleList :: "string list \<Rightarrow> int list \<Rightarrow> string" where
  "rocrVisibleList uuids renderMinors =
     Join (map (\<lambda>i. if uuids ! i \<noteq> [] then uuids ! i
                    else Itoa (int (length (filter (\<lambda>m. m < renderMinors ! i) renderMinors))))
             [0..<length uuids]) '',''"

definition healthyCapacity :: "DeviceInfo list \<Rightarrow> (string \<times> int) list" where
  "healthyCapacity devices =
     (let hs = filter DI_Health devices in
      [(''amd.com/gpumem'', \<Sum>d\<leftarrow>hs. DI_Devmem d), (''amd.com/gpucores'', \<Sum>d\<leftarrow>hs. DI_Devcore d)])"

section \<open>The devices kubelet sees\<close>

record kubelet_device =
  KID :: string
  KHealthy :: bool
  KNuma :: int

text \<open>\<open>None\<close> is the panic of an unchecked type assertion.\<close>

definition device_entry ::
  "plugin \<Rightarrow> files \<Rightarrow> string \<Rightarrow> device_data \<Rightarrow> (string \<times> kubelet_device list) option" where
  "device_entry p fs ident d =
     (case (d_numaNode d, d_computePartitionType d, d_memoryPartitionType d) of
        (Some numa, Some ct, Some mt) \<Rightarrow>
          Some (if d_computePartitionFixed d = Some True then [] else ct @ ''_'' @ mt,
                map (\<lambda>kid. \<lparr>KID = kid, KHealthy = True, KNuma = numa\<rparr>) (kubeletIDs p fs ident d))
      | _ \<Rightarrow> None)"

fun devices_by_type ::
  "plugin \<Rightarrow> files \<Rightarrow> string set \<Rightarrow> gpu_map \<Rightarrow> (string \<times> kubelet_device list) list
     \<Rightarrow> (string \<times> kubelet_device list) list option" where
  "devices_by_type p fs parents [] byType = Some byType"
| "devices_by_type p fs parents ((ident, d) # gpus) byType =
     (if \<not> isSchedulableTopologyKey p ident d parents then devices_by_type p fs parents gpus byType
      else case device_entry p fs ident d of
             None \<Rightarrow> None
           | Some (ty, devs) \<Rightarrow>
               devices_by_type p fs parents gpus
                 (if devs = [] then byType
                  else assoc_update ty ((case map_of byType ty of None \<Rightarrow> [] | Some ds \<Rightarrow> ds) @ devs) byType))"

definition devicesForResource :: "(string \<times> kubelet_device list) list \<Rightarrow> string \<Rightarrow> kubelet_device list" where
  "devicesForResource byType resource =
     (case map_of byType resource of Some devs \<Rightarrow> devs | None \<Rightarrow> concat (map snd byType))"

definition kubeletDevices :: "plugin \<Rightarrow> files \<Rightarrow> gpu_map \<Rightarrow> bool \<Rightarrow> string \<Rightarrow> kubelet_device list option" where
  "kubeletDevices p fs gpus homogeneous resource =
     (case devices_by_type p fs (xcpParents gpus) gpus [] of
        None \<Rightarrow> None
      | Some byType \<Rightarrow> Some (devicesForResource byType (if homogeneous then [] else resource)))"

text \<open>\<open>functional card\<close> opens the DRM device of a card; its answer is kept per GPU.\<close>

definition gpu_functional :: "gpu_map \<Rightarrow> (string \<Rightarrow> bool) \<Rightarrow> string \<Rightarrow> bool" where
  "gpu_functional gpus functional key =
     (case map_of gpus key of
        Some g \<Rightarrow> (case d_card g of Some c \<Rightarrow> functional (''card'' @ Itoa c) | None \<Rightarrow> False)
      | None \<Rightarrow> False)"

fun mark_loop ::
  "gpu_map \<Rightarrow> (string \<Rightarrow> bool) \<Rightarrow> (string \<times> bool) list \<Rightarrow> kubelet_device list \<Rightarrow> kubelet_device list" where
  "mark_loop gpus functional ok [] = []"
| "mark_loop gpus functional ok (d # devs) =
     (let ident = before_hash (KID d);
          f = (case map_of ok ident of
                 Some f \<Rightarrow> f
               | None \<Rightarrow> gpu_functional gpus functional ident)
      in (if f then d else d\<lparr>KHealthy := False\<rparr>) # mark_loop gpus functional (assoc_update ident f ok) devs)"

definition markNonFunctional :: "plugin \<Rightarrow> (string \<Rightarrow> bool) \<Rightarrow> kubelet_device list \<Rightarrow> kubelet_device list" where
  "markNonFunctional p functional devs = mark_loop (AMDGPUs p) functional [] devs"

section \<open>Preferred allocation\<close>

fun echo_loop :: "int \<Rightarrow> string list \<Rightarrow> string list \<Rightarrow> string list" where
  "echo_loop want [] out = out"
| "echo_loop want (ident # ids) out =
     (if int (length out) = want then out
      else if ident \<notin> set out then echo_loop want ids (out @ [ident])
      else echo_loop want ids out)"

text \<open>\<open>make([]string, 0, size)\<close> panics (\<open>None\<close>) on a negative size; \<open>seen\<close> holds the elements of \<open>out\<close>.\<close>

definition echoPreferred :: "string list \<Rightarrow> string list \<Rightarrow> int \<Rightarrow> string list option" where
  "echoPreferred available must want =
     (if want < 0 then None else Some (echo_loop want (must @ available) []))"

record preferred_request =
  AvailableDeviceIDs :: "string list"
  MustIncludeDeviceIDs :: "string list"
  AllocationSize :: int

definition preferred_one ::
  "(string list \<Rightarrow> string list \<Rightarrow> int \<Rightarrow> ('e, string list) result) \<Rightarrow> preferred_request \<Rightarrow> string list option" where
  "preferred_one devAllocator req =
     (case devAllocator (AvailableDeviceIDs req) (MustIncludeDeviceIDs req) (AllocationSize req) of
        Inr allocatedIDs \<Rightarrow> Some allocatedIDs
      | Inl _ \<Rightarrow> echoPreferred (AvailableDeviceIDs req) (MustIncludeDeviceIDs req) (AllocationSize req))"

fun GetPreferredAllocation ::
  "(string list \<Rightarrow> string list \<Rightarrow> int \<Rightarrow> ('e, string list) result) \<Rightarrow> preferred_request list \<Rightarrow> string list list option" where
  "GetPreferredAllocation devAllocator [] = Some []"
| "GetPreferredAllocation devAllocator (req # reqs) =
     (case preferred_one devAllocator req of
        None \<Rightarrow> None
      | Some ids \<Rightarrow>
          (case GetPreferredAllocation devAllocator reqs of None \<Rightarrow> None | Some rest \<Rightarrow> Some (ids # rest)))"


section \<open>Ids and their keys\<close>

lemma before_hash_sep: "CHR ''#'' \<notin> set key \<Longrightarrow> before_hash (key @ ''#'' @ t) = key"
  by (simp add: before_hash_def hd_SplitN2_sep)

lemma before_hash_free: "CHR ''#'' \<notin> set key \<Longrightarrow> before_hash key = key"
  by (simp add: before_hash_def hd_SplitN2_free)

lemma LastIndex_hash: "CHR ''#'' \<notin> set t \<Longrightarrow> LastIndex (key @ ''#'' @ t) ''#'' = int (length key)"
  using LastIndex_char_sep [of "CHR ''#''" t key] by simp

lemma strip_hash:
  assumes "CHR ''#'' \<notin> set t"
  shows "stripPartitionModeSuffix (key @ ''#'' @ t) =
    (if key \<noteq> [] \<and> IsPartitionMode t then key else key @ ''#'' @ t)"
proof -
  have i: "LastIndex (key @ CHR ''#'' # t) ''#'' = int (length key)"
    using LastIndex_hash [OF assms, of key] by simp
  show ?thesis by (simp add: stripPartitionModeSuffix_def i Let_def)
qed

lemma strip_free: "CHR ''#'' \<notin> set key \<Longrightarrow> stripPartitionModeSuffix key = key"
proof -
  assume "CHR ''#'' \<notin> set key"
  then have "LastIndex key ''#'' = -1" by (simp add: LastIndex_None_iff)
  then show ?thesis by (simp add: stripPartitionModeSuffix_def)
qed

lemma mode_free: "IsPartitionMode t \<Longrightarrow> CHR ''#'' \<notin> set t"
  by (auto simp: IsPartitionMode_def)

lemma Itoa_not_mode: "\<not> IsPartitionMode (Itoa i)"
proof
  assume m: "IsPartitionMode (Itoa i)"
  have "CHR ''p'' \<in> set (Itoa i)" using m by (auto simp: IsPartitionMode_def)
  then show False by (auto dest!: set_Itoa simp: is_digit_def)
qed

lemma kubeletIDs_soft:
  assumes "hardPartitionType p d = []"
  shows "set (kubeletIDs p fs key d) =
    {key @ ''#'' @ Itoa (int i) | i. i < nat (splitCountFor (splitCount p) fs (kfdNodesDir p) (int_of (d_nodeId d)))}"
  using assms by (auto simp: kubeletIDs_def)

lemma kubeletIDs_hard:
  "hardPartitionType p d \<noteq> [] \<Longrightarrow> kubeletIDs p fs key d = [key @ ''#'' @ hardPartitionType p d]"
  by (simp add: kubeletIDs_def)

text \<open>A soft kubelet id names its GPU.\<close>

lemma soft_id_resolves:
  assumes "map_of (AMDGPUs p) key = Some d" "CHR ''#'' \<notin> set key"
    and "map_of (amdSMIUUIDToTopology p) (key @ ''#'' @ Itoa i) = None"
    and "map_of (rocrUUIDToTopology p) (key @ ''#'' @ Itoa i) = None"
  shows "deviceDataFromAllocationUUID p fs (key @ ''#'' @ Itoa i) = Inr d"
proof -
  have "stripPartitionModeSuffix (key @ ''#'' @ Itoa i) = key @ ''#'' @ Itoa i"
    by (simp add: strip_hash [of "Itoa i" key, simplified] Itoa_free Itoa_not_mode)
  then show ?thesis
    using assms before_hash_sep [OF assms(2), of "Itoa i"]
    by (simp add: deviceDataFromAllocationUUID_def Let_def device_by_key_def)
qed

lemma parseAMDGPUIndex_None: "\<not> Contains s ''AMDGPU-'' \<Longrightarrow> parseAMDGPUIndex s = -1"
  by (simp add: parseAMDGPUIndex_def Let_def LastIndex_None_iff [THEN iffD2])

lemma topologyKeyOfSlot_neg: "topologyKeyOfSlot p fs (-1) = []"
  by (simp add: topologyKeyOfSlot_def gpuIndexOfSlot_def)

text \<open>A hard kubelet id does not: its suffix is stripped, and what is left is a bare topology
  key, which is no UUID and has no slot part.\<close>

lemma hard_id_unresolved:
  assumes "key \<noteq> []" "CHR ''#'' \<notin> set key" "IsPartitionMode t" "\<not> Contains key ''AMDGPU-''"
    and "map_of (amdSMIUUIDToTopology p) key = None" "map_of (rocrUUIDToTopology p) key = None"
  shows "deviceDataFromAllocationUUID p fs (key @ ''#'' @ t) = Inl (NoTopologyEntry key)"
proof -
  have "stripPartitionModeSuffix (key @ ''#'' @ t) = key"
    using assms(1,3) by (simp add: strip_hash [OF mode_free [OF assms(3)], simplified])
  then show ?thesis
    using assms before_hash_free [OF assms(2)]
    by (simp add: deviceDataFromAllocationUUID_def Let_def device_by_key_def device_by_slot_def
        parseAMDGPUIndex_None topologyKeyOfSlot_neg)
qed

text \<open>A published UUID, with or without a partition-mode suffix, names its GPU.\<close>

lemma uuid_resolves:
  assumes "map_of (amdSMIUUIDToTopology p) uuid = Some key" "map_of (AMDGPUs p) key = Some d"
    and "uuid \<noteq> []" "CHR ''#'' \<notin> set uuid"
  shows "deviceDataFromAllocationUUID p fs uuid = Inr d"
    "IsPartitionMode t \<Longrightarrow> deviceDataFromAllocationUUID p fs (uuid @ ''#'' @ t) = Inr d"
proof -
  show "deviceDataFromAllocationUUID p fs uuid = Inr d"
    using assms by (simp add: deviceDataFromAllocationUUID_def strip_free)
  assume t: "IsPartitionMode t"
  have "stripPartitionModeSuffix (uuid @ ''#'' @ t) = uuid"
    using assms(3) t strip_hash [OF mode_free [OF t], of uuid] by simp
  then show "deviceDataFromAllocationUUID p fs (uuid @ ''#'' @ t) = Inr d"
    using assms by (simp add: deviceDataFromAllocationUUID_def)
qed

section \<open>Slots\<close>

lemma slot_index_range: "0 \<le> i \<Longrightarrow> slot_index ns idx i = -1 \<or> (idx \<le> slot_index ns idx i \<and> slot_index ns idx i < idx + int (length ns))"
  if "\<forall>n \<in> set ns. 0 \<le> n" "0 \<le> idx"
  using that
proof (induction ns arbitrary: idx i)
  case (Cons n ns)
  show ?case
  proof (cases "i < n")
    case True
    with Cons.prems show ?thesis by simp
  next
    case False
    have "slot_index ns (idx + 1) (i - n) = -1 \<or> (idx + 1 \<le> slot_index ns (idx + 1) (i - n)
        \<and> slot_index ns (idx + 1) (i - n) < idx + 1 + int (length ns))"
      by (rule Cons.IH) (use Cons.prems False in auto)
    with False show ?thesis by auto
  qed
qed simp

text \<open>
  The flat numbering of slots: slot \<open>i\<close> belongs to the GPU whose block of \<open>n\<close> consecutive
  numbers contains \<open>i\<close>, counting the blocks in registration order.
\<close>

lemma slot_index_sum:
  assumes "\<forall>n \<in> set ns. 0 \<le> n" "0 \<le> i" "0 \<le> idx" "k < length ns"
  shows "slot_index ns idx i = idx + int k \<longleftrightarrow>
    sum_list (take k ns) \<le> i \<and> i < sum_list (take (Suc k) ns)"
  using assms
proof (induction ns arbitrary: i idx k)
  case (Cons n ns)
  show ?case
  proof (cases k)
    case 0
    have "slot_index ns (idx + 1) (i - n) \<noteq> idx" if "\<not> i < n"
      using slot_index_range [of ns "idx + 1" "i - n"] Cons.prems that by auto
    with 0 Cons.prems show ?thesis by auto
  next
    case (Suc j)
    have nonneg: "0 \<le> sum_list (take j ns)"
      using Cons.prems(1) by (intro sum_list_nonneg) (auto dest: in_set_takeD)
    show ?thesis
    proof (cases "i < n")
      case True
      with Suc nonneg show ?thesis by auto
    next
      case False
      with Suc Cons.prems Cons.IH [of "i - n" "idx + 1" j] show ?thesis
        by (auto simp: algebra_simps)
    qed
  qed
qed simp

lemma splitCountFor_pos: "0 < splitCountFor split fs dir nodeId"
  by (simp add: splitCountFor_def split: sum.split)

lemma slot_counts_pos: "\<forall>n \<in> set (slot_counts p fs). 0 < n"
  by (auto simp: slot_counts_def splitCountFor_pos)

lemma topologyKeyOfSlot_block:
  assumes "k < length (sortedBDFs p)" "0 \<le> i"
    and "sum_list (take k (slot_counts p fs)) \<le> i" "i < sum_list (take (Suc k) (slot_counts p fs))"
  shows "topologyKeyOfSlot p fs i = sortedBDFs p ! k"
proof -
  have "slot_index (slot_counts p fs) 0 i = 0 + int k"
    using assms slot_counts_pos [of p fs]
    by (subst slot_index_sum) (auto simp: less_imp_le, simp add: slot_counts_def)
  with assms show ?thesis by (simp add: topologyKeyOfSlot_def gpuIndexOfSlot_def)
qed

section \<open>Unique kubelet ids\<close>

lemma kubeletIDs_distinct: "distinct (kubeletIDs p fs key d)"
proof -
  have "inj_on (\<lambda>i. key @ ''#'' @ Itoa (int i)) A" for A
    by (rule inj_onI) (metis Itoa_int digits_val_digits_of append_same_eq same_append_eq)
  then show ?thesis by (auto simp: kubeletIDs_def Let_def distinct_map)
qed

lemma kubeletIDs_key:
  "CHR ''#'' \<notin> set key \<Longrightarrow> kid \<in> set (kubeletIDs p fs key d) \<Longrightarrow> before_hash kid = key"
  by (auto simp: kubeletIDs_def Let_def before_hash_sep [simplified] split: if_splits)

definition all_ids :: "(string \<times> kubelet_device list) list \<Rightarrow> string list" where
  "all_ids byType = map KID (concat (map snd byType))"

lemma mset_assoc_append:
  assumes "distinct (map fst m)"
  shows "mset (concat (map snd (assoc_update k ((case map_of m k of None \<Rightarrow> [] | Some ds \<Rightarrow> ds) @ devs) m)))
    = mset (concat (map snd m)) + mset devs"
  using assms
proof (induction m)
  case (Cons e m)
  then show ?case by (cases e) (auto simp: map_of_eq_None_iff [symmetric] split: option.splits)
qed simp

definition schedulable :: "plugin \<Rightarrow> string set \<Rightarrow> gpu_map \<Rightarrow> gpu_map" where
  "schedulable p parents gpus = filter (\<lambda>(ident, d). isSchedulableTopologyKey p ident d parents) gpus"

lemma device_entry_ids:
  "device_entry p fs ident d = Some (ty, devs) \<Longrightarrow> map KID devs = kubeletIDs p fs ident d"
  by (auto simp: device_entry_def o_def split: option.splits prod.splits)

lemma devices_by_type_mset:
  assumes "devices_by_type p fs parents gpus m = Some m'" "distinct (map fst m)"
  shows "distinct (map fst m')
    \<and> mset (all_ids m') = mset (all_ids m) + mset (concat (map (\<lambda>(k, d). kubeletIDs p fs k d) (schedulable p parents gpus)))"
  using assms
proof (induction p fs parents gpus m rule: devices_by_type.induct)
  case (1 p fs parents m)
  then show ?case by (simp add: schedulable_def)
next
  case (2 p fs parents ident d gpus m)
  show ?case
  proof (cases "isSchedulableTopologyKey p ident d parents")
    case False
    with 2 show ?thesis by (simp add: schedulable_def)
  next
    case True
    with "2.prems" obtain ty devs where e: "device_entry p fs ident d = Some (ty, devs)"
      by (auto split: option.splits)
    let ?m = "if devs = [] then m
       else assoc_update ty ((case map_of m ty of None \<Rightarrow> [] | Some ds \<Rightarrow> ds) @ devs) m"
    have d: "distinct (map fst ?m)" using "2.prems"(2) by (simp add: distinct_update)
    have "mset (all_ids ?m) = mset (all_ids m) + mset (map KID devs)"
    proof (cases "devs = []")
      case False
      then have "mset (concat (map snd ?m)) = mset (concat (map snd m)) + mset devs"
        using mset_assoc_append [OF "2.prems"(2), of ty devs] by simp
      then have "image_mset KID (mset (concat (map snd ?m))) = image_mset KID (mset (concat (map snd m)) + mset devs)"
        by simp
      then show ?thesis unfolding all_ids_def mset_map by simp
    qed simp
    with "2.IH"(2) [of "(ty, devs)" ty devs] e True d "2.prems"(1) device_entry_ids [OF e]
    show ?thesis by (simp add: schedulable_def)
  qed
qed

lemma keyed_ids_distinct:
  assumes "distinct (map fst gpus)" "\<forall>k \<in> set (map fst gpus). CHR ''#'' \<notin> set k"
  shows "distinct (concat (map (\<lambda>(k, d). kubeletIDs p fs k d) (schedulable p parents gpus)))"
  using assms
proof (induction gpus)
  case (Cons e gpus)
  obtain k d where e: "e = (k, d)" by (cases e)
  have "set (kubeletIDs p fs k d) \<inter> set (concat (map (\<lambda>(k, d). kubeletIDs p fs k d) (schedulable p parents gpus))) = {}"
  proof (rule ccontr)
    assume "\<not> ?thesis"
    then obtain kid k' d' where "kid \<in> set (kubeletIDs p fs k d)" "(k', d') \<in> set gpus"
      "kid \<in> set (kubeletIDs p fs k' d')" by (auto simp: schedulable_def)
    moreover have "CHR ''#'' \<notin> set k" "CHR ''#'' \<notin> set k'" "k \<noteq> k'"
      using Cons.prems e \<open>(k', d') \<in> set gpus\<close> by force+
    ultimately show False using kubeletIDs_key by metis
  qed
  with Cons e show ?case by (auto simp: schedulable_def kubeletIDs_distinct)
qed (simp add: schedulable_def)

lemma devices_by_type_distinct:
  assumes "devices_by_type p fs parents gpus [] = Some m"
    and "distinct (map fst gpus)" "\<forall>k \<in> set (map fst gpus). CHR ''#'' \<notin> set k"
  shows "distinct (all_ids m)"
proof -
  have "mset (all_ids m) = mset (concat (map (\<lambda>(k, d). kubeletIDs p fs k d) (schedulable p parents gpus)))"
    using devices_by_type_mset [OF assms(1)] by (simp add: all_ids_def)
  then show ?thesis using keyed_ids_distinct [OF assms(2,3)] mset_eq_imp_distinct_iff by blast
qed

lemma devicesForResource_ids:
  "distinct (all_ids m) \<Longrightarrow> distinct (map KID (devicesForResource m r))"
proof (cases "map_of m r")
  case (Some ds)
  assume d: "distinct (all_ids m)"
  have "all_ids m = concat (map (\<lambda>e. map KID (snd e)) m)"
    by (simp add: all_ids_def map_concat o_def)
  moreover have "map KID ds \<in> set (map (\<lambda>e. map KID (snd e)) m)"
    using map_of_SomeD [OF Some] by force
  ultimately show ?thesis using d Some by (auto simp: distinct_concat_iff devicesForResource_def)
qed (simp add: devicesForResource_def all_ids_def)

section \<open>Health of the kubelet devices\<close>

lemma mark_loop_eq:
  "(\<forall>k f. map_of ok k = Some f \<longrightarrow> f = gpu_functional gpus functional k) \<Longrightarrow>
   mark_loop gpus functional ok devs =
     map (\<lambda>d. if gpu_functional gpus functional (before_hash (KID d)) then d else d\<lparr>KHealthy := False\<rparr>) devs"
proof (induction devs arbitrary: ok)
  case (Cons d devs)
  let ?id = "before_hash (KID d)"
  have f: "(case map_of ok ?id of Some f \<Rightarrow> f | None \<Rightarrow> gpu_functional gpus functional ?id)
      = gpu_functional gpus functional ?id"
    using Cons.prems by (auto split: option.split)
  have "\<forall>k f. map_of (assoc_update ?id (gpu_functional gpus functional ?id) ok) k = Some f
      \<longrightarrow> f = gpu_functional gpus functional k"
    using Cons.prems by (auto simp: map_of_assoc_update)
  from Cons.IH [OF this] show ?case
    by (simp add: Let_def f)
qed simp

section \<open>Echoing kubelet's ids\<close>

lemma echo_loop_spec:
  assumes "distinct out" "int (length out) \<le> want"
  shows "let r = echo_loop want ids out in
    distinct r \<and> (\<exists>ext. r = out @ ext) \<and> set r \<subseteq> set out \<union> set ids
    \<and> int (length r) \<le> want \<and> (int (length r) = want \<or> set r = set out \<union> set ids)"
  using assms
proof (induction want ids out rule: echo_loop.induct)
  case (1 want out)
  then show ?case by (simp add: Let_def)
next
  case (2 want ident ids out)
  show ?case
  proof (cases "int (length out) = want")
    case True
    with 2 show ?thesis by (auto simp: Let_def)
  next
    case False
    show ?thesis
    proof (cases "ident \<in> set out")
      case True
      with False 2 show ?thesis by (simp add: Let_def insert_absorb)
    next
      case fresh: False
      with False "2.prems" have "distinct (out @ [ident])" "int (length (out @ [ident])) \<le> want" by auto
      from "2.IH"(1) [OF False fresh this] False fresh show ?thesis
        by (auto simp: Let_def)
    qed
  qed
qed

lemma echo_loop_append:
  "int (length (echo_loop want xs out)) \<noteq> want \<Longrightarrow>
   echo_loop want (xs @ ys) out = echo_loop want ys (echo_loop want xs out)"
  by (induction want xs out rule: echo_loop.induct) auto

lemma echo_loop_full: "int (length (echo_loop want xs out)) = want \<Longrightarrow>
   echo_loop want (xs @ ys) out = echo_loop want xs out"
proof (induction want xs out rule: echo_loop.induct)
  case (1 want out)
  then show ?case by (cases ys) simp_all
qed auto

lemma echo_must_first:
  assumes "0 \<le> want" "ids = echo_loop want (must @ available) []"
  shows "set ids \<subseteq> set must \<or> set must \<subseteq> set ids"
proof (cases "int (length (echo_loop want must [])) = want")
  case True
  with assms(2) echo_loop_full [OF True, of available]
    echo_loop_spec [of "[]" want must, unfolded Let_def] assms(1) show ?thesis by auto
next
  case False
  let ?r = "echo_loop want must []"
  have r: "set ?r = set must" "distinct ?r" "int (length ?r) \<le> want"
    using echo_loop_spec [of "[]" want must, unfolded Let_def] assms(1) False by auto
  have "ids = echo_loop want available ?r" using echo_loop_append [OF False] assms(2) by simp
  with echo_loop_spec [of ?r want available, unfolded Let_def] r show ?thesis by auto
qed

section \<open>Properties\<close>

definition sample_gpu :: "int \<Rightarrow> device_data" where
  "sample_gpu c = \<lparr>d_card = Some c, d_renderD = Some (c + 128), d_devID = Some ''0000:03:00:0'',
     d_computePartitionType = Some ''spx'', d_memoryPartitionType = Some ''nps1'', d_computePartitionFixed = None,
     d_numaNode = Some 0, d_nodeId = Some 1\<rparr>"

definition sample_info :: "string \<Rightarrow> int \<Rightarrow> DeviceInfo" where
  "sample_info uuid cores = \<lparr>DI_ID = uuid, DI_Index = 0, DI_Count = 10, DI_Devmem = 16384, DI_Devcore = cores,
     DI_Type = ''amd-gpu'', DI_Numa = 0, DI_Mode = [], DI_Health = True, DI_DeviceVendor = ''amd'',
     DI_CustomInfo = [(''pciBDF'', CString ''0000:03:00.0'')]\<rparr>"

definition sample_plugin :: "string \<Rightarrow> plugin" where
  "sample_plugin mode = \<lparr>AMDGPUs = [(''0000:03:00.0'', sample_gpu 0)], deviceCache = [sample_info ''smi-1'' 8],
     operatingMode = mode, cdiSpecDir = [], amdSMIUUIDToTopology = [(''smi-1'', ''0000:03:00.0'')],
     amdSMIUUIDToROCrUUID = [(''smi-1'', ''GPU-1'')], rocrUUIDToTopology = [], sortedBDFs = [''0000:03:00.0''],
     bdfToROCrUUID = [(''0000:03:00.0'', ''GPU-1'')], sysfsRoot = [], dmemEnabled = False, hipLogLevel = 0,
     dmemCgroupRoot = ''/sys/fs/cgroup'', libcheckEnabled = False, splitCount = 0, memoryScaling = 1\<rparr>"

text \<open>C14: every soft id the plugin lists to kubelet for a GPU resolves back to that GPU: the id
  resolution of Allocate returns the topology entry whose key the id was made from, unless the very
  same text is also published as a UUID.\<close>

theorem kubelet_ids_resolve:
  assumes "map_of (AMDGPUs p) key = Some d" and "CHR ''#'' \<notin> set key" and "hardPartitionType p d = []"
    and "kid \<in> set (kubeletIDs p fs key d)"
    and "map_of (amdSMIUUIDToTopology p) kid = None" and "map_of (rocrUUIDToTopology p) kid = None"
  shows "deviceDataFromAllocationUUID p fs kid = Inr d"
  using assms soft_id_resolves [OF assms(1,2)] by (auto simp: kubeletIDs_soft [OF assms(3)])

theorem kubelet_ids_resolve_witness:
  "deviceDataFromAllocationUUID (sample_plugin ''cu'') (\<lambda>_. None) ''0000:03:00.0#3'' = Inr (sample_gpu 0)"
proof (rule kubelet_ids_resolve [where key = "''0000:03:00.0''"])
  have "Itoa 3 = ''3''" by (simp add: Itoa_def digits_of.simps [of 3] digit_char_def char_of_def bit_Suc bit_0)
  moreover have "nat (splitCountFor (splitCount (sample_plugin ''cu'')) (\<lambda>_. None) (kfdNodesDir (sample_plugin ''cu''))
      (int_of (d_nodeId (sample_gpu 0)))) = 10"
    by (simp add: splitCountFor_def node_property_def ParseTopologyProperties_def sample_plugin_def)
  moreover have hard: "hardPartitionType (sample_plugin ''cu'') (sample_gpu 0) = []"
    by (simp add: hardPartitionType_def sample_plugin_def)
  ultimately show "''0000:03:00.0#3'' \<in> set (kubeletIDs (sample_plugin ''cu'') (\<lambda>_. None) ''0000:03:00.0'' (sample_gpu 0))"
    by (auto simp: kubeletIDs_soft [OF hard] intro!: exI [of _ 3])
  show "hardPartitionType (sample_plugin ''cu'') (sample_gpu 0) = []" by (rule hard)
qed (simp_all add: sample_plugin_def)

text \<open>In partition mode the only id listed to kubelet for a partitionable GPU does not resolve: it
  is the key with its partition type, the resolution strips that suffix and then finds neither a UUID
  nor a slot part in the bare key, so Allocate cannot serve it as the whole GPU it stands for.\<close>

theorem hard_kubelet_id_unresolved:
  assumes "map_of (AMDGPUs p) key = Some d" and "key \<noteq> []" and "CHR ''#'' \<notin> set key"
    and "\<not> Contains key ''AMDGPU-''" and "IsPartitionMode (hardPartitionType p d)"
    and "map_of (amdSMIUUIDToTopology p) key = None" and "map_of (rocrUUIDToTopology p) key = None"
  shows "\<exists>kid. kubeletIDs p fs key d = [kid] \<and> deviceDataFromAllocationUUID p fs kid = Inl (NoTopologyEntry key)"
proof -
  have "hardPartitionType p d \<noteq> []" using assms(5) by (auto simp: IsPartitionMode_def)
  then show ?thesis
    using hard_id_unresolved [OF assms(2,3,5,4,6,7)] by (simp add: kubeletIDs_hard)
qed

theorem hard_kubelet_id_unresolved_witness:
  "\<exists>kid. kubeletIDs (sample_plugin ''partition'') (\<lambda>_. None) ''0000:03:00.0'' (sample_gpu 0) = [kid]
    \<and> deviceDataFromAllocationUUID (sample_plugin ''partition'') (\<lambda>_. None) kid = Inl (NoTopologyEntry ''0000:03:00.0'')"
  by (rule hard_kubelet_id_unresolved)
    (simp_all add: sample_plugin_def sample_gpu_def hardPartitionType_def IsPartitionMode_def HasPrefix_def)

text \<open>Kubelet never sees an id twice: whatever the map order, the operating mode and the resource,
  the devices listed for it have pairwise different ids.\<close>

theorem kubelet_ids_distinct:
  assumes "kubeletDevices p fs gpus homogeneous resource = Some devs"
    and "distinct (map fst gpus)" and "\<forall>k \<in> set (map fst gpus). CHR ''#'' \<notin> set k"
  shows "distinct (map KID devs)"
  using assms devices_by_type_distinct devicesForResource_ids
  by (auto simp: kubeletDevices_def split: option.splits)

theorem kubelet_ids_distinct_witness:
  "\<exists>devs. kubeletDevices (sample_plugin ''partition'') (\<lambda>_. None) [(''a'', sample_gpu 0), (''b'', sample_gpu 1)] True [] = Some devs
    \<and> distinct (map KID devs) \<and> length devs = 2"
proof -
  let ?gpus = "[(''a'', sample_gpu 0), (''b'', sample_gpu 1)]"
  have "\<exists>devs. kubeletDevices (sample_plugin ''partition'') (\<lambda>_. None) ?gpus True [] = Some devs \<and> length devs = 2"
    by (simp add: kubeletDevices_def sample_plugin_def sample_gpu_def isSchedulableTopologyKey_def
        is_xcp_def HasPrefix_def xcpParents_def device_entry_def kubeletIDs_def hardPartitionType_def
        devicesForResource_def)
  then obtain devs where d: "kubeletDevices (sample_plugin ''partition'') (\<lambda>_. None) ?gpus True [] = Some devs"
    "length devs = 2" by blast
  from kubelet_ids_distinct [OF d(1)] d show ?thesis by simp
qed

text \<open>A heartbeat marks exactly the devices of GPUs that are gone or whose DRM card cannot be
  opened, all slots of a GPU alike, and never marks a device healthy.\<close>

theorem markNonFunctional_per_gpu:
  "markNonFunctional p functional devs =
     map (\<lambda>d. d\<lparr>KHealthy := KHealthy d \<and> gpu_functional (AMDGPUs p) functional (before_hash (KID d))\<rparr>) devs"
  by (auto simp: markNonFunctional_def mark_loop_eq)

text \<open>When the allocator fails, kubelet gets ids of its own back: at most the requested number, none
  twice, the must-include ids before any other, and exactly the requested number whenever there are
  that many different ids.\<close>

theorem echoPreferred_spec:
  assumes "echoPreferred available must want = Some ids"
  shows "distinct ids \<and> set ids \<subseteq> set must \<union> set available
    \<and> int (length ids) = min want (int (card (set must \<union> set available)))
    \<and> (set ids \<subseteq> set must \<or> set must \<subseteq> set ids)"
proof -
  have want: "0 \<le> want" and ids: "ids = echo_loop want (must @ available) []"
    using assms by (simp_all add: echoPreferred_def split: if_splits)
  note all = echo_loop_spec [of "[]" want "must @ available", unfolded Let_def, simplified, folded ids, OF want]
  have "card (set ids) \<le> card (set must \<union> set available)"
    using all by (intro card_mono) auto
  moreover have "card (set ids) = length ids" using all by (simp add: distinct_card)
  moreover have "set ids \<subseteq> set must \<or> set must \<subseteq> set ids"
    using echo_must_first [OF want ids] .
  ultimately show ?thesis using all by (auto simp: min_def)
qed

theorem echoPreferred_spec_witness:
  "\<exists>ids. echoPreferred [''a'', ''b'', ''c''] [''b''] 2 = Some ids \<and> distinct ids \<and> length ids = 2"
proof -
  have r: "echoPreferred [''a'', ''b'', ''c''] [''b''] 2 = Some [''b'', ''a'']"
    by (simp add: echoPreferred_def)
  from echoPreferred_spec [OF r] r show ?thesis by auto
qed

end
