(* ===== verification/Occupancy.thy ===== *)
theory Occupancy
  imports IdList Json DeviceIds
begin

text \<open>
  The occupancy of the GPUs' compute units, rebuilt from the annotations of the pods on the node
  (\<open>parseCuAllocation\<close>, \<open>buildCUAllocations\<close>, \<open>rebuildCUAllocations\<close>, \<open>validateNodeLockOwner\<close>
  and \<open>hasPersistedCUAllocation\<close> of \<open>internal/pkg/plugin/plugin.go\<close>). The main lemma says when
  the rebuild succeeds: when every annotation decodes and no two pods hold the same CU of a
  GPU; its result is then the union of what the pods hold.
\<close>

section \<open>Definitions\<close>

datatype occ_error =
    OccEmpty
  | OccJson string
  | OccNoEntries
  | OccEmptyKey
  | OccLookup string dev_error
  | OccIdList string id_error
  | OccPod string occ_error
  | OccInit string cu_error
  | OccOverlap string nat string string
  | OccAdd string cu_error
  | OccPanic
  | OccList api_error

text \<open>A read of an absent annotation is the empty string.\<close>

definition annotation :: "annotations \<Rightarrow> string \<Rightarrow> string" where
  "annotation annos k = (case map_of annos k of None \<Rightarrow> [] | Some v \<Rightarrow> v)"

fun parse_entries ::
  "plugin \<Rightarrow> (string \<times> string) list \<Rightarrow> (string \<times> allocation) list \<Rightarrow> (occ_error, (string \<times> allocation) list) result" where
  "parse_entries p [] out = Inr out"
| "parse_entries p ((uuid, idList) # m) out =
     (if uuid = [] then Inl OccEmptyKey
      else case getDeviceTotalCUs p uuid of
        Inl e \<Rightarrow> Inl (OccLookup uuid e)
      | Inr totalCUs \<Rightarrow>
          (case idListToAllocation idList totalCUs of
             Inl e \<Rightarrow> Inl (OccIdList uuid e)
           | Inr alloc \<Rightarrow> parse_entries p m (assoc_update uuid alloc out)))"

definition parseCuAllocation :: "plugin \<Rightarrow> annotations \<Rightarrow> (occ_error, (string \<times> allocation) list) result" where
  "parseCuAllocation p annos =
     (let raw = TrimSpace (annotation annos CuAllocationKey) in
      if raw = [] then Inl OccEmpty
      else case json_unmarshal raw of
        None \<Rightarrow> Inl (OccJson raw)
      | Some m \<Rightarrow> if length m = 0 then Inl OccNoEntries else parse_entries p m [])"

type_synonym occupancy = "(string \<times> allocation) list \<times> (string \<times> string list) list"

text \<open>The loop that looks for a CU set in both bitmaps; an index past a slice panics.\<close>

fun overlap_scan :: "string \<Rightarrow> string \<Rightarrow> allocation \<Rightarrow> allocation \<Rightarrow> string list \<Rightarrow> nat list \<Rightarrow> (occ_error, unit) result" where
  "overlap_scan uuid podKey alloc current owners [] = Inr ()"
| "overlap_scan uuid podKey alloc current owners (cu # js) =
     (case isSet alloc cu of
        None \<Rightarrow> Inl OccPanic
      | Some False \<Rightarrow> overlap_scan uuid podKey alloc current owners js
      | Some True \<Rightarrow>
          (case isSet current cu of
             None \<Rightarrow> Inl OccPanic
           | Some False \<Rightarrow> overlap_scan uuid podKey alloc current owners js
           | Some True \<Rightarrow>
               if cu < length owners then Inl (OccOverlap uuid cu (owners ! cu) podKey) else Inl OccPanic))"

text \<open>The loop that records the pod as owner of its CUs.\<close>

fun own_scan :: "string \<Rightarrow> allocation \<Rightarrow> nat list \<Rightarrow> string list \<Rightarrow> string list option" where
  "own_scan podKey alloc [] owners = Some owners"
| "own_scan podKey alloc (cu # js) owners =
     (case isSet alloc cu of
        None \<Rightarrow> None
      | Some False \<Rightarrow> own_scan podKey alloc js owners
      | Some True \<Rightarrow>
          if cu < length owners then own_scan podKey alloc js (owners[cu := podKey]) else None)"

definition init_device :: "string \<Rightarrow> int \<Rightarrow> occupancy \<Rightarrow> (occ_error, occupancy) result" where
  "init_device uuid totalCUs st =
     (case map_of (fst st) uuid of
        Some _ \<Rightarrow> Inr st
      | None \<Rightarrow>
          (case NewAllocation totalCUs of
             Inl e \<Rightarrow> Inl (OccInit uuid e)
           | Inr new \<Rightarrow>
               Inr (assoc_update uuid new (fst st), assoc_update uuid (replicate (nat totalCUs) []) (snd st))))"

definition merge_device ::
  "string \<Rightarrow> string \<Rightarrow> int \<Rightarrow> allocation \<Rightarrow> allocation \<Rightarrow> string list \<Rightarrow> (occ_error, allocation \<times> string list) result" where
  "merge_device podKey uuid totalCUs alloc current owners =
     (case overlap_scan uuid podKey alloc current owners [0..<nat totalCUs] of
        Inl e \<Rightarrow> Inl e
      | Inr _ \<Rightarrow>
          (case AddAllocation current totalCUs alloc of
             (_, Some e) \<Rightarrow> Inl (OccAdd uuid e)
           | (updated, None) \<Rightarrow>
               (case own_scan podKey alloc [0..<nat totalCUs] owners of
                  None \<Rightarrow> Inl OccPanic
                | Some owners' \<Rightarrow> Inr (updated, owners'))))"

text \<open>One iteration of the loop over the devices of a pod.\<close>

definition add_device :: "plugin \<Rightarrow> string \<Rightarrow> string \<Rightarrow> allocation \<Rightarrow> occupancy \<Rightarrow> (occ_error, occupancy) result" where
  "add_device p podKey uuid alloc st =
     (case getDeviceTotalCUs p uuid of
        Inl e \<Rightarrow> Inl (OccPod podKey (OccLookup uuid e))
      | Inr totalCUs \<Rightarrow>
          bind_result (init_device uuid totalCUs st) (\<lambda>st1.
            case (map_of (fst st1) uuid, map_of (snd st1) uuid) of
              (Some current, Some owners) \<Rightarrow>
                bind_result (merge_device podKey uuid totalCUs alloc current owners) (\<lambda>(updated, owners').
                  Inr (assoc_update uuid updated (fst st1), assoc_update uuid owners' (snd st1)))
            | _ \<Rightarrow> Inl OccPanic))"

fun add_devices ::
  "plugin \<Rightarrow> string \<Rightarrow> (string \<times> allocation) list \<Rightarrow> occupancy \<Rightarrow> (occ_error, occupancy) result" where
  "add_devices p podKey [] st = Inr st"
| "add_devices p podKey ((uuid, alloc) # m) st =
     bind_result (add_device p podKey uuid alloc st) (add_devices p podKey m)"

definition has_cus :: "Pod \<Rightarrow> bool" where
  "has_cus pod \<longleftrightarrow> \<not> IsPodInTerminatedState pod \<and> TrimSpace (annotation (PAnnotations pod) CuAllocationKey) \<noteq> []"

definition pod_key :: "Pod \<Rightarrow> string" where
  "pod_key pod = PNamespace pod @ ''/'' @ PName pod"

fun add_pods :: "plugin \<Rightarrow> Pod list \<Rightarrow> occupancy \<Rightarrow> (occ_error, occupancy) result" where
  "add_pods p [] st = Inr st"
| "add_pods p (pod # pods) st =
     (if \<not> has_cus pod then add_pods p pods st
      else case parseCuAllocation p (PAnnotations pod) of
             Inl e \<Rightarrow> Inl (OccPod (pod_key pod) e)
           | Inr allocations \<Rightarrow> bind_result (add_devices p (pod_key pod) allocations st) (add_pods p pods))"

definition buildCUAllocations :: "plugin \<Rightarrow> Pod list \<Rightarrow> (occ_error, (string \<times> allocation) list) result" where
  "buildCUAllocations p pods = bind_result (add_pods p pods ([], [])) (\<lambda>st. Inr (fst st))"

definition rebuildCUAllocations ::
  "plugin \<Rightarrow> 'w api \<Rightarrow> string \<Rightarrow> ('w, occ_error, (string \<times> allocation) list) io" where
  "rebuildCUAllocations p api nodeName =
     bind_io (try_io (listPods api nodeName) (lift_io OccList)) (\<lambda>pods. lift_io id (buildCUAllocations p pods))"

datatype lock_error =
    LockGetNode api_error
  | LockMissing
  | LockParse kube_error
  | LockOwner string string

definition validateNodeLockOwner :: "'w api \<Rightarrow> string \<Rightarrow> Pod \<Rightarrow> ('w, lock_error, unit) io" where
  "validateNodeLockOwner api nodeName pod =
     bind_io (try_io (getNode api nodeName) (lift_io LockGetNode)) (\<lambda>node.
       case map_of (NAnnotations node) NodeLockKey of
         None \<Rightarrow> throw_io LockMissing
       | Some lockValue \<Rightarrow>
           (case ParseNodeLock lockValue of
              Inl e \<Rightarrow> throw_io (LockParse e)
            | Inr (_, ns, name) \<Rightarrow>
                if ns \<noteq> PNamespace pod \<or> name \<noteq> PName pod then throw_io (LockOwner ns name)
                else return_io ()))"

definition hasPersistedCUAllocation :: "'w api \<Rightarrow> Pod \<Rightarrow> string \<Rightarrow> ('w, api_error, bool) io" where
  "hasPersistedCUAllocation api pod expected =
     bind_io (getPod api (PNamespace pod) (PName pod)) (\<lambda>refreshed.
       return_io (annotation (PAnnotations refreshed) CuAllocationKey = expected))"

section \<open>The CUs a map of bitmaps holds\<close>

definition used_of :: "(string \<times> allocation) list \<Rightarrow> string \<Rightarrow> nat set" where
  "used_of m uuid = (case map_of m uuid of None \<Rightarrow> {} | Some a \<Rightarrow> cus a)"

text \<open>What a pod holds, as far as its annotation can be decoded.\<close>

definition held :: "plugin \<Rightarrow> Pod \<Rightarrow> string \<Rightarrow> nat set" where
  "held p pod uuid =
     (if has_cus pod
      then (case parseCuAllocation p (PAnnotations pod) of Inl _ \<Rightarrow> {} | Inr m \<Rightarrow> used_of m uuid)
      else {})"

text \<open>Every bitmap of a map is valid for the CU count the plugin has registered.\<close>

definition wf_map :: "plugin \<Rightarrow> (string \<times> allocation) list \<Rightarrow> bool" where
  "wf_map p m \<longleftrightarrow> (\<forall>uuid a. map_of m uuid = Some a \<longrightarrow>
     (\<exists>t. getDeviceTotalCUs p uuid = Inr t \<and> wf_bitmap t a))"

definition wf_occupancy :: "plugin \<Rightarrow> occupancy \<Rightarrow> bool" where
  "wf_occupancy p st \<longleftrightarrow> wf_map p (fst st) \<and>
     (\<forall>uuid t. map_of (fst st) uuid \<noteq> None \<longrightarrow> getDeviceTotalCUs p uuid = Inr t \<longrightarrow>
       (\<exists>os. map_of (snd st) uuid = Some os \<and> length os = nat t))"

lemma used_of_simps [simp]:
  "used_of [] uuid = {}"
  "used_of (assoc_update u a m) uuid = (if u = uuid then cus a else used_of m uuid)"
  by (simp_all add: used_of_def map_of_assoc_update)

lemma wf_map_update:
  "wf_map p m \<Longrightarrow> getDeviceTotalCUs p uuid = Inr t \<Longrightarrow> wf_bitmap t a \<Longrightarrow> wf_map p (assoc_update uuid a m)"
  by (auto simp: wf_map_def map_of_assoc_update)

lemma wf_map_Nil [simp]: "wf_map p []"
  by (simp add: wf_map_def)

lemma getDeviceTotalCUs_pos: "getDeviceTotalCUs p uuid = Inr t \<Longrightarrow> 0 < t"
  by (auto simp: getDeviceTotalCUs_def split: option.splits if_splits)

lemma parse_entries_wf:
  "parse_entries p m out = Inr out' \<Longrightarrow> wf_map p out \<Longrightarrow> distinct (map fst out) \<Longrightarrow>
   wf_map p out' \<and> distinct (map fst out')"
proof (induction p m out rule: parse_entries.induct)
  case (2 p uuid idList m out)
  then show ?case
    by (auto simp: distinct_update idListToAllocation_wf wf_map_update split: if_splits sum.splits)
qed simp

lemma parseCuAllocation_wf:
  "parseCuAllocation p annos = Inr m \<Longrightarrow> wf_map p m \<and> distinct (map fst m)"
  using parse_entries_wf [of p _ "[]" m]
  by (auto simp: parseCuAllocation_def Let_def split: if_splits option.splits)

section \<open>Adding one device\<close>

lemma wf_isSet: "wf_bitmap t a \<Longrightarrow> i < nat t \<Longrightarrow> isSet a i = Some (i \<in> cus a)"
  using wordsFor_covers [of i t] by (simp add: isSet_iff wf_bitmap_def)

lemma overlap_scan_spec:
  assumes "wf_bitmap t a" "wf_bitmap t c" "length owners = nat t" "\<forall>i \<in> set js. i < nat t"
  shows "overlap_scan uuid podKey a c owners js =
    (case find (\<lambda>i. i \<in> cus a \<and> i \<in> cus c) js of
       None \<Rightarrow> Inr () | Some i \<Rightarrow> Inl (OccOverlap uuid i (owners ! i) podKey))"
  using assms(4)
  by (induction js) (auto simp: wf_isSet [OF assms(1)] wf_isSet [OF assms(2)] assms(3) split: bool.split)

lemma own_scan_spec:
  assumes "wf_bitmap t a" "\<forall>i \<in> set js. i < nat t"
  shows "length owners = nat t \<Longrightarrow> \<exists>os. own_scan podKey a js owners = Some os \<and> length os = nat t"
  using assms(2) by (induction js arbitrary: owners) (auto simp: wf_isSet [OF assms(1)] split: bool.split)

lemma merge_device_spec:
  assumes "wf_bitmap t a" "wf_bitmap t c" "length owners = nat t"
  shows "if cus c \<inter> cus a = {}
    then \<exists>u os. merge_device podKey uuid t a c owners = Inr (u, os) \<and> wf_bitmap t u
      \<and> cus u = cus c \<union> cus a \<and> length os = nat t
    else \<exists>i. i \<in> cus c \<inter> cus a \<and> merge_device podKey uuid t a c owners = Inl (OccOverlap uuid i (owners ! i) podKey)"
proof (cases "cus c \<inter> cus a = {}")
  case True
  then have none: "find (\<lambda>i. i \<in> cus a \<and> i \<in> cus c) [0..<nat t] = None"
    by (auto simp: find_None_iff)
  obtain u where u: "AddAllocation c t a = (u, None)" "wf_bitmap t u" "cus u = cus c \<union> cus a"
    using cu.add_ok [OF assms(2,1) True] by blast
  obtain os where "own_scan podKey a [0..<nat t] owners = Some os" "length os = nat t"
    using own_scan_spec [OF assms(1) _ assms(3), of "[0..<nat t]"] by auto
  with u none True overlap_scan_spec [OF assms, of "[0..<nat t]"] show ?thesis
    by (simp add: merge_device_def)
next
  case False
  have "find (\<lambda>i. i \<in> cus a \<and> i \<in> cus c) [0..<nat t] \<noteq> None"
    using False cu.used_bound [OF assms(1)] by (auto simp: find_None_iff)
  then obtain i where i: "find (\<lambda>i. i \<in> cus a \<and> i \<in> cus c) [0..<nat t] = Some i" by blast
  then have "i \<in> cus c \<inter> cus a" by (auto simp: find_Some_iff)
  with i False overlap_scan_spec [OF assms, of "[0..<nat t]"] show ?thesis
    by (auto simp: merge_device_def)
qed

lemma init_device_spec:
  assumes "wf_occupancy p st" "getDeviceTotalCUs p uuid = Inr t"
  shows "\<exists>st1 c os. init_device uuid t st = Inr st1 \<and> wf_occupancy p st1
    \<and> map_of (fst st1) uuid = Some c \<and> map_of (snd st1) uuid = Some os \<and> wf_bitmap t c \<and> length os = nat t
    \<and> used_of (fst st1) = used_of (fst st) \<and> cus c = used_of (fst st) uuid
    \<and> dom (map_of (fst st1)) = insert uuid (dom (map_of (fst st)))"
proof (cases "map_of (fst st) uuid")
  case (Some c)
  moreover obtain os where "map_of (snd st) uuid = Some os" "length os = nat t"
    using assms Some by (auto simp: wf_occupancy_def)
  moreover have "\<exists>t'. getDeviceTotalCUs p uuid = Inr t' \<and> wf_bitmap t' c"
    using assms(1) Some by (simp add: wf_occupancy_def wf_map_def)
  then have "wf_bitmap t c" using assms(2) by simp
  ultimately show ?thesis
    using assms by (auto simp: init_device_def used_of_def)
next
  case None
  obtain c where c: "NewAllocation t = Inr c" "wf_bitmap t c" "cus c = {}"
    using cu.new_ok [OF getDeviceTotalCUs_pos [OF assms(2)]] by blast
  let ?st = "(assoc_update uuid c (fst st), assoc_update uuid (replicate (nat t) []) (snd st))"
  have "wf_occupancy p ?st"
    using assms c wf_map_update [of p "fst st" uuid t c]
    by (auto simp: wf_occupancy_def map_of_assoc_update)
  moreover have "used_of (fst ?st) = used_of (fst st)"
    using None c by (auto simp: used_of_def fun_eq_iff map_of_assoc_update)
  ultimately show ?thesis
    using None c by (intro exI [of _ ?st] exI [of _ c])
      (auto simp: init_device_def map_of_assoc_update used_of_def)
qed

lemma add_device_spec:
  assumes "wf_occupancy p st" "getDeviceTotalCUs p uuid = Inr t" "wf_bitmap t a"
  shows "if used_of (fst st) uuid \<inter> cus a = {}
    then \<exists>st'. add_device p podKey uuid a st = Inr st' \<and> wf_occupancy p st'
      \<and> used_of (fst st') = (used_of (fst st))(uuid := used_of (fst st) uuid \<union> cus a)
      \<and> dom (map_of (fst st')) = insert uuid (dom (map_of (fst st)))
    else \<exists>i o'. i \<in> used_of (fst st) uuid \<inter> cus a \<and> add_device p podKey uuid a st = Inl (OccOverlap uuid i o' podKey)"
proof -
  obtain st1 c os where i: "init_device uuid t st = Inr st1" "wf_occupancy p st1"
    "map_of (fst st1) uuid = Some c" "map_of (snd st1) uuid = Some os" "wf_bitmap t c" "length os = nat t"
    "used_of (fst st1) = used_of (fst st)" "cus c = used_of (fst st) uuid"
    "dom (map_of (fst st1)) = insert uuid (dom (map_of (fst st)))"
    using init_device_spec [OF assms(1,2)] by blast
  have step: "add_device p podKey uuid a st = bind_result (merge_device podKey uuid t a c os)
      (\<lambda>(updated, owners'). Inr (assoc_update uuid updated (fst st1), assoc_update uuid owners' (snd st1)))"
    using assms(2) i by (simp add: add_device_def)
  show ?thesis
  proof (cases "cus c \<inter> cus a = {}")
    case True
    then obtain u os' where m: "merge_device podKey uuid t a c os = Inr (u, os')" "wf_bitmap t u"
      "cus u = cus c \<union> cus a" "length os' = nat t"
      using merge_device_spec [OF assms(3) i(5,6), of podKey uuid] by auto
    let ?st = "(assoc_update uuid u (fst st1), assoc_update uuid os' (snd st1))"
    have "wf_occupancy p ?st"
      using i(2) m assms(2) wf_map_update [of p "fst st1" uuid t u]
      by (auto simp: wf_occupancy_def map_of_assoc_update)
    moreover have "used_of (fst ?st) = (used_of (fst st))(uuid := used_of (fst st) uuid \<union> cus a)"
      using i(7,8) m(3) by (auto simp: fun_eq_iff)
    moreover have "dom (map_of (fst ?st)) = insert uuid (dom (map_of (fst st)))"
      using i(9) by (simp add: map_of_assoc_update)
    ultimately show ?thesis using True step m(1) i(8) by auto
  next
    case False
    with merge_device_spec [OF assms(3) i(5,6), of podKey uuid] step i(8) show ?thesis by auto
  qed
qed

section \<open>Adding the devices of a pod\<close>

definition disjoint_maps :: "(string \<Rightarrow> nat set) \<Rightarrow> (string \<Rightarrow> nat set) \<Rightarrow> bool" where
  "disjoint_maps f g \<longleftrightarrow> (\<forall>uuid. f uuid \<inter> g uuid = {})"

fun is_overlap :: "occ_error \<Rightarrow> bool" where
  "is_overlap (OccOverlap uuid i o' podKey) \<longleftrightarrow> True"
| "is_overlap _ \<longleftrightarrow> False"

lemma used_of_Cons:
  "uuid \<notin> fst ` set m \<Longrightarrow> used_of ((uuid, a) # m) = (used_of m)(uuid := cus a)"
  by (auto simp: used_of_def fun_eq_iff)

lemma used_of_absent: "uuid \<notin> fst ` set m \<Longrightarrow> used_of m uuid = {}"
  by (auto simp: used_of_def split: option.split dest: map_of_SomeD)
     (metis fst_conv image_eqI map_of_SomeD)

lemma wf_map_Cons:
  "uuid \<notin> fst ` set m \<Longrightarrow> wf_map p ((uuid, a) # m) \<longleftrightarrow>
    (\<exists>t. getDeviceTotalCUs p uuid = Inr t \<and> wf_bitmap t a) \<and> wf_map p m"
  by (auto simp: wf_map_def split: if_splits) (metis fst_conv image_eqI map_of_SomeD)

lemma add_devices_spec:
  assumes "wf_occupancy p st" "wf_map p m" "distinct (map fst m)"
  shows "if disjoint_maps (used_of (fst st)) (used_of m)
    then \<exists>st'. add_devices p podKey m st = Inr st' \<and> wf_occupancy p st'
      \<and> used_of (fst st') = (\<lambda>uuid. used_of (fst st) uuid \<union> used_of m uuid)
      \<and> dom (map_of (fst st')) = dom (map_of (fst st)) \<union> fst ` set m
    else \<exists>e. add_devices p podKey m st = Inl e \<and> is_overlap e"
  using assms
proof (induction m arbitrary: st)
  case Nil
  then show ?case by (simp add: disjoint_maps_def)
next
  case (Cons e m)
  obtain uuid a where e: "e = (uuid, a)" by (cases e)
  with Cons.prems have new: "uuid \<notin> fst ` set m" by auto
  from Cons.prems(2) obtain t where t: "getDeviceTotalCUs p uuid = Inr t" "wf_bitmap t a" "wf_map p m"
    by (auto simp: e wf_map_Cons [OF new])
  have split: "disjoint_maps (used_of (fst st)) (used_of (e # m)) \<longleftrightarrow>
      used_of (fst st) uuid \<inter> cus a = {} \<and> disjoint_maps (used_of (fst st)) (used_of m)"
    using used_of_absent [OF new] by (auto simp: disjoint_maps_def e used_of_Cons [OF new])
  show ?case
  proof (cases "used_of (fst st) uuid \<inter> cus a = {}")
    case True
    then obtain st1 where st1: "add_device p podKey uuid a st = Inr st1" "wf_occupancy p st1"
      "used_of (fst st1) = (used_of (fst st))(uuid := used_of (fst st) uuid \<union> cus a)"
      "dom (map_of (fst st1)) = insert uuid (dom (map_of (fst st)))"
      using add_device_spec [OF Cons.prems(1) t(1,2), of podKey] by auto
    have dis: "disjoint_maps (used_of (fst st1)) (used_of m) \<longleftrightarrow> disjoint_maps (used_of (fst st)) (used_of m)"
      using used_of_absent [OF new] by (auto simp: disjoint_maps_def st1(3))
    have eq: "(\<lambda>u. used_of (fst st1) u \<union> used_of m u) = (\<lambda>u. used_of (fst st) u \<union> used_of (e # m) u)"
      using used_of_absent [OF new] by (auto simp: fun_eq_iff e used_of_Cons [OF new] st1(3))
    have ih: "if disjoint_maps (used_of (fst st1)) (used_of m)
      then \<exists>st'. add_devices p podKey m st1 = Inr st' \<and> wf_occupancy p st'
        \<and> used_of (fst st') = (\<lambda>uuid. used_of (fst st1) uuid \<union> used_of m uuid)
        \<and> dom (map_of (fst st')) = dom (map_of (fst st1)) \<union> fst ` set m
      else \<exists>e. add_devices p podKey m st1 = Inl e \<and> is_overlap e"
      using Cons.IH [OF st1(2) t(3)] Cons.prems(3) by simp
    show ?thesis
      unfolding split using True ih by (auto simp: e st1(1,4) dis eq [unfolded e])
  next
    case False
    then obtain i o' where "add_device p podKey uuid a st = Inl (OccOverlap uuid i o' podKey)"
      using add_device_spec [OF Cons.prems(1) t(1,2), of podKey] by auto
    with False show ?thesis unfolding split by (simp add: e)
  qed
qed

section \<open>Adding the pods\<close>

definition decodes :: "plugin \<Rightarrow> Pod \<Rightarrow> bool" where
  "decodes p pod \<longleftrightarrow> (has_cus pod \<longrightarrow> (\<exists>m. parseCuAllocation p (PAnnotations pod) = Inr m))"

text \<open>No CU of a GPU is held by two of the pods.\<close>

fun pairwise_disjoint :: "plugin \<Rightarrow> Pod list \<Rightarrow> bool" where
  "pairwise_disjoint p [] \<longleftrightarrow> True"
| "pairwise_disjoint p (pod # pods) \<longleftrightarrow>
     (\<forall>q \<in> set pods. disjoint_maps (held p pod) (held p q)) \<and> pairwise_disjoint p pods"

definition held_by :: "plugin \<Rightarrow> Pod list \<Rightarrow> string \<Rightarrow> nat set" where
  "held_by p pods uuid = (\<Union>pod \<in> set pods. held p pod uuid)"

lemma held_by_simps [simp]:
  "held_by p [] = (\<lambda>_. {})"
  "held_by p (pod # pods) = (\<lambda>uuid. held p pod uuid \<union> held_by p pods uuid)"
  by (auto simp: held_by_def fun_eq_iff)

lemma disjoint_held_by:
  "disjoint_maps f (held_by p pods) \<longleftrightarrow> (\<forall>q \<in> set pods. disjoint_maps f (held p q))"
  by (auto simp: disjoint_maps_def held_by_def)

lemma add_pods_ok:
  assumes "wf_occupancy p st" "\<forall>pod \<in> set pods. decodes p pod" "pairwise_disjoint p pods"
    and "disjoint_maps (used_of (fst st)) (held_by p pods)"
  shows "\<exists>st'. add_pods p pods st = Inr st' \<and> wf_occupancy p st'
    \<and> used_of (fst st') = (\<lambda>uuid. used_of (fst st) uuid \<union> held_by p pods uuid)"
  using assms
proof (induction pods arbitrary: st)
  case (Cons pod pods)
  show ?case
  proof (cases "has_cus pod")
    case False
    with Cons show ?thesis by (simp add: held_def)
  next
    case True
    then obtain m where m: "parseCuAllocation p (PAnnotations pod) = Inr m"
      using Cons.prems(2) by (auto simp: decodes_def)
    have held: "held p pod = used_of m" using True m by (simp add: held_def fun_eq_iff)
    have "disjoint_maps (used_of (fst st)) (used_of m)"
      using Cons.prems(4) held by (auto simp: disjoint_maps_def)
    then obtain st1 where st1: "add_devices p (pod_key pod) m st = Inr st1" "wf_occupancy p st1"
      "used_of (fst st1) = (\<lambda>uuid. used_of (fst st) uuid \<union> used_of m uuid)"
      using add_devices_spec [OF Cons.prems(1), of m "pod_key pod"] parseCuAllocation_wf [OF m] by auto
    have "disjoint_maps (used_of (fst st1)) (held_by p pods)"
      using Cons.prems(3,4) held
      by (auto simp: st1(3) disjoint_held_by [symmetric]) (auto simp: disjoint_maps_def)
    with Cons.IH [OF st1(2)] Cons.prems obtain st' where
      "add_pods p pods st1 = Inr st'" "wf_occupancy p st'"
      "used_of (fst st') = (\<lambda>uuid. used_of (fst st1) uuid \<union> held_by p pods uuid)" by auto
    with True m st1 held show ?thesis by (auto simp: fun_eq_iff)
  qed
qed (simp add: wf_occupancy_def)

lemma add_pods_Inr:
  assumes "add_pods p pods st = Inr st'" "wf_occupancy p st"
  shows "wf_occupancy p st' \<and> (\<forall>pod \<in> set pods. decodes p pod) \<and> pairwise_disjoint p pods
    \<and> disjoint_maps (used_of (fst st)) (held_by p pods)
    \<and> used_of (fst st') = (\<lambda>uuid. used_of (fst st) uuid \<union> held_by p pods uuid)"
  using assms
proof (induction pods arbitrary: st)
  case Nil
  then show ?case by (simp add: disjoint_maps_def)
next
  case (Cons pod pods)
  show ?case
  proof (cases "has_cus pod")
    case False
    have "held p pod = (\<lambda>_. {})" using False by (simp add: held_def fun_eq_iff)
    with Cons False show ?thesis by (simp add: decodes_def disjoint_maps_def)
  next
    case True
    with Cons.prems obtain m where m: "parseCuAllocation p (PAnnotations pod) = Inr m"
      by (auto split: sum.splits)
    have held: "held p pod = used_of m" using True m by (simp add: held_def fun_eq_iff)
    from Cons.prems True m obtain st1 where
      st1: "add_devices p (pod_key pod) m st = Inr st1" "add_pods p pods st1 = Inr st'"
      by (auto simp: bind_result_Inr_iff)
    from add_devices_spec [OF Cons.prems(2), of m "pod_key pod"] parseCuAllocation_wf [OF m] st1(1)
    have d: "disjoint_maps (used_of (fst st)) (used_of m)" "wf_occupancy p st1"
      "used_of (fst st1) = (\<lambda>uuid. used_of (fst st) uuid \<union> used_of m uuid)"
      by (auto split: if_splits)
    from Cons.IH [OF st1(2) d(2)] have ih: "wf_occupancy p st'" "\<forall>pod \<in> set pods. decodes p pod"
      "pairwise_disjoint p pods" "disjoint_maps (used_of (fst st1)) (held_by p pods)"
      "used_of (fst st') = (\<lambda>uuid. used_of (fst st1) uuid \<union> held_by p pods uuid)" by simp_all
    have dis: "disjoint_maps (held p pod) (held_by p pods)"
      "disjoint_maps (used_of (fst st)) (held_by p (pod # pods))"
      using ih(4) d(1,3) held by (auto simp: disjoint_maps_def)
    have "decodes p pod" using m by (simp add: decodes_def)
    moreover have "used_of (fst st') = (\<lambda>uuid. used_of (fst st) uuid \<union> held_by p (pod # pods) uuid)"
      using ih(5) d(3) held by auto
    ultimately show ?thesis
      using ih(1-3) dis by (simp add: disjoint_held_by)
  qed
qed

fun panics :: "occ_error \<Rightarrow> bool" where
  "panics OccPanic \<longleftrightarrow> True"
| "panics (OccPod podKey e) \<longleftrightarrow> panics e"
| "panics (OccIdList uuid e) \<longleftrightarrow> e = IdIndexPanic"
| "panics _ \<longleftrightarrow> False"

lemma parse_entries_no_panic: "parse_entries p m out = Inl e \<Longrightarrow> \<not> panics e"
  by (induction p m out rule: parse_entries.induct)
     (auto simp: idListToAllocation_no_panic split: if_splits sum.splits)

lemma parseCuAllocation_no_panic: "parseCuAllocation p annos = Inl e \<Longrightarrow> \<not> panics e"
  using parse_entries_no_panic by (auto simp: parseCuAllocation_def Let_def split: if_splits option.splits)

lemma add_pods_no_panic:
  assumes "add_pods p pods st = Inl e" "wf_occupancy p st"
  shows "\<not> panics e"
  using assms
proof (induction pods arbitrary: st)
  case (Cons pod pods)
  show ?case
  proof (cases "has_cus pod")
    case True
    show ?thesis
    proof (cases "parseCuAllocation p (PAnnotations pod)")
      case (Inl e')
      with True Cons.prems parseCuAllocation_no_panic [OF Inl] show ?thesis by auto
    next
      case (Inr m)
      from add_devices_spec [OF Cons.prems(2), of m "pod_key pod"] parseCuAllocation_wf [OF Inr]
      have "(\<exists>st1. add_devices p (pod_key pod) m st = Inr st1 \<and> wf_occupancy p st1)
        \<or> (\<exists>e. add_devices p (pod_key pod) m st = Inl e \<and> is_overlap e)"
        by (auto split: if_splits)
      moreover have "is_overlap e \<Longrightarrow> \<not> panics e" for e by (cases e) auto
      ultimately show ?thesis using Cons True Inr by auto
    qed
  qed (use Cons in simp)
qed simp


section \<open>Properties\<close>

text \<open>C6: the rebuild of the CU occupancy succeeds exactly when every annotation of a running pod
  decodes and no CU of a GPU is held by two of them: it fails closed on an overlap and on nothing else.\<close>

theorem occupancy_rebuild_iff:
  "(\<exists>res. buildCUAllocations p pods = Inr res) \<longleftrightarrow>
     (\<forall>pod \<in> set pods. decodes p pod) \<and> pairwise_disjoint p pods"
proof
  have wf: "wf_occupancy p ([], [])" by (simp add: wf_occupancy_def)
  {
    assume "\<exists>res. buildCUAllocations p pods = Inr res"
    then obtain st where "add_pods p pods ([], []) = Inr st"
      by (auto simp: buildCUAllocations_def bind_result_Inr_iff)
    from add_pods_Inr [OF this wf] show "(\<forall>pod \<in> set pods. decodes p pod) \<and> pairwise_disjoint p pods" by simp
  next
    assume "(\<forall>pod \<in> set pods. decodes p pod) \<and> pairwise_disjoint p pods"
    then obtain st where "add_pods p pods ([], []) = Inr st"
      using add_pods_ok [OF wf, of pods] by (auto simp: disjoint_maps_def)
    then show "\<exists>res. buildCUAllocations p pods = Inr res" by (simp add: buildCUAllocations_def)
  }
qed

definition cu_pod :: "string \<Rightarrow> string \<Rightarrow> Pod" where
  "cu_pod name idList = sample_pod name [(CuAllocationKey, ''{\"smi-1\":\"'' @ idList @ ''\"}'')]"

lemma cu_pod_eval:
  "has_cus (cu_pod name ''0-3'')" "has_cus (cu_pod name ''2,5'')" "has_cus (cu_pod name ''4-5'')"
  "parseCuAllocation (sample_plugin mode) (PAnnotations (cu_pod name ''0-3'')) = Inr [(''smi-1'', [0b1111])]"
  "parseCuAllocation (sample_plugin mode) (PAnnotations (cu_pod name ''2,5'')) = Inr [(''smi-1'', [0b100100])]"
  "parseCuAllocation (sample_plugin mode) (PAnnotations (cu_pod name ''4-5'')) = Inr [(''smi-1'', [0b110000])]"
proof -
  have ids: "idListToAllocation ''0-3'' 8 = Inr [0b1111]" "idListToAllocation ''2,5'' 8 = Inr [0b100100]"
    "idListToAllocation ''4-5'' 8 = Inr [0b110000]"
    by (simp_all add: idlist_eval)
  have cus: "getDeviceTotalCUs (sample_plugin mode) ''smi-1'' = Inr 8"
    by (simp add: getDeviceTotalCUs_def lookupDevice_def cached_for_def sample_plugin_def sample_info_def)
  show "has_cus (cu_pod name ''0-3'')" "has_cus (cu_pod name ''2,5'')" "has_cus (cu_pod name ''4-5'')"
    "parseCuAllocation (sample_plugin mode) (PAnnotations (cu_pod name ''0-3'')) = Inr [(''smi-1'', [0b1111])]"
    "parseCuAllocation (sample_plugin mode) (PAnnotations (cu_pod name ''2,5'')) = Inr [(''smi-1'', [0b100100])]"
    "parseCuAllocation (sample_plugin mode) (PAnnotations (cu_pod name ''4-5'')) = Inr [(''smi-1'', [0b110000])]"
    by (simp_all add: has_cus_def IsPodInTerminatedState_def cu_pod_def sample_pod_def annotation_def
        parseCuAllocation_def json_eval ids cus)
qed

theorem occupancy_rebuild_iff_witness:
  "(\<exists>res. buildCUAllocations (sample_plugin ''cu'') [cu_pod ''a'' ''0-3'', cu_pod ''b'' ''4-5''] = Inr res)
   \<and> \<not> (\<exists>res. buildCUAllocations (sample_plugin ''cu'') [cu_pod ''a'' ''0-3'', cu_pod ''b'' ''2,5''] = Inr res)"
proof -
  have bits: "cus [0b1111] \<inter> cus [0b110000] = {}" "2 \<in> cus [0b1111]" "2 \<in> cus [0b100100]"
  proof -
    have "(0b1111 :: 64 word) AND 0b110000 = 0" by simp
    then have "\<not> (bit (0b1111 :: 64 word) j \<and> bit (0b110000 :: 64 word) j)" for j
      by (metis bit_0_eq bit_and_iff bot_apply bot_bool_def)
    then show "cus [0b1111] \<inter> cus [0b110000] = {}" by (auto simp: cus_def)
    show "2 \<in> cus [0b1111]" "2 \<in> cus [0b100100]"
      by (simp_all add: cus_def bit_numeral_rec)
  qed
  show ?thesis
    unfolding occupancy_rebuild_iff
    using bits by (auto simp: decodes_def cu_pod_eval held_def used_of_def disjoint_maps_def)
qed

text \<open>C7: what the rebuild returns is exactly what the running pods hold: for every GPU the bitmap is
  valid for its CU count and its CUs are the union of the CUs of the pods' annotations.\<close>

theorem occupancy_is_union:
  assumes "buildCUAllocations p pods = Inr res"
  shows "wf_map p res \<and> used_of res = held_by p pods"
proof -
  from assms obtain st where st: "add_pods p pods ([], []) = Inr st" "res = fst st"
    by (auto simp: buildCUAllocations_def bind_result_Inr_iff)
  have "wf_occupancy p ([], [])" by (simp add: wf_occupancy_def)
  from add_pods_Inr [OF st(1) this] st(2) show ?thesis by (auto simp: wf_occupancy_def fun_eq_iff)
qed

theorem occupancy_is_union_witness:
  "\<exists>res. buildCUAllocations (sample_plugin ''cu'') [cu_pod ''a'' ''0-3''] = Inr res
    \<and> used_of res ''smi-1'' = cus [0b1111]"
proof -
  have "\<exists>res. buildCUAllocations (sample_plugin ''cu'') [cu_pod ''a'' ''0-3''] = Inr res"
    using add_pods_ok [of "sample_plugin ''cu''" "([], [])" "[cu_pod ''a'' ''0-3'']"]
    by (auto simp: buildCUAllocations_def wf_occupancy_def decodes_def cu_pod_eval disjoint_maps_def)
  then obtain res where res: "buildCUAllocations (sample_plugin ''cu'') [cu_pod ''a'' ''0-3''] = Inr res" ..
  have "used_of res ''smi-1'' = cus [0b1111]"
    using occupancy_is_union [OF res] by (simp add: held_def cu_pod_eval used_of_def)
  with res show ?thesis by blast
qed

text \<open>No annotation, however it was written, makes the rebuild panic: every read of a bitmap and of
  the owner table is in range.\<close>

theorem occupancy_no_panic:
  assumes "buildCUAllocations p pods = Inl e"
  shows "\<not> panics e"
proof -
  have "wf_occupancy p ([], [])" by (simp add: wf_occupancy_def)
  then show ?thesis
    using assms add_pods_no_panic [of p pods "([], [])" e]
    by (auto simp: buildCUAllocations_def bind_result_Inl_iff)
qed

theorem occupancy_no_panic_witness:
  "\<exists>e. buildCUAllocations (sample_plugin ''cu'') [sample_pod ''p'' [(CuAllocationKey, ''{}'')]] = Inl e \<and> \<not> panics e"
proof -
  have e: "buildCUAllocations (sample_plugin ''cu'') [sample_pod ''p'' [(CuAllocationKey, ''{}'')]]
      = Inl (OccPod (pod_key (sample_pod ''p'' [(CuAllocationKey, ''{}'')])) OccNoEntries)"
    by (simp add: buildCUAllocations_def has_cus_def IsPodInTerminatedState_def sample_pod_def annotation_def
        parseCuAllocation_def json_eval)
  from occupancy_no_panic [OF e] e show ?thesis by blast
qed

end
