(* ===== verification/Allocate.thy ===== *)
theory Allocate
  imports Occupancy
begin

text \<open>
  \<open>Allocate\<close> of \<open>internal/pkg/plugin/plugin.go\<close>: the kubelet call that hands GPUs and compute
  units to the containers of a pod. It is cut where the Go function is cut: the pending pod, the
  existing annotation, the rebuilt occupancy, then per container the device request, the loop over
  the device nodes, the loop over the CUs, the environment and the hook, and at the end the commit
  of the CU annotation and the release of the node lock. Every error after the pending pod is known
  runs \<open>PodAllocationFailed\<close> first; a panic (\<open>APanic\<close>, a write to a nil map) does not.

  The host is a parameter: the API server, the inspection of a container image
  (\<open>Inspect\<close> and \<open>AuditCompatible\<close> of \<open>internal/pkg/libcheck\<close>), and the start of a goroutine
  that applies a device memory cap. The files of sysfs and of the cgroup tree are the parameter
  \<open>fs\<close>, the environment variables are arguments.
\<close>

section \<open>Host, requests and responses\<close>

record cap_task =
  CapNamespace :: string
  CapName :: string
  CapUID :: string
  CapQos :: string
  CapDevice :: ContainerDevice

record 'w host =
  hostApi :: "'w api"
  inspectImage :: "string \<Rightarrow> ('w, string, bool) io"
  goApplyDmemCap :: "cap_task \<Rightarrow> 'w \<Rightarrow> 'w"

record container_response =
  Envs :: "(string \<times> string) list"
  Devices :: "string list"
  Mounts :: "(string \<times> string) list"
  CdiDevices :: "string list"

datatype alloc_error =
    AGetPod kube_error
  | AParseExisting string
  | ARebuild occ_error
  | AErase kube_error
  | ADevice dev_error
  | ABadMinor string
  | ANewAllocation cu_error
  | AAllocateN string cu_error
  | ADecodeExisting string id_error
  | AMerge string cu_error
  | AInspect string string
  | ARefused string
  | ALock lock_error
  | APatch kube_error "api_error option"
  | APanic

definition emptyPod :: Pod where
  "emptyPod = \<lparr>PNamespace = [], PName = [], PUID = [], PAnnotations = [], Phase = [], QOSClass = [],
     InitContainers = [], Containers = []\<rparr>"

definition emptyContainer :: Container where
  "emptyContainer = \<lparr>CName = [], Image = []\<rparr>"

text \<open>\<open>utils.PodAllocationFailed(...); return err\<close>.\<close>

definition fail_pod :: "'w host \<Rightarrow> string \<Rightarrow> Pod \<Rightarrow> alloc_error \<Rightarrow> ('w, alloc_error, 'a) io" where
  "fail_pod h nodename current e =
     (if e = APanic then throw_io APanic
      else bind_io (PodAllocationFailed (hostApi h) nodename current) (\<lambda>_. throw_io e))"

definition or_fail :: "'w host \<Rightarrow> string \<Rightarrow> Pod \<Rightarrow> (alloc_error, 'a) result \<Rightarrow> ('w, alloc_error, 'a) io" where
  "or_fail h nodename current r =
     (case r of Inl e \<Rightarrow> fail_pod h nodename current e | Inr x \<Rightarrow> return_io x)"

section \<open>The pod\<close>

definition current_pod :: "'w host \<Rightarrow> string \<Rightarrow> ('w, alloc_error, Pod \<times> bool) io" where
  "current_pod h nodename =
     try_io (GetPendingPod (hostApi h) nodename) (\<lambda>r.
       case r of
         Inr pod \<Rightarrow> return_io (pod, True)
       | Inl (KNoPendingPod _) \<Rightarrow> return_io (emptyPod, False)
       | Inl e \<Rightarrow> throw_io (AGetPod e))"

text \<open>\<open>podCuAllocList\<close>; \<open>None\<close> is the nil map that decoding \<open>null\<close> leaves.\<close>

definition existing_list :: "Pod \<Rightarrow> (alloc_error, (string \<times> string) list option) result" where
  "existing_list current =
     (let raw = TrimSpace (annotation (PAnnotations current) CuAllocationKey) in
      if raw = [] then Inr (Some [])
      else case json_unmarshal raw of
        None \<Rightarrow> Inl (AParseExisting raw)
      | Some m \<Rightarrow> Inr (if json_null raw then None else Some m))"

definition fallback_request :: "string list \<Rightarrow> ContainerDevices" where
  "fallback_request ids = map (\<lambda>d. \<lparr>UUID = d, DType = ''AMDGPU'', Usedmem = 0, Usedcores = 0\<rparr>) ids"

definition device_request ::
  "'w host \<Rightarrow> string \<Rightarrow> Pod \<Rightarrow> string list \<Rightarrow> ('w, alloc_error, Container \<times> ContainerDevices) io" where
  "device_request h nodename current ids =
     (case GetNextDeviceRequest ''amd'' current of
        Inl _ \<Rightarrow> return_io (emptyContainer, fallback_request ids)
      | Inr (ctr, devreq) \<Rightarrow>
          if length devreq \<noteq> length ids then return_io (ctr, fallback_request ids)
          else try_io (EraseNextDeviceTypeFromAnnotation (hostApi h) ''amd'' current) (\<lambda>r.
            case r of
              Inl e \<Rightarrow> fail_pod h nodename current (AErase e)
            | Inr _ \<Rightarrow> return_io (ctr, devreq)))"

section \<open>Device nodes\<close>

definition cdiKind :: string where "cdiKind = ''amd.com/gpu''"

definition cdiDeviceName :: "int \<Rightarrow> string" where
  "cdiDeviceName cardMinor = cdiKind @ ''=card'' @ Itoa cardMinor"

record device_nodes =
  NRocr :: string
  NRender :: int
  NPaths :: "string list"
  NCdi :: "string list"

definition device_nodes_of :: "plugin \<Rightarrow> files \<Rightarrow> ContainerDevice \<Rightarrow> (alloc_error, device_nodes) result" where
  "device_nodes_of p fs d =
     (case deviceDataFromAllocationUUID p fs (UUID d) of
        Inl e \<Rightarrow> Inl (ADevice e)
      | Inr data \<Rightarrow>
          (case (d_card data, d_renderD data) of
             (Some cardMinor, Some renderMinor) \<Rightarrow>
               (case rocrUUIDFromAllocationUUID p fs (UUID d) of
                  Inl e \<Rightarrow> Inl (ADevice e)
                | Inr rocr \<Rightarrow>
                    Inr (if cdiSpecDir p \<noteq> []
                         then \<lparr>NRocr = rocr, NRender = renderMinor, NPaths = [], NCdi = [cdiDeviceName cardMinor]\<rparr>
                         else \<lparr>NRocr = rocr, NRender = renderMinor,
                                NPaths = [''/dev/dri/card'' @ Itoa cardMinor, ''/dev/dri/renderD'' @ Itoa renderMinor],
                                NCdi = []\<rparr>))
           | _ \<Rightarrow> Inl (ABadMinor (UUID d))))"

section \<open>Compute units\<close>

text \<open>The occupancy, the pod's own list, \<open>slicedCU\<close> and the entries of \<open>HSA_CU_MASK\<close> so far.\<close>

record cu_state =
  Snapshot :: "(string \<times> allocation) list"
  PodList :: "(string \<times> string) list option"
  SlicedCU :: bool
  HsaSets :: "string list"

definition base_allocation :: "string \<Rightarrow> int \<Rightarrow> cu_state \<Rightarrow> (alloc_error, allocation \<times> cu_state) result" where
  "base_allocation uuid totalCUs s =
     (case map_of (Snapshot s) uuid of
        Some b \<Rightarrow> Inr (b, s)
      | None \<Rightarrow>
          (case NewAllocation totalCUs of
             Inl e \<Rightarrow> Inl (ANewAllocation e)
           | Inr b \<Rightarrow> Inr (b, s\<lparr>Snapshot := assoc_update uuid b (Snapshot s)\<rparr>)))"

text \<open>The pod's list with the new CUs of a device merged in.\<close>

definition pod_list_text ::
  "(string \<times> string) list option \<Rightarrow> string \<Rightarrow> int \<Rightarrow> allocation \<Rightarrow> (alloc_error, string) result" where
  "pod_list_text pcu uuid totalCUs delta =
     (case (case pcu of None \<Rightarrow> None | Some m \<Rightarrow> map_of m uuid) of
        Some oldList \<Rightarrow>
          if TrimSpace oldList \<noteq> [] then
            (case idListToAllocation oldList totalCUs of
               Inl e \<Rightarrow> Inl (ADecodeExisting uuid e)
             | Inr old \<Rightarrow>
                 (case AddAllocation old totalCUs delta of
                    (_, Some e) \<Rightarrow> Inl (AMerge uuid e)
                  | (merged, None) \<Rightarrow> Inr (allocationToIDList merged totalCUs)))
          else Inr (allocationToIDList delta totalCUs)
      | None \<Rightarrow> Inr (allocationToIDList delta totalCUs))"

text \<open>The exclusive case of one device: \<open>cores\<close> CUs in whole units.\<close>

definition take_cus ::
  "plugin \<Rightarrow> files \<Rightarrow> nat \<Rightarrow> ContainerDevice \<Rightarrow> int \<Rightarrow> int \<Rightarrow> allocation \<Rightarrow> cu_state \<Rightarrow> (alloc_error, cu_state) result" where
  "take_cus p fs i d totalCUs cores base s =
     (case AllocateN base totalCUs cores (cuMaskUnit p fs (UUID d) (kfdNodesDir p)) of
        (_, Inl e) \<Rightarrow> Inl (AAllocateN (UUID d) e)
      | (base', Inr delta) \<Rightarrow>
          (case pod_list_text (PodList s) (UUID d) totalCUs delta of
             Inl e \<Rightarrow> Inl e
           | Inr txt \<Rightarrow>
               (case PodList s of
                  None \<Rightarrow> Inl APanic
                | Some m \<Rightarrow>
                    Inr \<lparr>Snapshot = assoc_update (UUID d) base' (Snapshot s),
                         PodList = Some (assoc_update (UUID d) txt m),
                         SlicedCU = SlicedCU s \<or> \<not> isWholeGPU p [d],
                         HsaSets = HsaSets s @ [Itoa (int i) @ '':'' @ allocationToIDList delta totalCUs]\<rparr>)))"

definition cu_step :: "plugin \<Rightarrow> files \<Rightarrow> nat \<Rightarrow> ContainerDevice \<Rightarrow> cu_state \<Rightarrow> (alloc_error, cu_state) result" where
  "cu_step p fs i d s =
     (case getDeviceTotalCUs p (UUID d) of
        Inl e \<Rightarrow> Inl (ADevice e)
      | Inr totalCUs \<Rightarrow>
          (case base_allocation (UUID d) totalCUs s of
             Inl e \<Rightarrow> Inl e
           | Inr (base, s1) \<Rightarrow>
               if Usedcores d = 0 \<and> \<not> isWholeGPU p [d] then
                 Inr (s1\<lparr>SlicedCU := True,
                         HsaSets := HsaSets s1 @ [Itoa (int i) @ '':0-'' @ Itoa (totalCUs - 1)]\<rparr>)
               else take_cus p fs i d totalCUs (if Usedcores d = 0 then totalCUs else Usedcores d) base s1))"

fun cu_loop :: "plugin \<Rightarrow> files \<Rightarrow> nat \<Rightarrow> ContainerDevices \<Rightarrow> cu_state \<Rightarrow> (alloc_error, cu_state) result" where
  "cu_loop p fs i [] s = Inr s"
| "cu_loop p fs i (d # ds) s =
     (case cu_step p fs i d s of Inl e \<Rightarrow> Inl e | Inr s' \<Rightarrow> cu_loop p fs (Suc i) ds s')"

section \<open>Environment and hook\<close>

definition dmemRegion :: "plugin \<Rightarrow> files \<Rightarrow> string \<Rightarrow> string option" where
  "dmemRegion p fs uuid =
     (let root = (if dmemCgroupRoot p \<noteq> [] then dmemCgroupRoot p else DefaultCgroupRoot) in
      if \<not> Available fs root then None
      else case deviceDataFromAllocationUUID p fs uuid of
        Inl _ \<Rightarrow> None
      | Inr data \<Rightarrow>
          (case d_devID data of
             None \<Rightarrow> None
           | Some bdf \<Rightarrow> if bdf = [] then None else Region fs root (NormalizeBDF bdf)))"

definition applyDmemCap :: "plugin \<Rightarrow> files \<Rightarrow> 'w writer \<Rightarrow> cap_task \<Rightarrow> ('w, write_error, unit) io" where
  "applyDmemCap p fs write t =
     (case dmemRegion p fs (UUID (CapDevice t)) of
        None \<Rightarrow> return_io ()
      | Some region \<Rightarrow>
          SetMaxWithRetry write
            (PodCgroupPath (if dmemCgroupRoot p \<noteq> [] then dmemCgroupRoot p else DefaultCgroupRoot) (CapUID t) (CapQos t))
            region (Usedmem (CapDevice t) * 1024 * 1024))"

definition visible_envs :: "string list \<Rightarrow> device_nodes list \<Rightarrow> (string \<times> string) list" where
  "visible_envs hsaCuSets nodes =
     [(''HSA_CU_MASK'', Join hsaCuSets '';''),
      (''ROCR_VISIBLE_DEVICES'', rocrVisibleList (map NRocr nodes) (map NRender nodes)),
      (''HIP_VISIBLE_DEVICES'', Join (map (\<lambda>i. Itoa (int i)) [0..<length nodes]) '','')]"

definition hook_envs :: "plugin \<Rightarrow> ContainerDevices \<Rightarrow> (string \<times> string) list" where
  "hook_envs p devreq =
     map (\<lambda>(i, d). (''HIP_DEVICE_MEMORY_LIMIT_'' @ Itoa (int i), Itoa (Usedmem d) @ ''m'')) (enumerate 0 devreq)
     @ [(''LD_AUDIT'', ''/usr/local/vgpu/libamvgpu.so'')]
     @ (if hipLogLevel p > 0 then [(''LIBHIP_LOG_LEVEL'', Itoa (hipLogLevel p))] else [])
     @ (if memoryScaling p > 1 then [(''HIP_OVERSUBSCRIBE'', ''true'')] else [])"

text \<open>Whether the hook can be loaded; an image it cannot be loaded in is refused unless every
  device can be capped by the kernel.\<close>

definition audit_check ::
  "plugin \<Rightarrow> files \<Rightarrow> 'w host \<Rightarrow> string \<Rightarrow> Pod \<Rightarrow> Container \<Rightarrow> ContainerDevices \<Rightarrow> ('w, alloc_error, bool) io" where
  "audit_check p fs h nodename current ctr devreq =
     (if \<not> libcheckEnabled p then return_io True
      else try_io (inspectImage h (Image ctr)) (\<lambda>r.
        case r of
          Inl e \<Rightarrow> fail_pod h nodename current (AInspect (Image ctr) e)
        | Inr True \<Rightarrow> return_io True
        | Inr False \<Rightarrow>
            if dmemEnabled p \<and> list_all (\<lambda>d. dmemRegion p fs (UUID d) \<noteq> None) devreq then return_io False
            else fail_pod h nodename current (ARefused (Image ctr))))"

definition cap_tasks :: "Pod \<Rightarrow> ContainerDevices \<Rightarrow> cap_task list" where
  "cap_tasks current devreq =
     map (\<lambda>d. \<lparr>CapNamespace = PNamespace current, CapName = PName current, CapUID = PUID current,
        CapQos = QOSClass current, CapDevice = d\<rparr>) devreq"

definition start_caps :: "'w host \<Rightarrow> cap_task list \<Rightarrow> ('w, 'e, unit) io" where
  "start_caps h ts = (\<lambda>w. (Inr (), foldl (\<lambda>w t. goApplyDmemCap h t w) w ts))"

definition hook_part ::
  "plugin \<Rightarrow> files \<Rightarrow> 'w host \<Rightarrow> string \<Rightarrow> string \<Rightarrow> Pod \<times> bool \<Rightarrow> Container \<Rightarrow> ContainerDevices
     \<Rightarrow> container_response \<Rightarrow> ('w, alloc_error, container_response) io" where
  "hook_part p fs h nodename hostHookPath cur ctr devreq car =
     (if isWholeGPU p devreq then return_io car
      else bind_io (audit_check p fs h nodename (fst cur) ctr devreq) (\<lambda>auditCompatible.
        let car1 = (if auditCompatible
          then car\<lparr>Envs := Envs car @ hook_envs p devreq,
                   Mounts := Mounts car @ [(''/usr/local/vgpu/libamvgpu.so'', hostHookPath @ ''/vgpu/libamvgpu.so'')]\<rparr>
          else car)
        in if dmemEnabled p \<and> snd cur
           then bind_io (start_caps h (cap_tasks (fst cur) devreq)) (\<lambda>_. return_io car1)
           else return_io car1))"

section \<open>One container\<close>

definition container_step ::
  "plugin \<Rightarrow> files \<Rightarrow> 'w host \<Rightarrow> string \<Rightarrow> string \<Rightarrow> Pod \<times> bool \<Rightarrow> string list \<Rightarrow> cu_state
     \<Rightarrow> ('w, alloc_error, container_response \<times> cu_state) io" where
  "container_step p fs h nodename hostHookPath cur ids s =
     bind_io (device_request h nodename (fst cur) ids) (\<lambda>(ctr, devreq).
     bind_io (or_fail h nodename (fst cur) (traverse (device_nodes_of p fs) devreq)) (\<lambda>nodes.
     let car = \<lparr>Envs = [], Devices = (if cdiSpecDir p = [] then [''/dev/kfd''] else []) @ concat (map NPaths nodes),
                Mounts = [], CdiDevices = concat (map NCdi nodes)\<rparr>
     in if length devreq = 0 then return_io (car, s)
        else bind_io (or_fail h nodename (fst cur) (cu_loop p fs 0 devreq (s\<lparr>HsaSets := []\<rparr>))) (\<lambda>s'.
             bind_io (hook_part p fs h nodename hostHookPath cur ctr devreq
                        (car\<lparr>Envs := visible_envs (HsaSets s') nodes\<rparr>)) (\<lambda>car'.
             return_io (car', s')))))"

fun containers_loop ::
  "plugin \<Rightarrow> files \<Rightarrow> 'w host \<Rightarrow> string \<Rightarrow> string \<Rightarrow> Pod \<times> bool \<Rightarrow> string list list \<Rightarrow> cu_state
     \<Rightarrow> ('w, alloc_error, container_response list \<times> cu_state) io" where
  "containers_loop p fs h nodename hostHookPath cur [] s = return_io ([], s)"
| "containers_loop p fs h nodename hostHookPath cur (ids # reqs) s =
     bind_io (container_step p fs h nodename hostHookPath cur ids s) (\<lambda>(car, s').
     bind_io (containers_loop p fs h nodename hostHookPath cur reqs s') (\<lambda>(cars, s'').
     return_io (car # cars, s'')))"

section \<open>Commit and Allocate\<close>

text \<open>A patch that fails may still have been applied: the annotation is read back.\<close>

definition persist :: "'w host \<Rightarrow> string \<Rightarrow> Pod \<Rightarrow> string \<Rightarrow> ('w, alloc_error, unit) io" where
  "persist h nodename current b =
     try_io (PatchPodAnnotations (hostApi h) current [(CuAllocationKey, b)]) (\<lambda>r.
       case r of
         Inr _ \<Rightarrow> return_io ()
       | Inl e \<Rightarrow>
           try_io (hasPersistedCUAllocation (hostApi h) current b) (\<lambda>r2.
             case r2 of
               Inr True \<Rightarrow> return_io ()
             | Inr False \<Rightarrow> fail_pod h nodename current (APatch e None)
             | Inl e2 \<Rightarrow> fail_pod h nodename current (APatch e (Some e2))))"

definition commit :: "'w host \<Rightarrow> string \<Rightarrow> Pod \<Rightarrow> cu_state \<Rightarrow> ('w, alloc_error, unit) io" where
  "commit h nodename current s =
     (case PodList s of
        None \<Rightarrow> return_io ()
      | Some m \<Rightarrow>
          if length m > 0 \<and> SlicedCU s then
            try_io (validateNodeLockOwner (hostApi h) nodename current) (\<lambda>r.
              case r of
                Inl e \<Rightarrow> fail_pod h nodename current (ALock e)
              | Inr _ \<Rightarrow> persist h nodename current (json_marshal m))
          else return_io ())"

definition Allocate ::
  "plugin \<Rightarrow> files \<Rightarrow> 'w host \<Rightarrow> string \<Rightarrow> string \<Rightarrow> string list list \<Rightarrow> ('w, alloc_error, container_response list) io" where
  "Allocate p fs h nodename hostHookPath reqs =
     bind_io (current_pod h nodename) (\<lambda>cur.
     bind_io (or_fail h nodename (fst cur) (existing_list (fst cur))) (\<lambda>pcu.
     bind_io (try_io (rebuildCUAllocations p (hostApi h) nodename) (\<lambda>r.
                case r of Inl e \<Rightarrow> fail_pod h nodename (fst cur) (ARebuild e) | Inr x \<Rightarrow> return_io x)) (\<lambda>snapshot.
     bind_io (containers_loop p fs h nodename hostHookPath cur reqs
                \<lparr>Snapshot = snapshot, PodList = pcu, SlicedCU = False, HsaSets = []\<rparr>) (\<lambda>(cars, s).
     bind_io (commit h nodename (fst cur) s) (\<lambda>_.
     bind_io (if snd cur then PodAllocationTrySuccess (hostApi h) nodename (fst cur) else return_io ()) (\<lambda>_.
     return_io cars))))))"

section \<open>Two faults\<close>

text \<open>The request of every container is read from the pod fetched at the start: two containers that ask for as many
  devices as the first slot holds are both served that slot, whatever was erased on the server in between.\<close>

theorem containers_served_same_slot:
  assumes "GetNextDeviceRequest ''amd'' current = Inr (ctr, devreq)" "length ids1 = length devreq" "length ids2 = length devreq"
    and "device_request h nodename current ids1 w1 = (Inr r1, w1')" "device_request h nodename current ids2 w2 = (Inr r2, w2')"
  shows "r1 = (ctr, devreq) \<and> r2 = (ctr, devreq)"
proof -
  have "r = (ctr, devreq)" if "length ids = length devreq" "device_request h nodename current ids w = (Inr r, w')" for ids w r w'
    using that assms(1)
    by (cases "EraseNextDeviceTypeFromAnnotation (hostApi h) ''amd'' current w" rule: prod.exhaust)
      (auto simp: device_request_def try_io_def fail_pod_def bind_io_def throw_io_def return_io_def split: sum.splits if_splits prod.splits)
  with assms show ?thesis by blast
qed

text \<open>The text \<open>null\<close> is a valid list that decodes to a nil map; writing the CUs of the pod into it panics.\<close>

theorem null_list_panics:
  assumes "TrimSpace (annotation (PAnnotations current) CuAllocationKey) = ''null''"
    and "AllocateN base totalCUs cores (cuMaskUnit p fs (UUID d) (kfdNodesDir p)) = (base', Inr delta)"
  shows "existing_list current = Inr None \<and> take_cus p fs i d totalCUs cores base (s\<lparr>PodList := None\<rparr>) = Inl APanic"
proof -
  have "json_unmarshal ''null'' \<noteq> None" "json_null ''null''" by code_simp+
  then show ?thesis using assms by (auto simp: existing_list_def take_cus_def pod_list_text_def)
qed

end
