(* ===== verification/AllocateCU.thy ===== *)
theory AllocateCU
  imports Allocate
begin

text \<open>
  The compute units \<open>Allocate\<close> hands out. The invariant \<open>cu_inv\<close> of the loops ties the three
  views of the same CUs together: the occupancy snapshot, the pod's own list (the text that
  will be committed) and what the other pods hold. Its preservation shows that the masks given
  to containers are exclusive and that committing the list leaves the node in a state the next
  rebuild accepts.
\<close>

section \<open>The CUs a list of texts stands for\<close>

text \<open>Registered devices have an id and a CU count that fits an \<open>int32\<close>.\<close>

definition cache_ok :: "plugin \<Rightarrow> bool" where
  "cache_ok p \<longleftrightarrow> (\<forall>d \<in> set (deviceCache p). DI_ID d \<noteq> [] \<and> DI_Devcore d < 2 ^ 31)"

definition used_text :: "plugin \<Rightarrow> (string \<times> string) list \<Rightarrow> string \<Rightarrow> nat set" where
  "used_text p m uuid =
     (case (map_of m uuid, getDeviceTotalCUs p uuid) of
        (Some tx, Inr t) \<Rightarrow> (case idListToAllocation tx t of Inr a \<Rightarrow> cus a | Inl _ \<Rightarrow> {})
      | _ \<Rightarrow> {})"

definition good_entry :: "plugin \<Rightarrow> string \<Rightarrow> string \<Rightarrow> bool" where
  "good_entry p uuid tx \<longleftrightarrow>
     uuid \<noteq> [] \<and> (\<exists>t a. getDeviceTotalCUs p uuid = Inr t \<and> idListToAllocation tx t = Inr a)"

definition good_list :: "plugin \<Rightarrow> (string \<times> string) list \<Rightarrow> bool" where
  "good_list p m \<longleftrightarrow> distinct (map fst m) \<and> (\<forall>(uuid, tx) \<in> set m. good_entry p uuid tx)"

lemma cache_ok_total:
  assumes "cache_ok p" "getDeviceTotalCUs p uuid = Inr t"
  shows "t < 2 ^ 63" "uuid \<noteq> []"
proof -
  from assms(2) obtain d where d: "find (cached_for uuid) (deviceCache p) = Some d" "DI_Devcore d = t"
    by (auto simp: getDeviceTotalCUs_def lookupDevice_def split: option.splits if_splits)
  then have mem: "d \<in> set (deviceCache p)" and c: "cached_for uuid d"
    by (auto simp: find_Some_iff)
  with assms(1) d(2) have "t < 2 ^ 31" "DI_ID d \<noteq> []" by (auto simp: cache_ok_def)
  then show "t < 2 ^ 63" by simp
  show "uuid \<noteq> []"
    using c \<open>DI_ID d \<noteq> []\<close> before_hash_free [of "[]"]
    by (auto simp: cached_for_def split: option.splits custom_value.splits)
qed

lemma used_text_update:
  assumes "getDeviceTotalCUs p uuid = Inr t" "idListToAllocation tx t = Inr a"
  shows "used_text p (assoc_update uuid tx m) = (used_text p m)(uuid := cus a)"
  using assms by (auto simp: used_text_def fun_eq_iff map_of_assoc_update)

lemma set_assoc_update:
  "distinct (map fst m) \<Longrightarrow> x \<in> set (assoc_update k v m) \<Longrightarrow> x = (k, v) \<or> x \<in> set m"
  by (induction m) (auto split: if_splits)

lemma good_list_update:
  assumes "good_list p m" "good_entry p uuid tx"
  shows "good_list p (assoc_update uuid tx m)"
  using assms by (fastforce simp: good_list_def distinct_update dest: set_assoc_update)

text \<open>Decoding the entries one by one.\<close>

lemma parse_entries_used:
  assumes "\<forall>(uuid, tx) \<in> set m. good_entry p uuid tx" "distinct (map fst m)"
  shows "\<exists>out'. parse_entries p m out = Inr out'
    \<and> (\<forall>uuid. used_of out' uuid = (if uuid \<in> fst ` set m then used_text p m uuid else used_of out uuid))"
  using assms
proof (induction m arbitrary: out)
  case (Cons e m)
  obtain uuid tx where e: "e = (uuid, tx)" by (cases e)
  with Cons.prems obtain t a where ta: "uuid \<noteq> []" "getDeviceTotalCUs p uuid = Inr t" "idListToAllocation tx t = Inr a"
    by (auto simp: good_entry_def)
  from Cons obtain out' where out': "parse_entries p m (assoc_update uuid a out) = Inr out'"
    "\<forall>u. used_of out' u = (if u \<in> fst ` set m then used_text p m u else used_of (assoc_update uuid a out) u)"
    by (metis (no_types, lifting) distinct.simps(2) list.set_intros(2) list.simps(9))
  have new: "uuid \<notin> fst ` set m" using Cons.prems(2) e by auto
  have "used_text p (e # m) u = (if u = uuid then cus a else used_text p m u)" for u
    using ta by (simp add: used_text_def e)
  with e ta out' new show ?case by auto
qed simp

lemma parse_entries_good:
  "parse_entries p m out = Inr out' \<Longrightarrow> \<forall>(uuid, tx) \<in> set m. good_entry p uuid tx"
  by (induction p m out rule: parse_entries.induct)
     (auto simp: good_entry_def split: if_splits sum.splits)

lemma used_text_absent: "uuid \<notin> fst ` set m \<Longrightarrow> used_text p m uuid = {}"
  by (simp add: used_text_def map_of_eq_None_iff [THEN iffD2])

lemma parse_entries_all:
  assumes "good_list p m"
  shows "\<exists>out. parse_entries p m [] = Inr out \<and> used_of out = used_text p m"
proof -
  obtain out where "parse_entries p m [] = Inr out"
    "\<forall>uuid. used_of out uuid = (if uuid \<in> fst ` set m then used_text p m uuid else used_of [] uuid)"
    using assms parse_entries_used [of m p "[]"] by (auto simp: good_list_def)
  then show ?thesis using used_text_absent [of _ m p] by (intro exI [of _ out]) (auto simp: fun_eq_iff)
qed

section \<open>One grant\<close>

definition cu_inv :: "plugin \<Rightarrow> (string \<Rightarrow> nat set) \<Rightarrow> cu_state \<Rightarrow> bool" where
  "cu_inv p others s \<longleftrightarrow> wf_map p (Snapshot s) \<and>
     (\<exists>m. PodList s = Some m \<and> good_list p m
        \<and> used_of (Snapshot s) = (\<lambda>uuid. others uuid \<union> used_text p m uuid)
        \<and> disjoint_maps others (used_text p m))"

definition exclusive :: "plugin \<Rightarrow> ContainerDevice \<Rightarrow> bool" where
  "exclusive p d \<longleftrightarrow> Usedcores d \<noteq> 0 \<or> isWholeGPU p [d]"

lemma base_allocation_spec:
  assumes "wf_map p (Snapshot s)" "getDeviceTotalCUs p uuid = Inr t" "base_allocation uuid t s = Inr (b, s1)"
  shows "wf_bitmap t b \<and> cus b = used_of (Snapshot s) uuid \<and> wf_map p (Snapshot s1)
    \<and> used_of (Snapshot s1) = used_of (Snapshot s) \<and> PodList s1 = PodList s \<and> HsaSets s1 = HsaSets s
    \<and> SlicedCU s1 = SlicedCU s"
proof (cases "map_of (Snapshot s) uuid")
  case (Some b')
  with assms have "b' = b" "s1 = s" by (simp_all add: base_allocation_def)
  moreover have "\<exists>t'. getDeviceTotalCUs p uuid = Inr t' \<and> wf_bitmap t' b'"
    using assms(1) Some by (simp add: wf_map_def)
  ultimately show ?thesis using Some assms(1,2) by (simp add: used_of_def)
next
  case None
  obtain c where c: "NewAllocation t = Inr c" "wf_bitmap t c" "cus c = {}"
    using cu.new_ok [OF getDeviceTotalCUs_pos [OF assms(2)]] by blast
  with None assms have b: "b = c" "s1 = s\<lparr>Snapshot := assoc_update uuid c (Snapshot s)\<rparr>"
    by (auto simp: base_allocation_def)
  moreover have "used_of (assoc_update uuid c (Snapshot s)) = used_of (Snapshot s)"
    using None c by (auto simp: fun_eq_iff used_of_def map_of_assoc_update)
  moreover have "used_of (Snapshot s) uuid = {}" using None by (simp add: used_of_def)
  ultimately show ?thesis using c wf_map_update [OF assms(1,2) c(2)] by simp
qed

lemma take_cus_spec:
  assumes "take_cus p fs i d t cores b s = Inr s'" "wf_bitmap t b"
  shows "\<exists>delta b' tx m. AllocateN b t cores (cuMaskUnit p fs (UUID d) (kfdNodesDir p)) = (b', Inr delta)
    \<and> wf_bitmap t b' \<and> wf_bitmap t delta \<and> cus delta \<noteq> {} \<and> cus delta \<inter> cus b = {} \<and> cus b' = cus b \<union> cus delta
    \<and> pod_list_text (PodList s) (UUID d) t delta = Inr tx \<and> PodList s = Some m
    \<and> Snapshot s' = assoc_update (UUID d) b' (Snapshot s) \<and> PodList s' = Some (assoc_update (UUID d) tx m)
    \<and> HsaSets s' = HsaSets s @ [Itoa (int i) @ '':'' @ allocationToIDList delta t]
    \<and> SlicedCU s' = (SlicedCU s \<or> \<not> isWholeGPU p [d])"
proof -
  from assms(1) obtain b' delta tx m where
    r: "AllocateN b t cores (cuMaskUnit p fs (UUID d) (kfdNodesDir p)) = (b', Inr delta)"
      "pod_list_text (PodList s) (UUID d) t delta = Inr tx" "PodList s = Some m"
      "s' = \<lparr>Snapshot = assoc_update (UUID d) b' (Snapshot s), PodList = Some (assoc_update (UUID d) tx m),
         SlicedCU = SlicedCU s \<or> \<not> isWholeGPU p [d],
         HsaSets = HsaSets s @ [Itoa (int i) @ '':'' @ allocationToIDList delta t]\<rparr>"
    by (auto simp: take_cus_def split: prod.splits sum.splits option.splits)
  from cu.alloc_ok [OF assms(2) r(1)] r show ?thesis by auto
qed

lemma pod_list_text_spec:
  assumes "cache_ok p" "good_list p m" "getDeviceTotalCUs p uuid = Inr t"
    and "wf_bitmap t delta" "cus delta \<noteq> {}" "pod_list_text (Some m) uuid t delta = Inr tx"
  shows "\<exists>a. idListToAllocation tx t = Inr a \<and> cus a = used_text p m uuid \<union> cus delta"
proof -
  have t63: "t < 2 ^ 63" by (rule cache_ok_total [OF assms(1,3)])
  have delta: "idListToAllocation (allocationToIDList delta t) t = Inr delta"
    by (rule idList_roundtrip [OF assms(4,5) t63])
  show ?thesis
  proof (cases "map_of m uuid")
    case None
    then have "used_text p m uuid = {}" by (simp add: used_text_def)
    with None delta assms(6) show ?thesis by (simp add: pod_list_text_def)
  next
    case (Some old)
    from map_of_SomeD [OF Some] assms(2) have "good_entry p uuid old" by (auto simp: good_list_def)
    with assms(3) obtain a where a: "idListToAllocation old t = Inr a" by (auto simp: good_entry_def)
    have used: "used_text p m uuid = cus a" using Some assms(3) a by (simp add: used_text_def)
    show ?thesis
    proof (cases "TrimSpace old = []")
      case True
      obtain z where z: "NewAllocation t = Inr z" "cus z = {}"
        using cu.new_ok [OF getDeviceTotalCUs_pos [OF assms(3)]] by blast
      with True a have "cus a = {}" by (simp add: idListToAllocation_def)
      with True Some used delta assms(6) show ?thesis by (simp add: pod_list_text_def)
    next
      case False
      have wf: "wf_bitmap t a" by (rule idListToAllocation_wf [OF a])
      from False Some a assms(6) obtain u where u: "AddAllocation a t delta = (u, None)" "tx = allocationToIDList u t"
        by (auto simp: pod_list_text_def split: prod.splits option.splits)
      have "cus a \<inter> cus delta = {}" using cu.add_None_iff [OF wf assms(4)] u(1) by simp
      from cu.add_ok [OF wf assms(4) this] u(1) have "wf_bitmap t u" "cus u = cus a \<union> cus delta" by auto
      moreover from this assms(5) have "idListToAllocation (allocationToIDList u t) t = Inr u"
        by (intro idList_roundtrip t63) auto
      ultimately show ?thesis using used u(2) by auto
    qed
  qed
qed

text \<open>A grant of exclusive CUs.\<close>

lemma cu_step_exclusive:
  assumes "cu_step p fs i d s = Inr s'" "exclusive p d" "wf_map p (Snapshot s)"
  shows "\<exists>t delta. getDeviceTotalCUs p (UUID d) = Inr t \<and> wf_bitmap t delta \<and> cus delta \<noteq> {}
    \<and> cus delta \<inter> used_of (Snapshot s) (UUID d) = {}
    \<and> used_of (Snapshot s') = (used_of (Snapshot s))(UUID d := used_of (Snapshot s) (UUID d) \<union> cus delta)
    \<and> wf_map p (Snapshot s')
    \<and> HsaSets s' = HsaSets s @ [Itoa (int i) @ '':'' @ allocationToIDList delta t]
    \<and> (\<exists>tx m. pod_list_text (PodList s) (UUID d) t delta = Inr tx \<and> PodList s = Some m
         \<and> PodList s' = Some (assoc_update (UUID d) tx m))"
proof -
  from assms(1,2) obtain t b s1 where tb: "getDeviceTotalCUs p (UUID d) = Inr t" "base_allocation (UUID d) t s = Inr (b, s1)"
    "take_cus p fs i d t (if Usedcores d = 0 then t else Usedcores d) b s1 = Inr s'"
    by (auto simp: cu_step_def exclusive_def split: sum.splits prod.splits if_splits)
  from base_allocation_spec [OF assms(3) tb(1,2)] have b: "wf_bitmap t b" "cus b = used_of (Snapshot s) (UUID d)"
    "wf_map p (Snapshot s1)" "used_of (Snapshot s1) = used_of (Snapshot s)" "PodList s1 = PodList s" "HsaSets s1 = HsaSets s"
    by simp_all
  from take_cus_spec [OF tb(3) b(1)] obtain delta b' tx m where
    g: "wf_bitmap t b'" "wf_bitmap t delta" "cus delta \<noteq> {}" "cus delta \<inter> cus b = {}" "cus b' = cus b \<union> cus delta"
      "pod_list_text (PodList s1) (UUID d) t delta = Inr tx" "PodList s1 = Some m"
      "Snapshot s' = assoc_update (UUID d) b' (Snapshot s1)" "PodList s' = Some (assoc_update (UUID d) tx m)"
      "HsaSets s' = HsaSets s1 @ [Itoa (int i) @ '':'' @ allocationToIDList delta t]"
    by blast
  have "used_of (Snapshot s') = (used_of (Snapshot s))(UUID d := used_of (Snapshot s) (UUID d) \<union> cus delta)"
    using g(5,8) b(2,4) by (auto simp: fun_eq_iff)
  moreover have "wf_map p (Snapshot s')"
    using wf_map_update [OF b(3) tb(1) g(1)] g(8) by simp
  ultimately show ?thesis using tb(1) g b by auto
qed

text \<open>A memory-only slice takes no CU.\<close>

lemma cu_step_shared:
  assumes "cu_step p fs i d s = Inr s'" "\<not> exclusive p d" "wf_map p (Snapshot s)"
  shows "\<exists>t. getDeviceTotalCUs p (UUID d) = Inr t \<and> used_of (Snapshot s') = used_of (Snapshot s)
    \<and> wf_map p (Snapshot s') \<and> PodList s' = PodList s
    \<and> HsaSets s' = HsaSets s @ [Itoa (int i) @ '':0-'' @ Itoa (t - 1)]"
proof -
  from assms(1,2) obtain t b s1 where tb: "getDeviceTotalCUs p (UUID d) = Inr t" "base_allocation (UUID d) t s = Inr (b, s1)"
    "s' = s1\<lparr>SlicedCU := True, HsaSets := HsaSets s1 @ [Itoa (int i) @ '':0-'' @ Itoa (t - 1)]\<rparr>"
    by (auto simp: cu_step_def exclusive_def split: sum.splits prod.splits if_splits)
  with base_allocation_spec [OF assms(3) tb(1,2)] show ?thesis by simp
qed

lemma cu_step_inv:
  assumes "cu_step p fs i d s = Inr s'" "cu_inv p others s" "cache_ok p"
  shows "cu_inv p others s'"
proof -
  from assms(2) obtain m where m: "wf_map p (Snapshot s)" "PodList s = Some m" "good_list p m"
    "used_of (Snapshot s) = (\<lambda>uuid. others uuid \<union> used_text p m uuid)" "disjoint_maps others (used_text p m)"
    by (auto simp: cu_inv_def)
  show ?thesis
  proof (cases "exclusive p d")
    case False
    with cu_step_shared [OF assms(1) False m(1)] m show ?thesis by (auto simp: cu_inv_def)
  next
    case True
    from cu_step_exclusive [OF assms(1) True m(1)] m(2) obtain t delta tx where
      g: "getDeviceTotalCUs p (UUID d) = Inr t" "wf_bitmap t delta" "cus delta \<noteq> {}"
        "cus delta \<inter> used_of (Snapshot s) (UUID d) = {}"
        "used_of (Snapshot s') = (used_of (Snapshot s))(UUID d := used_of (Snapshot s) (UUID d) \<union> cus delta)"
        "wf_map p (Snapshot s')" "pod_list_text (Some m) (UUID d) t delta = Inr tx"
        "PodList s' = Some (assoc_update (UUID d) tx m)"
      by auto
    obtain a where a: "idListToAllocation tx t = Inr a" "cus a = used_text p m (UUID d) \<union> cus delta"
      using pod_list_text_spec [OF assms(3) m(3) g(1-3,7)] by blast
    have ut: "used_text p (assoc_update (UUID d) tx m) = (used_text p m)(UUID d := used_text p m (UUID d) \<union> cus delta)"
      using used_text_update [OF g(1) a(1)] a(2) by simp
    have "good_entry p (UUID d) tx"
      using cache_ok_total(2) [OF assms(3) g(1)] g(1) a(1) by (auto simp: good_entry_def)
    then have "good_list p (assoc_update (UUID d) tx m)" using good_list_update m(3) by blast
    moreover have "used_of (Snapshot s') = (\<lambda>uuid. others uuid \<union> used_text p (assoc_update (UUID d) tx m) uuid)"
      unfolding g(5) ut m(4) by (auto simp: fun_eq_iff)
    moreover have "disjoint_maps others (used_text p (assoc_update (UUID d) tx m))"
      using m(4,5) g(4) by (auto simp: ut disjoint_maps_def)
    ultimately show ?thesis using g(6,8) by (simp add: cu_inv_def)
  qed
qed

lemma cu_loop_inv:
  "cu_loop p fs i ds s = Inr s' \<Longrightarrow> cu_inv p others s \<Longrightarrow> cache_ok p \<Longrightarrow> cu_inv p others s'"
  by (induction p fs i ds s rule: cu_loop.induct) (auto split: sum.splits dest: cu_step_inv)


section \<open>All grants of a container\<close>

text \<open>The entry of \<open>HSA_CU_MASK\<close> for the \<open>i\<close>-th device: its own CUs, or all CUs for a memory-only slice.\<close>

definition mask_entry :: "plugin \<Rightarrow> nat \<Rightarrow> ContainerDevice \<Rightarrow> allocation option \<Rightarrow> string \<Rightarrow> bool" where
  "mask_entry p i d g entry \<longleftrightarrow> (\<exists>t. getDeviceTotalCUs p (UUID d) = Inr t \<and>
     (case g of
        Some delta \<Rightarrow> exclusive p d \<and> wf_bitmap t delta \<and> cus delta \<noteq> {}
          \<and> entry = Itoa (int i) @ '':'' @ allocationToIDList delta t
      | None \<Rightarrow> \<not> exclusive p d \<and> entry = Itoa (int i) @ '':0-'' @ Itoa (t - 1)))"

definition grant_cus :: "allocation option \<Rightarrow> nat set" where
  "grant_cus g = (case g of None \<Rightarrow> {} | Some delta \<Rightarrow> cus delta)"

fun granted :: "ContainerDevices \<Rightarrow> allocation option list \<Rightarrow> string \<Rightarrow> nat set" where
  "granted (d # ds) (g # gs) uuid = (if UUID d = uuid then grant_cus g else {}) \<union> granted ds gs uuid"
| "granted _ _ uuid = {}"

text \<open>Grants of one GPU are disjoint from what was used before and from each other.\<close>

fun fresh_grants :: "(string \<Rightarrow> nat set) \<Rightarrow> ContainerDevices \<Rightarrow> allocation option list \<Rightarrow> bool" where
  "fresh_grants used (d # ds) (g # gs) \<longleftrightarrow>
     grant_cus g \<inter> used (UUID d) = {} \<and> fresh_grants (used(UUID d := used (UUID d) \<union> grant_cus g)) ds gs"
| "fresh_grants used _ _ \<longleftrightarrow> True"

lemma cu_step_grant:
  assumes "cu_step p fs i d s = Inr s'" "wf_map p (Snapshot s)"
  shows "\<exists>g entry. mask_entry p i d g entry \<and> HsaSets s' = HsaSets s @ [entry]
    \<and> grant_cus g \<inter> used_of (Snapshot s) (UUID d) = {}
    \<and> used_of (Snapshot s') = (used_of (Snapshot s))(UUID d := used_of (Snapshot s) (UUID d) \<union> grant_cus g)
    \<and> wf_map p (Snapshot s')"
proof (cases "exclusive p d")
  case True
  from cu_step_exclusive [OF assms(1) True assms(2)] obtain t delta where
    g: "getDeviceTotalCUs p (UUID d) = Inr t" "wf_bitmap t delta" "cus delta \<noteq> {}"
      "cus delta \<inter> used_of (Snapshot s) (UUID d) = {}"
      "used_of (Snapshot s') = (used_of (Snapshot s))(UUID d := used_of (Snapshot s) (UUID d) \<union> cus delta)"
      "wf_map p (Snapshot s')" "HsaSets s' = HsaSets s @ [Itoa (int i) @ '':'' @ allocationToIDList delta t]"
    by blast
  then have "mask_entry p i d (Some delta) (Itoa (int i) @ '':'' @ allocationToIDList delta t)"
    using True by (simp add: mask_entry_def)
  with g show ?thesis by (intro exI [of _ "Some delta"] exI [of _ "Itoa (int i) @ '':'' @ allocationToIDList delta t"])
      (simp add: grant_cus_def)
next
  case False
  from cu_step_shared [OF assms(1) False assms(2)] obtain t where
    g: "getDeviceTotalCUs p (UUID d) = Inr t" "used_of (Snapshot s') = used_of (Snapshot s)"
      "wf_map p (Snapshot s')" "HsaSets s' = HsaSets s @ [Itoa (int i) @ '':0-'' @ Itoa (t - 1)]"
    by blast
  then have "mask_entry p i d None (Itoa (int i) @ '':0-'' @ Itoa (t - 1))"
    using False by (simp add: mask_entry_def)
  with g show ?thesis by (intro exI [of _ None] exI [of _ "Itoa (int i) @ '':0-'' @ Itoa (t - 1)"])
      (simp add: grant_cus_def)
qed

lemma cu_loop_grants:
  assumes "cu_loop p fs i ds s = Inr s'" "wf_map p (Snapshot s)"
  shows "\<exists>gs entries. length gs = length ds \<and> length entries = length ds
    \<and> (\<forall>k < length ds. mask_entry p (i + k) (ds ! k) (gs ! k) (entries ! k))
    \<and> HsaSets s' = HsaSets s @ entries \<and> fresh_grants (used_of (Snapshot s)) ds gs
    \<and> used_of (Snapshot s') = (\<lambda>uuid. used_of (Snapshot s) uuid \<union> granted ds gs uuid)
    \<and> wf_map p (Snapshot s')"
  using assms
proof (induction ds arbitrary: i s)
  case Nil
  then show ?case by simp
next
  case (Cons d ds)
  then obtain s1 where s1: "cu_step p fs i d s = Inr s1" "cu_loop p fs (Suc i) ds s1 = Inr s'"
    by (auto split: sum.splits)
  from cu_step_grant [OF s1(1) Cons.prems(2)] obtain g entry where
    g: "mask_entry p i d g entry" "HsaSets s1 = HsaSets s @ [entry]"
      "grant_cus g \<inter> used_of (Snapshot s) (UUID d) = {}"
      "used_of (Snapshot s1) = (used_of (Snapshot s))(UUID d := used_of (Snapshot s) (UUID d) \<union> grant_cus g)"
      "wf_map p (Snapshot s1)" by blast
  from Cons.IH [OF s1(2) g(5)] obtain gs entries where
    ih: "length gs = length ds" "length entries = length ds"
      "\<forall>k < length ds. mask_entry p (Suc i + k) (ds ! k) (gs ! k) (entries ! k)"
      "HsaSets s' = HsaSets s1 @ entries" "fresh_grants (used_of (Snapshot s1)) ds gs"
      "used_of (Snapshot s') = (\<lambda>uuid. used_of (Snapshot s1) uuid \<union> granted ds gs uuid)" "wf_map p (Snapshot s')"
    by blast
  have "mask_entry p (i + k) ((d # ds) ! k) ((g # gs) ! k) ((entry # entries) ! k)" if "k < length (d # ds)" for k
    using that g(1) ih(3) by (cases k) auto
  moreover have "used_of (Snapshot s') = (\<lambda>uuid. used_of (Snapshot s) uuid \<union> granted (d # ds) (g # gs) uuid)"
    unfolding ih(6) g(4) by (auto simp: fun_eq_iff)
  ultimately show ?case
    using ih g by (intro exI [of _ "g # gs"] exI [of _ "entry # entries"]) (simp del: fun_upd_apply)
qed

lemma fresh_grants_each:
  assumes "fresh_grants used ds gs" "length gs = length ds" "k < length ds"
  shows "grant_cus (gs ! k) \<inter> used (UUID (ds ! k)) = {}"
    and "j < k \<Longrightarrow> UUID (ds ! j) = UUID (ds ! k) \<Longrightarrow> grant_cus (gs ! j) \<inter> grant_cus (gs ! k) = {}"
proof -
  have "grant_cus (gs ! k) \<inter> used (UUID (ds ! k)) = {}
    \<and> (\<forall>j < k. UUID (ds ! j) = UUID (ds ! k) \<longrightarrow> grant_cus (gs ! j) \<inter> grant_cus (gs ! k) = {})"
    using assms
  proof (induction ds gs arbitrary: used k rule: list_induct2')
    case (4 d ds g gs)
    show ?case
    proof (cases k)
      case 0
      with 4 show ?thesis by simp
    next
      case (Suc k')
      let ?used = "used(UUID d := used (UUID d) \<union> grant_cus g)"
      have "fresh_grants ?used ds gs" "length gs = length ds" "k' < length ds"
        using "4.prems" Suc by simp_all
      from "4.IH" [OF this] have ih: "grant_cus (gs ! k') \<inter> ?used (UUID (ds ! k')) = {}"
        "\<forall>j < k'. UUID (ds ! j) = UUID (ds ! k') \<longrightarrow> grant_cus (gs ! j) \<inter> grant_cus (gs ! k') = {}"
        by blast+
      have "grant_cus ((g # gs) ! j) \<inter> grant_cus ((g # gs) ! k) = {}"
        if "j < k" "UUID ((d # ds) ! j) = UUID ((d # ds) ! k)" for j
        using that ih Suc by (cases j) auto
      then show ?thesis using ih(1) Suc by (auto split: if_splits)
    qed
  qed simp_all
  then show "grant_cus (gs ! k) \<inter> used (UUID (ds ! k)) = {}"
    and "j < k \<Longrightarrow> UUID (ds ! j) = UUID (ds ! k) \<Longrightarrow> grant_cus (gs ! j) \<inter> grant_cus (gs ! k) = {}"
    by simp_all
qed

section \<open>Committing the list\<close>

lemma disjoint_maps_sym: "disjoint_maps f g \<longleftrightarrow> disjoint_maps g f"
  by (auto simp: disjoint_maps_def)

lemma pairwise_disjoint_insert:
  "pairwise_disjoint p (ps1 @ P # ps2) \<longleftrightarrow>
    pairwise_disjoint p (ps1 @ ps2) \<and> disjoint_maps (held_by p (ps1 @ ps2)) (held p P)"
proof (induction ps1)
  case Nil
  show ?case using disjoint_held_by [of "held p P" p ps2] disjoint_maps_sym by auto
next
  case (Cons q ps1)
  have "disjoint_maps (held_by p ((q # ps1) @ ps2)) (held p P) \<longleftrightarrow>
      disjoint_maps (held p q) (held p P) \<and> disjoint_maps (held_by p (ps1 @ ps2)) (held p P)"
    by (auto simp: disjoint_maps_def)
  with Cons show ?case by auto
qed

lemma held_by_insert: "held_by p (ps1 @ P # ps2) = (\<lambda>uuid. held_by p (ps1 @ ps2) uuid \<union> held p P uuid)"
  by (auto simp: held_by_def fun_eq_iff)

lemma build_Inr:
  assumes "buildCUAllocations p pods = Inr res"
  shows "wf_map p res" "used_of res = held_by p pods" "\<forall>pod \<in> set pods. decodes p pod" "pairwise_disjoint p pods"
proof -
  from assms obtain st where st: "add_pods p pods ([], []) = Inr st" "res = fst st"
    by (auto simp: buildCUAllocations_def bind_result_Inr_iff)
  have "wf_occupancy p ([], [])" by (simp add: wf_occupancy_def)
  from add_pods_Inr [OF st(1) this] st(2)
  show "wf_map p res" "used_of res = held_by p pods" "\<forall>pod \<in> set pods. decodes p pod" "pairwise_disjoint p pods"
    by (auto simp: wf_occupancy_def fun_eq_iff)
qed

lemma build_ok:
  assumes "\<forall>pod \<in> set pods. decodes p pod" "pairwise_disjoint p pods"
  shows "\<exists>res. buildCUAllocations p pods = Inr res \<and> used_of res = held_by p pods"
proof -
  have wf: "wf_occupancy p ([], [])" by (simp add: wf_occupancy_def)
  obtain st where "add_pods p pods ([], []) = Inr st"
    "used_of (fst st) = (\<lambda>uuid. used_of (fst ([], [])) uuid \<union> held_by p pods uuid)"
    using add_pods_ok [OF wf assms] by (auto simp: disjoint_maps_def)
  then show ?thesis by (auto simp: buildCUAllocations_def fun_eq_iff)
qed

text \<open>The list decoded from the pod's annotation stands for what the pod holds.\<close>

lemma existing_list_held:
  assumes "decodes p cur" "\<not> IsPodInTerminatedState cur" "existing_list cur = Inr pcu"
  shows "\<exists>m. pcu = Some m \<and> good_list p m \<and> held p cur = used_text p m"
proof (cases "has_cus cur")
  case False
  then have "TrimSpace (annotation (PAnnotations cur) CuAllocationKey) = []"
    using assms(2) by (simp add: has_cus_def)
  then have "pcu = Some []" using assms(3) by (simp add: existing_list_def)
  moreover have "held p cur = used_text p []" using False by (simp add: held_def used_text_def fun_eq_iff)
  ultimately show ?thesis by (simp add: good_list_def)
next
  case True
  let ?raw = "TrimSpace (annotation (PAnnotations cur) CuAllocationKey)"
  from True assms(1) obtain mm where mm: "parseCuAllocation p (PAnnotations cur) = Inr mm"
    by (auto simp: decodes_def)
  then obtain m where m: "?raw \<noteq> []" "json_unmarshal ?raw = Some m" "m \<noteq> []" "parse_entries p m [] = Inr mm"
    by (auto simp: parseCuAllocation_def Let_def split: if_splits option.splits)
  have good: "good_list p m"
    using parse_entries_good [OF m(4)] json_unmarshal_distinct [OF m(2)] by (simp add: good_list_def)
  have "\<not> json_null ?raw" using json_null_Nil [OF _ m(2)] m(3) by blast
  then have "pcu = Some m" using assms(3) m(1,2) by (simp add: existing_list_def)
  moreover have "held p cur = used_text p m"
    using parse_entries_all [OF good] m(4) True mm by (auto simp: held_def fun_eq_iff)
  ultimately show ?thesis using good by blast
qed

lemma cu_inv_start:
  assumes "buildCUAllocations p (ps1 @ cur # ps2) = Inr snap" "\<not> IsPodInTerminatedState cur"
    and "existing_list cur = Inr pcu"
  shows "cu_inv p (held_by p (ps1 @ ps2)) \<lparr>Snapshot = snap, PodList = pcu, SlicedCU = sl, HsaSets = hs\<rparr>"
proof -
  note b = build_Inr [OF assms(1)]
  obtain m where m: "pcu = Some m" "good_list p m" "held p cur = used_text p m"
    using existing_list_held [of p cur pcu] b(3) assms(2,3) by auto
  have "disjoint_maps (held_by p (ps1 @ ps2)) (used_text p m)"
    using b(4) m(3) by (simp add: pairwise_disjoint_insert)
  then show ?thesis
    using m b(1,2) by (simp add: cu_inv_def held_by_insert)
qed

definition with_list :: "(string \<times> string) list \<Rightarrow> Pod \<Rightarrow> Pod" where
  "with_list m cur = cur\<lparr>PAnnotations := assoc_update CuAllocationKey (json_marshal m) (PAnnotations cur)\<rparr>"

lemma map_of_sort_key: "distinct (map fst m) \<Longrightarrow> map_of (sort_key fst m) = map_of m"
proof (rule ext)
  fix k
  assume d: "distinct (map fst m)"
  then have ds: "distinct (map fst (sort_key fst m))" by (simp add: distinct_map_fst_sort_key)
  show "map_of (sort_key fst m) k = map_of m k"
  proof (cases "map_of m k")
    case None
    then have "k \<notin> fst ` set (sort_key fst m)" by (simp add: map_of_eq_None_iff)
    with None show ?thesis by (metis map_of_eq_None_iff)
  next
    case (Some v)
    then have "(k, v) \<in> set (sort_key fst m)" by (auto dest: map_of_SomeD)
    with ds Some show ?thesis by (metis map_of_is_SomeI)
  qed
qed

lemma used_text_sort: "distinct (map fst m) \<Longrightarrow> used_text p (sort_key fst m) = used_text p m"
  by (simp add: used_text_def map_of_sort_key fun_eq_iff)

text \<open>A committed list is decoded again as what it stands for.\<close>

lemma with_list_held:
  assumes "good_list p m" "m \<noteq> []" "\<forall>(k, x) \<in> set m. json_plain k \<and> json_plain x"
    and "\<not> IsPodInTerminatedState cur"
  shows "decodes p (with_list m cur)" "held p (with_list m cur) = used_text p m"
proof -
  have d: "distinct (map fst m)" using assms(1) by (simp add: good_list_def)
  have raw: "annotation (PAnnotations (with_list m cur)) CuAllocationKey = json_marshal m"
    by (simp add: with_list_def annotation_def map_of_assoc_update)
  have has: "has_cus (with_list m cur)"
    using assms(4) by (simp add: has_cus_def raw TrimSpace_json_marshal json_marshal_ends)
       (simp add: with_list_def IsPodInTerminatedState_def)
  have "good_list p (sort_key fst m)"
    using assms(1) d by (simp add: good_list_def distinct_map_fst_sort_key)
  then obtain out where out: "parse_entries p (sort_key fst m) [] = Inr out"
    "used_of out = used_text p (sort_key fst m)"
    using parse_entries_all by blast
  have "parseCuAllocation p (PAnnotations (with_list m cur)) = Inr out"
    using assms(2) out(1)
    by (simp add: parseCuAllocation_def raw TrimSpace_json_marshal json_marshal_ends json_roundtrip [OF d assms(3)])
  with has out(2) used_text_sort [OF d]
  show "decodes p (with_list m cur)" "held p (with_list m cur) = used_text p m"
    by (auto simp: decodes_def held_def fun_eq_iff)
qed

lemma commit_builds:
  assumes "cu_inv p (held_by p (ps1 @ ps2)) s" "PodList s = Some m" "m \<noteq> []"
    and "\<forall>(k, x) \<in> set m. json_plain k \<and> json_plain x" "\<not> IsPodInTerminatedState cur"
    and "\<forall>pod \<in> set (ps1 @ ps2). decodes p pod" "pairwise_disjoint p (ps1 @ ps2)"
  shows "\<exists>res. buildCUAllocations p (ps1 @ with_list m cur # ps2) = Inr res \<and> used_of res = used_of (Snapshot s)"
proof -
  from assms(1,2) have inv: "good_list p m" "used_of (Snapshot s) = (\<lambda>uuid. held_by p (ps1 @ ps2) uuid \<union> used_text p m uuid)"
    "disjoint_maps (held_by p (ps1 @ ps2)) (used_text p m)"
    by (auto simp: cu_inv_def)
  note w = with_list_held [OF inv(1) assms(3,4,5)]
  have "\<forall>pod \<in> set (ps1 @ with_list m cur # ps2). decodes p pod" using assms(6) w(1) by auto
  moreover have "pairwise_disjoint p (ps1 @ with_list m cur # ps2)"
    using assms(7) inv(3) w(2) by (simp add: pairwise_disjoint_insert)
  ultimately obtain res where "buildCUAllocations p (ps1 @ with_list m cur # ps2) = Inr res"
    "used_of res = held_by p (ps1 @ with_list m cur # ps2)" using build_ok by blast
  with inv(2) w(2) show ?thesis by (simp add: held_by_insert)
qed

section \<open>The loop over the containers\<close>

lemma or_fail_Inr: "or_fail h n cur r w = (Inr x, w') \<longleftrightarrow> r = Inr x \<and> w' = w"
  by (auto simp: or_fail_def fail_pod_def bind_io_run split: sum.splits prod.splits)

lemma bind_io_Inr: "bind_io m f w = (Inr y, w') \<longleftrightarrow> (\<exists>x w1. m w = (Inr x, w1) \<and> f x w1 = (Inr y, w'))"
  by (auto simp: bind_io_run split: prod.splits sum.splits)

lemma hook_part_Inr:
  assumes "hook_part p fs h n hook cur ctr devreq car w = (Inr car', w')"
  shows "Devices car' = Devices car \<and> CdiDevices car' = CdiDevices car \<and> (\<exists>e. Envs car' = Envs car @ e)"
  using assms
  by (auto simp: hook_part_def Let_def bind_io_Inr start_caps_def split: if_splits)

lemma container_step_Inr:
  assumes "container_step p fs h n hook cur ids s w = (Inr (car, s'), w')"
  shows "(s' = s \<and> Envs car = []) \<or> (\<exists>devreq nodes e. devreq \<noteq> [] \<and> cu_loop p fs 0 devreq (s\<lparr>HsaSets := []\<rparr>) = Inr s'
    \<and> traverse (device_nodes_of p fs) devreq = Inr nodes \<and> Envs car = visible_envs (HsaSets s') nodes @ e)"
  using assms
  by (auto simp: container_step_def Let_def bind_io_Inr or_fail_Inr split: if_splits dest!: hook_part_Inr)

lemma cu_inv_HsaSets [simp]: "cu_inv p others (s\<lparr>HsaSets := hs\<rparr>) \<longleftrightarrow> cu_inv p others s"
  by (simp add: cu_inv_def)

lemma containers_loop_inv:
  assumes "containers_loop p fs h n hook cur reqs s w = (Inr (cars, s'), w')" "cu_inv p others s" "cache_ok p"
  shows "cu_inv p others s'"
  using assms
proof (induction reqs arbitrary: s w cars w')
  case (Cons ids reqs)
  then obtain car s1 w1 cars' w2 where
    1: "container_step p fs h n hook cur ids s w = (Inr (car, s1), w1)"
      "containers_loop p fs h n hook cur reqs s1 w1 = (Inr (cars', s'), w2)"
    by (auto simp: bind_io_Inr)
  have "cu_inv p others s1"
    using container_step_Inr [OF 1(1)] cu_loop_inv Cons.prems(2,3) by (metis cu_inv_HsaSets)
  then show ?case using Cons.IH [OF 1(2)] Cons.prems(3) by blast
qed simp


section \<open>Properties\<close>


definition slice_dev :: ContainerDevice where
  "slice_dev = \<lparr>UUID = ''smi-1'', DType = ''AMDGPU'', Usedmem = 1024, Usedcores = 2\<rparr>"

definition held_state :: cu_state where
  "held_state = \<lparr>Snapshot = [(''smi-1'', [0b1111])], PodList = Some [], SlicedCU = False, HsaSets = []\<rparr>"

lemma sample_total: "getDeviceTotalCUs (sample_plugin mode) ''smi-1'' = Inr 8"
  by (simp add: getDeviceTotalCUs_def lookupDevice_def cached_for_def sample_plugin_def sample_info_def)

lemma sample_unit: "cuMaskUnit (sample_plugin mode) (\<lambda>_. None) ''smi-1'' dir = 1"
  by (simp add: cuMaskUnit_def cuPerWGP_def node_property_def ParseTopologyProperties_def split: sum.split)

lemma sample_AllocateN: "AllocateN [0b1111] 8 2 1 = ([0b111111], Inr [0b110000])"
  by (simp add: AllocateN_def wordsFor_def round_up_def alloc_loop.simps upt_rec isSet_def set_cu_def Let_def)

lemma sample_IDList: "allocationToIDList [0b110000] 8 = ''4-5''"
  by (simp add: allocationToIDList_def alloc_ids_def upt_rec run_text_def Itoa_def digits_of.simps digit_char_def
      char_of_def bit_Suc bit_0)

lemma sample_slice: "isWholeGPU (sample_plugin mode) [slice_dev] = False"
  by (simp add: isWholeGPU_def slice_of_def lookupDevice_def cached_for_def sample_plugin_def sample_info_def slice_dev_def)

lemma sample_cu_loop:
  "cu_loop (sample_plugin mode) (\<lambda>_. None) 0 [slice_dev] held_state =
    Inr \<lparr>Snapshot = [(''smi-1'', [0b111111])], PodList = Some [(''smi-1'', ''4-5'')], SlicedCU = True, HsaSets = [''0:4-5'']\<rparr>"
proof -
  have u: "UUID slice_dev = ''smi-1''" "Usedcores slice_dev = 2" by (simp_all add: slice_dev_def)
  have z: "Itoa 0 = ''0''" by (simp add: Itoa_def digits_of.simps digit_char_def char_of_def bit_Suc bit_0)
  show ?thesis
    by (simp add: cu_step_def u sample_total base_allocation_def held_state_def take_cus_def sample_unit
        sample_AllocateN pod_list_text_def sample_IDList sample_slice z)
qed

lemma sample_wf_map: "wf_map (sample_plugin mode) [(''smi-1'', [0b1111])]"
proof -
  have "wf_bitmap 8 [0b1111]" by (rule idListToAllocation_wf [of "''0-3''"]) (simp add: idlist_eval)
  then show ?thesis by (auto simp: wf_map_def sample_total split: if_splits)
qed


text \<open>C2: the list Allocate commits keeps the node consistent. Start from pods the rebuild accepts,
  serve any requests of one of them: replacing its annotation by the list that is committed gives pods
  the rebuild accepts again, and what they hold is the occupancy Allocate ended with, so a commit never
  makes a later allocation on the node fail and is never lost on it.\<close>

theorem commit_keeps_node_consistent:
  assumes "cache_ok p" and "buildCUAllocations p (ps1 @ cur # ps2) = Inr snap"
    and "\<not> IsPodInTerminatedState cur" and "existing_list cur = Inr pcu"
    and "containers_loop p fs h n hook (cur, tracked) reqs
          \<lparr>Snapshot = snap, PodList = pcu, SlicedCU = False, HsaSets = []\<rparr> w = (Inr (cars, s), w')"
    and "PodList s = Some m" and "m \<noteq> []" and "\<forall>(k, x) \<in> set m. json_plain k \<and> json_plain x"
  shows "\<exists>res. buildCUAllocations p (ps1 @ with_list m cur # ps2) = Inr res
    \<and> used_of res = used_of (Snapshot s)"
proof -
  note b = build_Inr [OF assms(2)]
  have "cu_inv p (held_by p (ps1 @ ps2)) s"
    by (rule containers_loop_inv [OF assms(5) cu_inv_start [OF assms(2,3,4)] assms(1)])
  then show ?thesis
    by (rule commit_builds [OF _ assms(6,7,8,3)])
      (use b(3,4) in \<open>auto simp: pairwise_disjoint_insert\<close>)
qed

definition quiet_host :: "Pod list \<Rightarrow> unit host" where
  "quiet_host pods = \<lparr>hostApi = fixed_api (sample_node []) pods, inspectImage = (\<lambda>_ w. (Inr True, w)),
     goApplyDmemCap = (\<lambda>_ w. w)\<rparr>"

definition slice_pod :: Pod where
  "slice_pod = sample_pod ''p'' [(DeviceToAllocate, EncodePodSingleDevice [[], [slice_dev]])]"

lemma sample_request:
  "device_request (quiet_host pods) n slice_pod [''0000:03:00.0#0''] () =
    (Inr (\<lparr>CName = ''a'', Image = ''img''\<rparr>, [slice_dev]), ())"
proof -
  have wf: "wf_device slice_dev" by (simp add: wf_device_def sep_free_def int32_range_def slice_dev_def)
  have annos: "map_of (PAnnotations slice_pod) DeviceToAllocate = Some (EncodePodSingleDevice ((erase_next False ^^ 0) [[], [slice_dev]]))"
    by (simp add: slice_pod_def sample_pod_def)
  have ctrs: "InitContainers slice_pod @ Containers slice_pod =
      [\<lparr>CName = ''i'', Image = ''img''\<rparr>, \<lparr>CName = ''a'', Image = ''img''\<rparr>, \<lparr>CName = ''b'', Image = ''img''\<rparr>]"
    by (simp add: slice_pod_def sample_pod_def)
  have req: "GetNextDeviceRequest ''amd'' slice_pod = Inr (\<lparr>CName = ''a'', Image = ''img''\<rparr>, [slice_dev])"
    using GetNextDeviceRequest_served [of "[[], [slice_dev]]" 0 slice_pod] wf annos ctrs
    by (simp add: busy_slots_def upt_rec)
  have dec: "DecodePodDevices InRequestDevices (PAnnotations slice_pod) = Inr [(''amd'', [[], [slice_dev]])]"
    by (rule Decode_EncodePodSingleDevice) (use wf annos in auto)
  have "fst (EraseNextDeviceTypeFromAnnotation (fixed_api (sample_node []) pods) ''amd'' slice_pod ()) = Inr ()"
    by (simp add: EraseNextDeviceTypeFromAnnotation_def dec PatchPodAnnotations_def try_io_run lift_io_def fixed_api_def)
  then show ?thesis
    by (simp add: device_request_def req quiet_host_def try_io_run)
qed

lemma sample_nodes:
  "\<exists>nodes. traverse (device_nodes_of (sample_plugin mode) (\<lambda>_. None)) [slice_dev] = Inr nodes"
  by (simp add: device_nodes_of_def deviceDataFromAllocationUUID_def rocrUUIDFromAllocationUUID_def slice_dev_def
      strip_free sample_plugin_def sample_gpu_def HasPrefix_def)

lemma sample_containers:
  "\<exists>cars. containers_loop (sample_plugin mode) (\<lambda>_. None) (quiet_host pods) n hook (slice_pod, tracked)
      [[''0000:03:00.0#0'']] held_state () = (Inr (cars,
        \<lparr>Snapshot = [(''smi-1'', [0b111111])], PodList = Some [(''smi-1'', ''4-5'')], SlicedCU = True, HsaSets = [''0:4-5'']\<rparr>), ())"
proof -
  obtain nodes where nodes: "traverse (device_nodes_of (sample_plugin mode) (\<lambda>_. None)) [slice_dev] = Inr nodes"
    using sample_nodes by blast
  have hs: "held_state\<lparr>HsaSets := []\<rparr> = held_state" by (simp add: held_state_def)
  have flags: "\<not> libcheckEnabled (sample_plugin mode)" "\<not> dmemEnabled (sample_plugin mode)"
    by (simp_all add: sample_plugin_def)
  show ?thesis
    by (simp add: bind_io_run container_step_def sample_request or_fail_def nodes hs sample_cu_loop Let_def
        hook_part_def sample_slice audit_check_def flags del: cu_loop.simps traverse.simps)
qed

theorem commit_keeps_node_consistent_witness:
  "\<exists>res. buildCUAllocations (sample_plugin ''cu'') [cu_pod ''a'' ''0-3'', with_list [(''smi-1'', ''4-5'')] slice_pod] = Inr res
    \<and> used_of res = used_of [(''smi-1'', [0b111111])]"
proof -
  have "has_cus slice_pod = False"
    by (simp add: has_cus_def slice_pod_def sample_pod_def annotation_def DeviceToAllocate_def CuAllocationKey_def)
  then have b: "buildCUAllocations (sample_plugin ''cu'') ([cu_pod ''a'' ''0-3''] @ slice_pod # []) = Inr [(''smi-1'', [0b1111])]"
    by (simp add: buildCUAllocations_def cu_pod_eval add_device_def sample_total init_device_def merge_device_def
        NewAllocation_def wordsFor_def upt_rec isSet_def AddAllocation_def)
  have ex: "existing_list slice_pod = Inr (Some [])" "\<not> IsPodInTerminatedState slice_pod"
    by (simp_all add: existing_list_def slice_pod_def sample_pod_def annotation_def DeviceToAllocate_def CuAllocationKey_def
        IsPodInTerminatedState_def)
  have ok: "cache_ok (sample_plugin ''cu'')" by (simp add: cache_ok_def sample_plugin_def sample_info_def)
  obtain cars where run: "containers_loop (sample_plugin ''cu'') (\<lambda>_. None) (quiet_host []) ''n1'' [] (slice_pod, True)
      [[''0000:03:00.0#0'']] \<lparr>Snapshot = [(''smi-1'', [0b1111])], PodList = Some [], SlicedCU = False, HsaSets = []\<rparr> () = (Inr (cars,
        \<lparr>Snapshot = [(''smi-1'', [0b111111])], PodList = Some [(''smi-1'', ''4-5'')], SlicedCU = True, HsaSets = [''0:4-5'']\<rparr>), ())"
    using sample_containers [of "''cu''"] by (metis held_state_def)
  from commit_keeps_node_consistent [OF ok b ex(2,1) run] show ?thesis
    by (simp add: json_plain_def)
qed

end
