(* ===== verification/AllocateLog.thy ===== *)
theory AllocateLog
  imports AllocateCU
begin

text \<open>
  What \<open>Allocate\<close> sends to the API server. On the logged host every run leaves a log of calls and
  answers; \<open>logs m Q\<close> says that every run of \<open>m\<close> appends a log that, with the result, satisfies
  \<open>Q\<close>. With one rule per way of composing calls, the shape of the log of the whole handler
  follows from the shapes of its parts: at most one commit, only right after the node lock was
  read as the pod's own, and \<open>PodAllocationFailed\<close> exactly at the end of a failed run.
\<close>

section \<open>Logs of runs\<close>

definition logs :: "('w \<times> call list, 'e, 'a) io \<Rightarrow> (('e, 'a) result \<Rightarrow> call list \<Rightarrow> bool) \<Rightarrow> bool" where
  "logs m Q \<longleftrightarrow> (\<forall>w l. \<exists>l' w'. m (w, l) = (fst (m (w, l)), (w', l @ l')) \<and> Q (fst (m (w, l))) l')"

lemma logsI: "(\<And>w l. \<exists>r l' w'. m (w, l) = (r, (w', l @ l')) \<and> Q r l') \<Longrightarrow> logs m Q"
  unfolding logs_def by (metis fst_conv)

lemma logsE:
  assumes "logs m Q"
  obtains r l' w' where "m (w, l) = (r, (w', l @ l'))" "Q r l'"
  using assms unfolding logs_def by blast

lemma logs_conseq: "logs m Q \<Longrightarrow> (\<And>r l. Q r l \<Longrightarrow> R r l) \<Longrightarrow> logs m R"
  unfolding logs_def by blast

lemma logs_return: "Q (Inr x) [] \<Longrightarrow> logs (return_io x) Q"
  by (rule logsI) simp

lemma logs_throw: "Q (Inl e) [] \<Longrightarrow> logs (throw_io e) Q"
  by (rule logsI) simp

lemma logs_try:
  assumes "logs m Q" "\<And>r l. Q r l \<Longrightarrow> logs (f r) (\<lambda>r' l'. R r' (l @ l'))"
  shows "logs (try_io m f) R"
proof (rule logsI)
  fix w l
  obtain r l1 w1 where m: "m (w, l) = (r, (w1, l @ l1))" "Q r l1" by (rule logsE [OF assms(1)])
  obtain r' l2 w2 where f: "f r (w1, l @ l1) = (r', (w2, (l @ l1) @ l2))" "R r' (l1 @ l2)"
    by (rule logsE [OF assms(2) [OF m(2)]])
  show "\<exists>r l' w'. try_io m f (w, l) = (r, (w', l @ l')) \<and> R r l'"
    using m f by (auto simp: try_io_run)
qed

lemma bind_try: "bind_io m f = try_io m (\<lambda>r. case r of Inl e \<Rightarrow> throw_io e | Inr x \<Rightarrow> f x)"
  by (auto simp: fun_eq_iff bind_io_run try_io_run split: prod.splits sum.splits)

lemma logs_bind:
  assumes "logs m Q" "\<And>x l. Q (Inr x) l \<Longrightarrow> logs (f x) (\<lambda>r' l'. R r' (l @ l'))"
    and "\<And>e l. Q (Inl e) l \<Longrightarrow> R (Inl e) l"
  shows "logs (bind_io m f) R"
  unfolding bind_try
proof (rule logs_try [OF assms(1)])
  fix r l assume "Q r l"
  then show "logs (case r of Inl e \<Rightarrow> throw_io e | Inr x \<Rightarrow> f x) (\<lambda>r' l'. R r' (l @ l'))"
    using assms(2,3) by (cases r) (auto intro: logs_throw)
qed

lemma logs_lift: "Q (case r of Inl e \<Rightarrow> Inl (g e) | Inr x \<Rightarrow> Inr x) [] \<Longrightarrow> logs (lift_io g r) Q"
  by (cases r) (auto intro: logs_return logs_throw)

lemma logs_call:
  "logs (log_call c m) (\<lambda>r l. l = [c r])"
  by (rule logsI) auto

definition logged_host :: "'w host \<Rightarrow> ('w \<times> call list) host" where
  "logged_host h = \<lparr>hostApi = logged (hostApi h),
     inspectImage = (\<lambda>i (w, l). case inspectImage h i w of (r, w') \<Rightarrow> (r, (w', l))),
     goApplyDmemCap = (\<lambda>t (w, l). (goApplyDmemCap h t w, l))\<rparr>"

lemma hostApi_logged [simp]: "hostApi (logged_host h) = logged (hostApi h)"
  by (simp add: logged_host_def)

lemma logs_inspect: "logs (inspectImage (logged_host h) i) (\<lambda>r l. l = [])"
  by (rule logsI) (auto simp: logged_host_def split: prod.splits)

lemma logs_caps: "logs (start_caps (logged_host h) ts) (\<lambda>r l. r = Inr () \<and> l = [])"
proof (rule logsI)
  fix w :: 'a and l
  have "\<exists>w'. foldl (\<lambda>w t. goApplyDmemCap (logged_host h) t w) (w, l) ts = (w', l)"
    by (induction ts arbitrary: w) (auto simp: logged_host_def)
  then show "\<exists>r l' w'. start_caps (logged_host h) ts (w, l) = (r, (w', l @ l')) \<and> r = Inr () \<and> l' = []"
    by (auto simp: start_caps_def)
qed

section \<open>Kinds of calls\<close>

fun is_read :: "call \<Rightarrow> bool" where
  "is_read (CGetNode n r) \<longleftrightarrow> True"
| "is_read (CListPods n r) \<longleftrightarrow> True"
| "is_read (CGetPod ns n r) \<longleftrightarrow> True"
| "is_read _ \<longleftrightarrow> False"

fun is_commit :: "call \<Rightarrow> bool" where
  "is_commit (CPatchPod ns n annos la r) \<longleftrightarrow> CuAllocationKey \<in> fst ` set annos"
| "is_commit _ \<longleftrightarrow> False"

fun is_failed :: "call \<Rightarrow> bool" where
  "is_failed (CPatchPod ns n annos la r) \<longleftrightarrow> (DeviceBindPhase, DeviceBindFailed) \<in> set annos"
| "is_failed _ \<longleftrightarrow> False"

definition quiet :: "call list \<Rightarrow> bool" where
  "quiet l \<longleftrightarrow> list_all (\<lambda>c. \<not> is_commit c \<and> \<not> is_failed c) l"

lemma quiet_simps [simp]:
  "quiet []" "quiet (l @ l') \<longleftrightarrow> quiet l \<and> quiet l'"
  "quiet (c # l) \<longleftrightarrow> \<not> is_commit c \<and> \<not> is_failed c \<and> quiet l"
  by (simp_all add: quiet_def)

lemma read_quiet: "list_all is_read l \<Longrightarrow> quiet l"
proof -
  have "is_read c \<Longrightarrow> \<not> is_commit c \<and> \<not> is_failed c" for c by (cases c) auto
  then show "list_all is_read l \<Longrightarrow> quiet l" by (auto simp: quiet_def list_all_iff)
qed

definition reads :: "('e, 'a) result \<Rightarrow> call list \<Rightarrow> bool" where
  "reads r l \<longleftrightarrow> list_all is_read l"

lemma reads_try:
  assumes "logs m reads" "\<And>x. logs (f x) reads"
  shows "logs (try_io m f) reads"
  by (rule logs_try [OF assms(1)]) (rule logs_conseq [OF assms(2)], simp add: reads_def)

lemma reads_bind:
  assumes "logs m reads" "\<And>x. logs (f x) reads"
  shows "logs (bind_io m f) reads"
  unfolding bind_try
proof (rule reads_try [OF assms(1)])
  fix r show "logs (case r of Inl e \<Rightarrow> throw_io e | Inr x \<Rightarrow> f x) reads"
    using assms(2) by (cases r) (auto intro: logs_throw simp: reads_def)
qed

lemma reads_basic:
  "logs (return_io x) reads" "logs (throw_io e) reads" "logs (lift_io g r) reads"
  by (auto intro: logs_return logs_throw logs_lift simp: reads_def)

lemma reads_calls:
  "logs (getNode (logged a) n) reads" "logs (listPods (logged a) n) reads" "logs (getPod (logged a) ns n) reads"
  unfolding logged_simps by (auto intro!: logs_conseq [OF logs_call] simp: reads_def)

text \<open>Case distinctions.\<close>

lemma logs_case_option:
  "(x = None \<Longrightarrow> logs f Q) \<Longrightarrow> (\<And>y. x = Some y \<Longrightarrow> logs (g y) Q) \<Longrightarrow>
   logs (case x of None \<Rightarrow> f | Some y \<Rightarrow> g y) Q"
  by (cases x) auto

lemma logs_case_sum:
  "(\<And>e. x = Inl e \<Longrightarrow> logs (f e) Q) \<Longrightarrow> (\<And>y. x = Inr y \<Longrightarrow> logs (g y) Q) \<Longrightarrow>
   logs (case x of Inl e \<Rightarrow> f e | Inr y \<Rightarrow> g y) Q"
  by (cases x) auto

lemma logs_case_prod: "(\<And>a b. x = (a, b) \<Longrightarrow> logs (f a b) Q) \<Longrightarrow> logs (case x of (a, b) \<Rightarrow> f a b) Q"
  by (cases x) auto

lemma logs_if: "(c \<Longrightarrow> logs f Q) \<Longrightarrow> (\<not> c \<Longrightarrow> logs g Q) \<Longrightarrow> logs (if c then f else g) Q"
  by auto

lemma logs_case_api_error:
  "(e = NotFound \<Longrightarrow> logs f Q) \<Longrightarrow> (e = Unauthorized \<Longrightarrow> logs g Q) \<Longrightarrow> (\<And>s. e = ApiError s \<Longrightarrow> logs (k s) Q) \<Longrightarrow>
   logs (case e of NotFound \<Rightarrow> f | Unauthorized \<Rightarrow> g | ApiError s \<Rightarrow> k s) Q"
  by (cases e) auto

lemmas logs_cases = logs_case_option logs_case_sum logs_case_prod logs_if logs_case_api_error

lemmas reads_rules = reads_bind reads_try reads_basic reads_calls logs_cases

lemma reads_GetAllocatePodByNode: "logs (GetAllocatePodByNode (logged a) n) reads"
  unfolding GetAllocatePodByNode_def by (intro reads_rules)

lemma reads_GetPendingPod: "logs (GetPendingPod (logged a) n) reads"
  unfolding GetPendingPod_def by (intro reads_rules reads_GetAllocatePodByNode)

section \<open>The end of a failed run\<close>

definition release_log :: "string \<Rightarrow> Pod \<Rightarrow> call list \<Rightarrow> bool" where
  "release_log n pod l \<longleftrightarrow> (\<exists>ats. l = concat ats \<and> ats \<noteq> [] \<and> length ats \<le> 5
     \<and> (\<forall>seg \<in> set ats. attempt_log n pod False seg))"

text \<open>The bind phase is patched, then the node lock is released.\<close>

definition bind_log :: "string \<Rightarrow> Pod \<Rightarrow> string \<Rightarrow> call list \<Rightarrow> bool" where
  "bind_log n pod phase l \<longleftrightarrow> (\<exists>r rl. l = CPatchPod (PNamespace pod) (PName pod) [(DeviceBindPhase, phase)] [] r # rl
     \<and> release_log n pod rl)"

definition failed_end :: "string \<Rightarrow> Pod \<Rightarrow> alloc_error \<Rightarrow> call list \<Rightarrow> bool" where
  "failed_end n cur e l \<longleftrightarrow> (if e = APanic then l = [] else bind_log n cur DeviceBindFailed l)"

lemma key_distinct: "DeviceBindPhase \<noteq> AssignedNodeAnnotations" "DeviceBindPhase \<noteq> CuAllocationKey"
  "DeviceToAllocate \<noteq> CuAllocationKey" "DeviceToAllocate \<noteq> DeviceBindPhase" "CuAllocationKey \<noteq> DeviceBindPhase"
  "DeviceBindSuccess \<noteq> DeviceBindFailed"
  by (simp_all add: DeviceBindPhase_def AssignedNodeAnnotations_def CuAllocationKey_def DeviceToAllocate_def
      DeviceBindSuccess_def DeviceBindFailed_def)

lemmas keys_distinct = key_distinct key_distinct [THEN not_sym]

lemma logs_PatchPod:
  "logs (PatchPodAnnotations (logged a) pod annos) (\<lambda>r l.
     \<exists>la r'. l = [CPatchPod (PNamespace pod) (PName pod) annos la r'] \<and> (r = Inr () \<longleftrightarrow> r' = Inr ())
       \<and> (map_of annos AssignedNodeAnnotations = None \<longrightarrow> la = []))"
  unfolding PatchPodAnnotations_def logged_simps
  by (rule logs_try [OF logs_call]) (rule logs_lift, auto split: sum.splits)

lemma logs_Release:
  "logs (ReleaseNodeLock (logged a) n (Some pod) False) (\<lambda>r l. release_log n pod l)"
proof (rule logsI)
  fix w :: 'a and l
  let ?m = "ReleaseNodeLock (logged a) n (Some pod) False (w, l)"
  obtain ats w' where "?m = (fst ?m, (w', l @ concat ats))" "ats \<noteq> []" "length ats \<le> DefaultStrategy_Steps"
    "\<forall>seg \<in> set ats. attempt_log n pod False seg"
    using release_logged [of a n pod False w l] by blast
  then show "\<exists>r l' w'. ?m = (r, (w', l @ l')) \<and> release_log n pod l'"
    unfolding release_log_def DefaultStrategy_Steps_def by blast
qed

lemma logs_bind_phase:
  "logs (updatePodAnnotationsAndReleaseLock (logged a) n pod phase) (\<lambda>r l. r = Inr () \<and> bind_log n pod phase l)"
  unfolding updatePodAnnotationsAndReleaseLock_def
  by (rule logs_try [OF logs_PatchPod], rule logs_try [OF logs_Release], rule logs_return)
    (auto simp: bind_log_def keys_distinct)

lemma logs_fail_pod:
  "logs (fail_pod (logged_host h) n cur e) (\<lambda>r l. r = Inl e \<and> failed_end n cur e l)"
  unfolding fail_pod_def PodAllocationFailed_def hostApi_logged
  by (intro logs_if logs_throw logs_bind [OF logs_bind_phase]) (auto simp: failed_end_def)

lemma attempt_quiet: "attempt_log n pod skip seg \<Longrightarrow> quiet seg"
  by (induction n pod skip seg rule: attempt_log.induct) auto

lemma bind_log_quiet: "bind_log n pod phase l \<Longrightarrow> phase \<noteq> DeviceBindFailed \<Longrightarrow> quiet l"
  by (auto simp: bind_log_def release_log_def quiet_def list_all_iff keys_distinct)
     (use attempt_quiet in \<open>auto simp: quiet_def list_all_iff\<close>)

section \<open>The shape of the log before the commit\<close>

text \<open>Nothing is committed; on an error the log ends with the report of the failure.\<close>

definition shape :: "string \<Rightarrow> Pod \<Rightarrow> (alloc_error, 'a) result \<Rightarrow> call list \<Rightarrow> bool" where
  "shape n cur r l \<longleftrightarrow>
     (case r of
        Inr _ \<Rightarrow> quiet l
      | Inl e \<Rightarrow> \<exists>pre fl. l = pre @ fl \<and> quiet pre \<and> failed_end n cur e fl)"

lemma shape_simps [simp]:
  "shape n cur (Inr x) l \<longleftrightarrow> quiet l"
  "shape n cur (Inl e) l \<longleftrightarrow> (\<exists>pre fl. l = pre @ fl \<and> quiet pre \<and> failed_end n cur e fl)"
  by (simp_all add: shape_def)

lemma shape_prefix: "quiet pre \<Longrightarrow> shape n cur r l \<Longrightarrow> shape n cur r (pre @ l)"
  by (cases r) (auto, metis append.assoc quiet_simps(2))

lemma shape_bind:
  assumes "logs m (shape n cur)" "\<And>x. logs (f x) (shape n cur)"
  shows "logs (bind_io m f) (shape n cur)"
  by (rule logs_bind [OF assms(1)]) (auto intro!: logs_conseq [OF assms(2)] shape_prefix)

lemma shape_return: "logs (return_io x) (shape n cur)"
  by (rule logs_return) simp

lemma shape_fail: "logs (fail_pod (logged_host h) n cur e) (shape n cur)"
  by (rule logs_conseq [OF logs_fail_pod]) (auto, metis append_Nil quiet_simps(1))

lemma shape_or_fail: "logs (or_fail (logged_host h) n cur r) (shape n cur)"
  unfolding or_fail_def by (intro logs_cases shape_fail shape_return)

lemma shape_try:
  assumes "logs m (\<lambda>r l. quiet l)" "\<And>r. logs (f r) (shape n cur)"
  shows "logs (try_io m f) (shape n cur)"
  by (rule logs_try [OF assms(1)]) (rule logs_conseq [OF assms(2)], rule shape_prefix)

lemmas shape_rules = shape_bind shape_return shape_fail shape_or_fail shape_try logs_cases

lemma quiet_erase: "logs (EraseNextDeviceTypeFromAnnotation (logged a) ''amd'' pod) (\<lambda>r l. quiet l)"
  unfolding EraseNextDeviceTypeFromAnnotation_def
  by (intro logs_cases logs_throw logs_conseq [OF logs_PatchPod])
    (auto simp: InRequestDevices_def keys_distinct)

lemma shape_device_request: "logs (device_request (logged_host h) n cur ids) (shape n cur)"
  unfolding device_request_def hostApi_logged by (intro shape_rules quiet_erase)

lemma shape_caps: "logs (start_caps (logged_host h) ts) (shape n cur)"
  by (rule logs_conseq [OF logs_caps]) simp

lemma quiet_inspect: "logs (inspectImage (logged_host h) i) (\<lambda>r l. quiet l)"
  by (rule logs_conseq [OF logs_inspect]) simp

lemma logs_case_bool: "(b \<Longrightarrow> logs f Q) \<Longrightarrow> (\<not> b \<Longrightarrow> logs g Q) \<Longrightarrow> logs (case b of True \<Rightarrow> f | False \<Rightarrow> g) Q"
  by (cases b) auto

lemma shape_audit_check: "logs (audit_check p fs (logged_host h) n cur ctr devreq) (shape n cur)"
  unfolding audit_check_def by (intro shape_rules logs_case_bool quiet_inspect)

lemma shape_hook_part: "logs (hook_part p fs (logged_host h) n hook (cur, t) ctr devreq car) (shape n cur)"
  unfolding hook_part_def Let_def fst_conv snd_conv
  by (intro shape_rules shape_audit_check shape_caps)

lemma shape_container_step: "logs (container_step p fs (logged_host h) n hook (cur, t) ids s) (shape n cur)"
  unfolding container_step_def Let_def fst_conv
  by (intro shape_rules shape_device_request shape_hook_part)

lemma shape_containers_loop: "logs (containers_loop p fs (logged_host h) n hook (cur, t) reqs s) (shape n cur)"
proof (induction reqs arbitrary: s)
  case (Cons ids reqs)
  show ?case
    unfolding containers_loop.simps by (intro shape_rules shape_container_step Cons.IH)
qed (simp add: shape_return)

section \<open>The commit\<close>

text \<open>The node lock is read as the pod's own, and the very next call writes the list.\<close>

definition committed :: "string \<Rightarrow> Pod \<Rightarrow> string \<Rightarrow> call list \<Rightarrow> (api_error, unit) result \<Rightarrow> bool" where
  "committed n cur b mid r \<longleftrightarrow> (\<exists>node v t la.
     mid = [CGetNode n (Inr node), CPatchPod (PNamespace cur) (PName cur) [(CuAllocationKey, b)] la r]
     \<and> map_of (NAnnotations node) NodeLockKey = Some v
     \<and> ParseNodeLock v = Inr (t, PNamespace cur, PName cur))"

text \<open>The write was acknowledged, or the annotation was read back with the written value.\<close>

definition durable :: "Pod \<Rightarrow> string \<Rightarrow> (api_error, unit) result \<Rightarrow> call list \<Rightarrow> bool" where
  "durable cur b r post \<longleftrightarrow> r = Inr () \<or> (\<exists>pod' post'. post = CGetPod (PNamespace cur) (PName cur) (Inr pod') # post'
     \<and> annotation (PAnnotations pod') CuAllocationKey = b)"

definition needs_commit :: "cu_state \<Rightarrow> bool" where
  "needs_commit s \<longleftrightarrow> (\<exists>m. PodList s = Some m \<and> m \<noteq> [] \<and> SlicedCU s)"

definition failed_post :: "string \<Rightarrow> Pod \<Rightarrow> alloc_error \<Rightarrow> call list \<Rightarrow> bool" where
  "failed_post n cur e l \<longleftrightarrow> (\<exists>q fl. l = q @ fl \<and> quiet q \<and> failed_end n cur e fl)"

definition full :: "string \<Rightarrow> Pod \<Rightarrow> (alloc_error, 'a) result \<Rightarrow> call list \<Rightarrow> bool" where
  "full n cur r l \<longleftrightarrow> (\<exists>pre mid post. l = pre @ mid @ post \<and> quiet pre
     \<and> (mid = [] \<or> (\<exists>b pr. committed n cur b mid pr \<and> (\<forall>x. r = Inr x \<longrightarrow> durable cur b pr post)))
     \<and> (case r of Inr _ \<Rightarrow> quiet post | Inl e \<Rightarrow> failed_post n cur e post))"

lemma logs_validate:
  "logs (validateNodeLockOwner (logged a) n pod) (\<lambda>r l. \<exists>gr. l = [CGetNode n gr] \<and> (r = Inr () \<longrightarrow>
     (\<exists>node v t. gr = Inr node \<and> map_of (NAnnotations node) NodeLockKey = Some v
        \<and> ParseNodeLock v = Inr (t, PNamespace pod, PName pod))))"
  (is "logs _ ?Q")
proof -
  have get: "logs (try_io (getNode (logged a) n) (lift_io LockGetNode)) (\<lambda>r l. \<exists>gr. l = [CGetNode n gr]
      \<and> (\<forall>node. r = Inr node \<longrightarrow> gr = Inr node))"
    unfolding logged_simps by (rule logs_try [OF logs_call]) (rule logs_lift, auto split: sum.splits)
  show ?thesis
    unfolding validateNodeLockOwner_def
    by (rule logs_bind [OF get]) (auto intro!: logs_cases logs_throw logs_return)
qed

lemma quiet_reads: "logs m reads \<Longrightarrow> logs m (\<lambda>r l. quiet l)"
  by (erule logs_conseq) (simp add: reads_def read_quiet)

lemma logs_persisted:
  "logs (hasPersistedCUAllocation (logged a) pod b) (\<lambda>r l. \<exists>gr. l = [CGetPod (PNamespace pod) (PName pod) gr]
     \<and> (r = Inr True \<longrightarrow> (\<exists>pod'. gr = Inr pod' \<and> annotation (PAnnotations pod') CuAllocationKey = b)))"
  unfolding hasPersistedCUAllocation_def logged_simps
  by (rule logs_bind [OF logs_call]) (auto intro: logs_return)

definition persist_log :: "string \<Rightarrow> Pod \<Rightarrow> string \<Rightarrow> (alloc_error, unit) result \<Rightarrow> call list \<Rightarrow> bool" where
  "persist_log n cur b r l \<longleftrightarrow> (\<exists>la pr post. l = CPatchPod (PNamespace cur) (PName cur) [(CuAllocationKey, b)] la pr # post
     \<and> (case r of Inr _ \<Rightarrow> quiet post \<and> durable cur b pr post | Inl e \<Rightarrow> failed_post n cur e post))"

lemma logs_fail_post:
  "quiet q \<Longrightarrow> logs (fail_pod (logged_host h) n cur e) (\<lambda>r l. \<exists>e'. r = Inl e' \<and> failed_post n cur e' (q @ l))"
  by (rule logs_conseq [OF logs_fail_pod]) (auto simp: failed_post_def)

lemma logs_persist: "logs (persist (logged_host h) n cur b) (persist_log n cur b)"
proof -
  let ?P = "\<lambda>la pr. CPatchPod (PNamespace cur) (PName cur) [(CuAllocationKey, b)] la pr"
  have read_back: "logs (try_io (hasPersistedCUAllocation (logged (hostApi h)) cur b) (\<lambda>r2.
      case r2 of Inr True \<Rightarrow> return_io () | Inr False \<Rightarrow> fail_pod (logged_host h) n cur (APatch e None)
        | Inl e2 \<Rightarrow> fail_pod (logged_host h) n cur (APatch e (Some e2)))) (\<lambda>r' l'. persist_log n cur b r' (?P la pr # l'))"
    for e la pr
  proof (rule logs_try [OF logs_persisted])
    fix r2 :: "(api_error, bool) result" and l
    assume "\<exists>gr. l = [CGetPod (PNamespace cur) (PName cur) gr]
     \<and> (r2 = Inr True \<longrightarrow> (\<exists>pod'. gr = Inr pod' \<and> annotation (PAnnotations pod') CuAllocationKey = b))"
    then obtain gr where l: "l = [CGetPod (PNamespace cur) (PName cur) gr]"
      "r2 = Inr True \<longrightarrow> (\<exists>pod'. gr = Inr pod' \<and> annotation (PAnnotations pod') CuAllocationKey = b)" by blast
    have q: "quiet l" by (simp add: l)
    have fail: "logs (fail_pod (logged_host h) n cur e') (\<lambda>r' l'. persist_log n cur b r' (?P la pr # l @ l'))" for e'
      by (rule logs_conseq [OF logs_fail_post [OF q]]) (auto simp: persist_log_def)
    show "logs (case r2 of Inr True \<Rightarrow> return_io () | Inr False \<Rightarrow> fail_pod (logged_host h) n cur (APatch e None)
        | Inl e2 \<Rightarrow> fail_pod (logged_host h) n cur (APatch e (Some e2))) (\<lambda>r' l'. persist_log n cur b r' (?P la pr # l @ l'))"
      using l by (intro logs_cases logs_case_bool fail) (auto intro!: logs_return simp: persist_log_def durable_def)
  qed
  show ?thesis
    unfolding persist_def hostApi_logged
  proof (rule logs_try [OF logs_PatchPod])
    fix r :: "(kube_error, unit) result" and l
    assume "\<exists>la r'. l = [CPatchPod (PNamespace cur) (PName cur) [(CuAllocationKey, b)] la r'] \<and> (r = Inr () \<longleftrightarrow> r' = Inr ())
       \<and> (map_of [(CuAllocationKey, b)] AssignedNodeAnnotations = None \<longrightarrow> la = [])"
    then obtain la pr where l: "l = [?P la pr]" "r = Inr () \<longleftrightarrow> pr = Inr ()" by blast
    show "logs (case r of Inr _ \<Rightarrow> return_io ()
       | Inl e \<Rightarrow> try_io (hasPersistedCUAllocation (logged (hostApi h)) cur b) (\<lambda>r2.
             case r2 of Inr True \<Rightarrow> return_io () | Inr False \<Rightarrow> fail_pod (logged_host h) n cur (APatch e None)
             | Inl e2 \<Rightarrow> fail_pod (logged_host h) n cur (APatch e (Some e2)))) (\<lambda>r' l'. persist_log n cur b r' (l @ l'))"
      using l read_back by (intro logs_cases) (auto intro!: logs_return simp: persist_log_def durable_def)
  qed
qed

definition commit_log :: "string \<Rightarrow> Pod \<Rightarrow> cu_state \<Rightarrow> (alloc_error, unit) result \<Rightarrow> call list \<Rightarrow> bool" where
  "commit_log n cur s r l \<longleftrightarrow> (\<exists>mid post. l = mid @ post
     \<and> (mid = [] \<or> (\<exists>b pr. committed n cur b mid pr \<and> (\<forall>x. r = Inr x \<longrightarrow> durable cur b pr post)))
     \<and> (r = Inr () \<longrightarrow> needs_commit s \<longrightarrow> mid \<noteq> []) \<and> (\<not> needs_commit s \<longrightarrow> l = [])
     \<and> (case r of Inr _ \<Rightarrow> quiet post | Inl e \<Rightarrow> failed_post n cur e post))"

lemma logs_commit: "logs (commit (logged_host h) n cur s) (commit_log n cur s)"
proof -
  have ret: "\<not> needs_commit s \<Longrightarrow> logs (return_io ()) (commit_log n cur s)"
    by (rule logs_return) (simp add: commit_log_def)
  have "logs (try_io (validateNodeLockOwner (logged (hostApi h)) n cur) (\<lambda>r.
      case r of Inl e \<Rightarrow> fail_pod (logged_host h) n cur (ALock e)
        | Inr _ \<Rightarrow> persist (logged_host h) n cur b)) (commit_log n cur s)" if "needs_commit s" for b
  proof (rule logs_try [OF logs_validate])
    fix r :: "(lock_error, unit) result" and l
    assume "\<exists>gr. l = [CGetNode n gr] \<and> (r = Inr () \<longrightarrow> (\<exists>node v t. gr = Inr node
        \<and> map_of (NAnnotations node) NodeLockKey = Some v \<and> ParseNodeLock v = Inr (t, PNamespace cur, PName cur)))"
    then obtain gr where l: "l = [CGetNode n gr]" "r = Inr () \<longrightarrow> (\<exists>node v t. gr = Inr node
        \<and> map_of (NAnnotations node) NodeLockKey = Some v \<and> ParseNodeLock v = Inr (t, PNamespace cur, PName cur))"
      by blast
    have fail: "logs (fail_pod (logged_host h) n cur e) (\<lambda>r' l'. commit_log n cur s r' (l @ l'))" for e
    proof (rule logs_conseq [OF logs_fail_post [of l]])
      show "quiet l" by (simp add: l)
      fix r :: "(alloc_error, unit) result" and l'
      assume "\<exists>e'. r = Inl e' \<and> failed_post n cur e' (l @ l')"
      then show "commit_log n cur s r (l @ l')"
        unfolding commit_log_def using that by (intro exI [of _ "[]"] exI [of _ "l @ l'"]) auto
    qed
    have ok: "logs (persist (logged_host h) n cur b) (\<lambda>r' l'. commit_log n cur s r' (l @ l'))" if r: "r = Inr ()"
    proof (rule logs_conseq [OF logs_persist])
      fix r' l' assume "persist_log n cur b r' l'"
      then obtain la pr post where p: "l' = CPatchPod (PNamespace cur) (PName cur) [(CuAllocationKey, b)] la pr # post"
        "case r' of Inr _ \<Rightarrow> quiet post \<and> durable cur b pr post | Inl e \<Rightarrow> failed_post n cur e post"
        by (auto simp: persist_log_def)
      let ?mid = "l @ [CPatchPod (PNamespace cur) (PName cur) [(CuAllocationKey, b)] la pr]"
      have "committed n cur b ?mid pr" using l r by (auto simp: committed_def)
      then show "commit_log n cur s r' (l @ l')"
        unfolding commit_log_def using p \<open>needs_commit s\<close>
        by (intro exI [of _ ?mid] exI [of _ post]) (auto split: sum.splits)
    qed
    show "logs (case r of Inl e \<Rightarrow> fail_pod (logged_host h) n cur (ALock e)
        | Inr _ \<Rightarrow> persist (logged_host h) n cur b) (\<lambda>r' l'. commit_log n cur s r' (l @ l'))"
      by (intro logs_cases fail ok) auto
  qed
  then show ?thesis
    unfolding commit_def hostApi_logged
    by (intro logs_cases ret) (auto simp: needs_commit_def)
qed

section \<open>The whole handler\<close>

lemma full_prefix:
  assumes "quiet pre" "full n cur r l"
  shows "full n cur r (pre @ l)"
proof -
  obtain pre' mid post where p: "l = pre' @ mid @ post" "quiet pre'"
    "mid = [] \<or> (\<exists>b pr. committed n cur b mid pr \<and> (\<forall>x. r = Inr x \<longrightarrow> durable cur b pr post))"
    "case r of Inr _ \<Rightarrow> quiet post | Inl e \<Rightarrow> failed_post n cur e post"
    using assms(2) unfolding full_def by blast
  have "pre @ l = (pre @ pre') @ mid @ post" "quiet (pre @ pre')"
    using p(1,2) assms(1) by simp_all
  then show ?thesis unfolding full_def using p(3,4) by blast
qed

lemma full_bind:
  fixes m :: "('w \<times> call list, alloc_error, 'a) io" and f :: "'a \<Rightarrow> ('w \<times> call list, alloc_error, 'b) io"
  assumes "logs m (shape n cur)" "\<And>x. logs (f x) (full n cur)"
  shows "logs (bind_io m f) (full n cur)"
proof (rule logs_bind [OF assms(1)])
  fix x :: 'a and l assume "shape n cur (Inr x) l"
  then show "logs (f x) (\<lambda>r' l'. full n cur r' (l @ l'))"
    by (intro logs_conseq [OF assms(2)] full_prefix) simp_all
next
  fix e l assume "shape n cur (Inl e) l"
  then show "full n cur (Inl e) l"
    by (simp add: full_def failed_post_def) (metis append_Nil quiet_simps(1))
qed

lemma commit_full:
  assumes "commit_log n cur s r l"
  shows "full n cur r l"
proof -
  obtain mid post where "l = [] @ mid @ post" "quiet []"
    "mid = [] \<or> (\<exists>b pr. committed n cur b mid pr \<and> (\<forall>x. r = Inr x \<longrightarrow> durable cur b pr post))"
    "case r of Inr _ \<Rightarrow> quiet post | Inl e \<Rightarrow> failed_post n cur e post"
    using assms by (auto simp: commit_log_def)
  then show ?thesis unfolding full_def by blast
qed

lemma durable_append: "durable cur b r post \<Longrightarrow> durable cur b r (post @ post')"
  by (auto simp: durable_def)

lemma full_epilogue:
  fixes m :: "('w \<times> call list, alloc_error, 'a) io" and f :: "'a \<Rightarrow> ('w \<times> call list, alloc_error, 'b) io"
  assumes "logs m (full n cur)" "\<And>x. logs (f x) (\<lambda>r l. (\<exists>y. r = Inr y) \<and> quiet l)"
  shows "logs (bind_io m f) (full n cur)"
proof (rule logs_bind [OF assms(1)])
  fix x :: 'a and l assume f: "full n cur (Inr x) l"
  show "logs (f x) (\<lambda>r' l'. full n cur r' (l @ l'))"
  proof (rule logs_conseq [OF assms(2)])
    fix r :: "(alloc_error, 'b) result" and l' assume r: "(\<exists>y. r = Inr y) \<and> quiet l'"
    from f obtain pre mid post where "l = pre @ mid @ post" "quiet pre"
      "mid = [] \<or> (\<exists>b pr. committed n cur b mid pr \<and> durable cur b pr post)" "quiet post"
      using f by (simp add: full_def) blast
    then have "l @ l' = pre @ mid @ (post @ l')" "quiet pre"
      "mid = [] \<or> (\<exists>b pr. committed n cur b mid pr \<and> durable cur b pr (post @ l'))" "quiet (post @ l')"
      using r by (simp_all) (blast intro: durable_append)
    moreover obtain y where "r = Inr y" using r by blast
    ultimately show "full n cur r (l @ l')" unfolding full_def by (simp only: sum.case) blast
  qed
qed (auto simp: full_def)

lemma quiet_TrySuccess:
  "logs (PodAllocationTrySuccess (logged a) n pod) (\<lambda>r l. (\<exists>y. r = Inr y) \<and> quiet l)"
proof -
  have q: "logs (getPod (logged a) ns nm) (\<lambda>r l. quiet l)" for ns nm
    by (rule quiet_reads) (rule reads_calls)
  have succ: "quiet l \<Longrightarrow> logs (PodAllocationSuccess (logged a) n pod) (\<lambda>r l'. (\<exists>y. r = Inr y) \<and> quiet (l @ l'))" for l
    unfolding PodAllocationSuccess_def
    by (rule logs_conseq [OF logs_bind_phase]) (auto dest: bind_log_quiet simp: keys_distinct)
  show ?thesis
    unfolding PodAllocationTrySuccess_def
    by (rule logs_try [OF q]) (intro logs_cases succ logs_return; simp)
qed



lemma AGetPod_reads:
  "logs (current_pod (logged_host h) n) (\<lambda>r l. list_all is_read l \<and> (\<forall>e. r = Inl e \<longrightarrow> (\<exists>e'. e = AGetPod e')))"
  unfolding current_pod_def hostApi_logged
proof (rule logs_try [OF reads_GetPendingPod])
  fix r :: "(kube_error, Pod) result" and l
  assume "reads r l"
  then have "list_all is_read l" by (simp add: reads_def)
  then show "logs (case r of Inr pod \<Rightarrow> return_io (pod, True) | Inl (KNoPendingPod _) \<Rightarrow> return_io (emptyPod, False)
      | Inl e \<Rightarrow> throw_io (AGetPod e)) (\<lambda>r' l'. list_all is_read (l @ l') \<and> (\<forall>e. r' = Inl e \<longrightarrow> (\<exists>e'. e = AGetPod e')))"
    by (auto intro!: logs_return logs_throw split: sum.split kube_error.split)
qed

lemma shape_rebuild:
  "logs (try_io (rebuildCUAllocations p (logged (hostApi h)) n)
     (\<lambda>r. case r of Inl e \<Rightarrow> fail_pod (logged_host h) n cur (ARebuild e) | Inr x \<Rightarrow> return_io x)) (shape n cur)"
proof (rule shape_try)
  show "logs (rebuildCUAllocations p (logged (hostApi h)) n) (\<lambda>r l. quiet l)"
    unfolding rebuildCUAllocations_def by (intro quiet_reads reads_rules)
qed (intro shape_rules)

lemma logs_after_pod:
  "logs (bind_io (or_fail (logged_host h) n cur (existing_list cur)) (\<lambda>pcu.
     bind_io (try_io (rebuildCUAllocations p (logged (hostApi h)) n) (\<lambda>r.
                case r of Inl e \<Rightarrow> fail_pod (logged_host h) n cur (ARebuild e) | Inr x \<Rightarrow> return_io x)) (\<lambda>snapshot.
     bind_io (containers_loop p fs (logged_host h) n hook (cur, tracked) reqs
                \<lparr>Snapshot = snapshot, PodList = pcu, SlicedCU = False, HsaSets = []\<rparr>) (\<lambda>(cars, s).
     bind_io (commit (logged_host h) n cur s) (\<lambda>_.
     bind_io (if tracked then PodAllocationTrySuccess (logged (hostApi h)) n cur else return_io ()) (\<lambda>_.
     return_io cars)))))) (full n cur)"
  (is "logs (bind_io _ (\<lambda>pcu. bind_io _ (\<lambda>snapshot. bind_io _ (\<lambda>(cars, s). ?commit cars s)))) _")
proof -
  have fin: "logs (?commit cars s) (full n cur)" for cars s
  proof (rule full_epilogue [OF logs_conseq [OF logs_commit commit_full]])
    show "logs (bind_io (if tracked then PodAllocationTrySuccess (logged (hostApi h)) n cur else return_io ())
        (\<lambda>_. return_io cars)) (\<lambda>r l. (\<exists>y. r = Inr y) \<and> quiet l)"
    proof (rule logs_bind)
      show "logs (if tracked then PodAllocationTrySuccess (logged (hostApi h)) n cur else return_io ())
          (\<lambda>r l. (\<exists>y. r = Inr y) \<and> quiet l)"
        by (intro logs_if quiet_TrySuccess logs_return) simp
    qed (auto intro!: logs_return)
  qed
  then show ?thesis
    by (intro fin full_bind shape_or_fail shape_rebuild shape_containers_loop logs_case_prod)
qed

text \<open>A run that knows the pod: reads, then the rest of the handler for that pod.\<close>

lemma Allocate_run:
  assumes "run_logged (Allocate p fs (logged_host h) n hook reqs) w = (r, l)"
  shows "(\<exists>e. fst (current_pod (logged_host h) n (w, [])) = Inl (AGetPod e) \<and> r = Inl (AGetPod e) \<and> list_all is_read l)
    \<or> (\<exists>cur tracked l1 l2. fst (current_pod (logged_host h) n (w, [])) = Inr (cur, tracked) \<and> l = l1 @ l2
        \<and> list_all is_read l1 \<and> full n cur r l2)"
proof -
  let ?rest = "\<lambda>(cur, tracked). bind_io (or_fail (logged_host h) n cur (existing_list cur)) (\<lambda>pcu.
     bind_io (try_io (rebuildCUAllocations p (logged (hostApi h)) n) (\<lambda>r.
                case r of Inl e \<Rightarrow> fail_pod (logged_host h) n cur (ARebuild e) | Inr x \<Rightarrow> return_io x)) (\<lambda>snapshot.
     bind_io (containers_loop p fs (logged_host h) n hook (cur, tracked) reqs
                \<lparr>Snapshot = snapshot, PodList = pcu, SlicedCU = False, HsaSets = []\<rparr>) (\<lambda>(cars, s).
     bind_io (commit (logged_host h) n cur s) (\<lambda>_.
     bind_io (if tracked then PodAllocationTrySuccess (logged (hostApi h)) n cur else return_io ()) (\<lambda>_.
     return_io cars)))))"
  have split: "Allocate p fs (logged_host h) n hook reqs = bind_io (current_pod (logged_host h) n) ?rest"
    unfolding Allocate_def hostApi_logged by (rule arg_cong [where f = "bind_io _"]) (auto simp: fun_eq_iff)
  obtain r1 l1 w1 where c: "current_pod (logged_host h) n (w, []) = (r1, (w1, [] @ l1))"
    "list_all is_read l1" "\<forall>e. r1 = Inl e \<longrightarrow> (\<exists>e'. e = AGetPod e')"
    by (rule logsE [OF AGetPod_reads [of h n], where w = w and l = "[]"]) auto
  show ?thesis
  proof (cases r1)
    case (Inl e)
    with c obtain e' where "e = AGetPod e'" by blast
    with Inl c assms show ?thesis by (auto simp: split run_logged_def bind_io_run)
  next
    case (Inr x)
    obtain cur tracked where x: "x = (cur, tracked)" by (cases x)
    have "logs (?rest (cur, tracked)) (full n cur)"
      unfolding case_prod_conv by (rule logs_after_pod)
    then obtain r2 l2 w2 where d: "?rest (cur, tracked) (w1, l1) = (r2, (w2, l1 @ l2))" "full n cur r2 l2"
      by (rule logsE [where w = w1 and l = l1]) (rule that)
    have "Allocate p fs (logged_host h) n hook reqs (w, []) = (r2, (w2, l1 @ l2))"
      using c(1) d(1) by (simp add: split bind_io_run Inr x)
    then have "r = r2" "l = l1 @ l2" using assms by (simp_all add: run_logged_def)
    with c d(2) Inr x show ?thesis by auto
  qed
qed

lemma failed_post_commits: "failed_post n cur e l \<Longrightarrow> list_all (\<lambda>c. \<not> is_commit c) l"
proof -
  have "attempt_log n cur False seg \<Longrightarrow> list_all (\<lambda>c. \<not> is_commit c) seg" for seg
    using attempt_quiet by (auto simp: quiet_def list_all_iff)
  then have "(\<forall>x \<in> set ats. attempt_log n cur False x) \<Longrightarrow> x \<in> set ats \<Longrightarrow> c \<in> set x \<Longrightarrow> \<not> is_commit c" for ats x c
    by (auto simp: list_all_iff)
  then show "failed_post n cur e l \<Longrightarrow> list_all (\<lambda>c. \<not> is_commit c) l"
    by (auto simp: failed_post_def failed_end_def bind_log_def release_log_def quiet_def list_all_iff keys_distinct
        split: if_splits)
qed

lemma quiet_commits: "quiet l \<Longrightarrow> list_all (\<lambda>c. \<not> is_commit c) l"
  by (auto simp: quiet_def list_all_iff)

lemma full_commits:
  assumes "full n cur r l" "l = pre @ c # post" "is_commit c"
  shows "\<exists>pre' b pr la node v t. pre = pre' @ [CGetNode n (Inr node)]
     \<and> map_of (NAnnotations node) NodeLockKey = Some v \<and> ParseNodeLock v = Inr (t, PNamespace cur, PName cur)
     \<and> c = CPatchPod (PNamespace cur) (PName cur) [(CuAllocationKey, b)] la pr
     \<and> list_all (\<lambda>c. \<not> is_commit c) (pre @ post) \<and> (\<forall>x. r = Inr x \<longrightarrow> durable cur b pr post)"
proof -
  obtain p1 mid p2 where m: "l = p1 @ mid @ p2" "quiet p1"
    "mid = [] \<or> (\<exists>b pr. committed n cur b mid pr \<and> (\<forall>x. r = Inr x \<longrightarrow> durable cur b pr p2))"
    "case r of Inr _ \<Rightarrow> quiet p2 | Inl e \<Rightarrow> failed_post n cur e p2"
    using assms(1) unfolding full_def by blast
  have p2: "list_all (\<lambda>c. \<not> is_commit c) p2"
    using m(4) quiet_commits failed_post_commits by (cases r) auto
  have p1: "list_all (\<lambda>c. \<not> is_commit c) p1" using quiet_commits [OF m(2)] .
  have cl: "c \<in> set l" using assms(2) by simp
  show ?thesis
  proof (cases "mid = []")
    case True
    with m(1) p1 p2 cl assms(3) show ?thesis by (auto simp: list_all_iff)
  next
    case False
    then obtain b pr node v t la where b: "mid = [CGetNode n (Inr node), CPatchPod (PNamespace cur) (PName cur) [(CuAllocationKey, b)] la pr]"
      "map_of (NAnnotations node) NodeLockKey = Some v" "ParseNodeLock v = Inr (t, PNamespace cur, PName cur)"
      "\<forall>x. r = Inr x \<longrightarrow> durable cur b pr p2"
      using m(3) unfolding committed_def by blast
    let ?c = "CPatchPod (PNamespace cur) (PName cur) [(CuAllocationKey, b)] la pr"
    have eq: "pre @ c # post = (p1 @ [CGetNode n (Inr node)]) @ ?c # p2" using m(1) assms(2) b(1) by simp
    have no: "list_all (\<lambda>c. \<not> is_commit c) (p1 @ [CGetNode n (Inr node)])" using p1 by simp
    have "pre = p1 @ [CGetNode n (Inr node)] \<and> c = ?c \<and> post = p2"
    proof -
      have "?thesis" if "pre = (p1 @ [CGetNode n (Inr node)]) @ us" "us @ c # post = ?c # p2" for us
        using that p2 assms(3) by (cases us) (auto simp: list_all_iff)
      moreover have "?thesis" if "pre @ us = p1 @ [CGetNode n (Inr node)]" "c # post = us @ ?c # p2" for us
      proof (cases us)
        case (Cons a us')
        then have "a = c" using that(2) by simp
        then have "c \<in> set (p1 @ [CGetNode n (Inr node)])" using that(1) Cons by (metis in_set_conv_decomp)
        then show ?thesis using no assms(3) by (auto simp: list_all_iff)
      qed (use that in auto)
      ultimately show ?thesis using eq unfolding append_eq_append_conv2 by blast
    qed
    with b p1 p2 show ?thesis by auto
  qed
qed

end
