(* ===== verification/AllocateRuns.thy ===== *)
theory AllocateRuns
  imports AllocateLog
begin

text \<open>
  Whole runs of \<open>Allocate\<close>: what is promised about the requests a run sends, and concrete runs on
  a host whose node is locked for the pod, which show that the promises are met by real runs.
\<close>

section \<open>A concrete run\<close>

lemma assigned_distinct: "CuAllocationKey \<noteq> AssignedNodeAnnotations" "DeviceToAllocate \<noteq> AssignedNodeAnnotations"
  "AssignedNodeAnnotations \<noteq> CuAllocationKey" "AssignedNodeAnnotations \<noteq> DeviceToAllocate"
  by (simp_all add: AssignedNodeAnnotations_def CuAllocationKey_def DeviceToAllocate_def)

lemma InRequest_amd: "map_of InRequestDevices ''amd'' = Some DeviceToAllocate"
  by (simp add: InRequestDevices_def)

definition sample_lock :: string where "sample_lock = ''2026-10-13T08:30:00Z,ns,p''"

definition locked_node :: Node where "locked_node = sample_node [(NodeLockKey, sample_lock)]"

definition locked_host :: "Pod list \<Rightarrow> unit host" where
  "locked_host pods = (quiet_host pods)\<lparr>hostApi := fixed_api locked_node pods\<rparr>"

lemma sample_lock_parse: "\<exists>t. ParseNodeLock sample_lock = Inr (t, ''ns'', ''p'')"
  by (simp add: sample_lock_def ParseNodeLock_def NodeLockSep_def time_parse_eval)

lemma locked_node_lock: "map_of (NAnnotations locked_node) NodeLockKey = Some sample_lock"
  by (simp add: locked_node_def sample_node_def)

lemma locked_api [simp]:
  "getNode (hostApi (locked_host pods)) n w = (Inr locked_node, w)"
  "listPods (hostApi (locked_host pods)) n w = (Inr pods, w)"
  "getPod (hostApi (locked_host pods)) ns n w =
     (case find (\<lambda>p. PNamespace p = ns \<and> PName p = n) pods of None \<Rightarrow> Inl NotFound | Some p \<Rightarrow> Inr p, w)"
  "patchPod (hostApi (locked_host pods)) ns n an la w = (Inr (), w)"
  "patchNode (hostApi (locked_host pods)) n rv pa w = (Inr (), w)"
  by (simp_all add: locked_host_def fixed_api_def)

text \<open>The pod the lock names is found.\<close>

lemma sample_current_pod:
  assumes "find (\<lambda>p. PNamespace p = ''ns'' \<and> PName p = ''p'') pods = Some pod"
  shows "current_pod (logged_host (locked_host pods)) n ((), l) =
    (Inr (pod, True), ((), l @ [CGetNode n (Inr locked_node), CGetPod ''ns'' ''p'' (Inr pod)]))"
proof -
  obtain t where t: "ParseNodeLock sample_lock = Inr (t, ''ns'', ''p'')" using sample_lock_parse by blast
  show ?thesis
    by (simp add: current_pod_def GetPendingPod_def GetAllocatePodByNode_def bind_io_run try_io_run
        locked_node_lock t assms)
qed

lemma slice_pod_fields [simp]:
  "PNamespace slice_pod = ''ns''" "PName slice_pod = ''p''" "\<not> IsPodInTerminatedState slice_pod"
  "map_of (PAnnotations slice_pod) DeviceToAllocate = Some (EncodePodSingleDevice [[], [slice_dev]])"
  by (simp_all add: slice_pod_def sample_pod_def IsPodInTerminatedState_def)

lemma slice_pod_decode: "DecodePodDevices InRequestDevices (PAnnotations slice_pod) = Inr [(''amd'', [[], [slice_dev]])]"
proof -
  have "wf_device slice_dev" by (simp add: wf_device_def sep_free_def int32_range_def slice_dev_def)
  then show ?thesis by (intro Decode_EncodePodSingleDevice) auto
qed

lemma slice_pod_request: "GetNextDeviceRequest ''amd'' slice_pod = Inr (\<lparr>CName = ''a'', Image = ''img''\<rparr>, [slice_dev])"
  by (simp add: GetNextDeviceRequest_def slice_pod_decode) (simp add: slice_pod_def sample_pod_def)

lemma sample_logged_request:
  "\<exists>v. device_request (logged_host (locked_host pods)) n slice_pod [kid] ((), l) =
    (Inr (\<lparr>CName = ''a'', Image = ''img''\<rparr>, [slice_dev]),
      ((), l @ [CPatchPod ''ns'' ''p'' [(DeviceToAllocate, v)] [] (Inr ())]))"
  by (simp add: device_request_def slice_pod_request try_io_run EraseNextDeviceTypeFromAnnotation_def
      slice_pod_decode PatchPodAnnotations_def InRequest_amd assigned_distinct)

lemma sample_logged_containers:
  "\<exists>cars v. containers_loop (sample_plugin mode) (\<lambda>_. None) (logged_host (locked_host pods)) n hook (slice_pod, tracked)
      [[kid]] held_state ((), l) = (Inr (cars,
        \<lparr>Snapshot = [(''smi-1'', [0b111111])], PodList = Some [(''smi-1'', ''4-5'')], SlicedCU = True, HsaSets = [''0:4-5'']\<rparr>),
        ((), l @ [CPatchPod ''ns'' ''p'' [(DeviceToAllocate, v)] [] (Inr ())]))"
proof -
  obtain nodes where nodes: "traverse (device_nodes_of (sample_plugin mode) (\<lambda>_. None)) [slice_dev] = Inr nodes"
    using sample_nodes by blast
  obtain v where v: "device_request (logged_host (locked_host pods)) n slice_pod [kid] ((), l) =
    (Inr (\<lparr>CName = ''a'', Image = ''img''\<rparr>, [slice_dev]),
      ((), l @ [CPatchPod ''ns'' ''p'' [(DeviceToAllocate, v)] [] (Inr ())]))"
    using sample_logged_request by blast
  have hs: "held_state\<lparr>HsaSets := []\<rparr> = held_state" by (simp add: held_state_def)
  have flags: "\<not> libcheckEnabled (sample_plugin mode)" "\<not> dmemEnabled (sample_plugin mode)"
    by (simp_all add: sample_plugin_def)
  show ?thesis
    by (simp add: bind_io_run container_step_def v or_fail_def nodes hs sample_cu_loop Let_def
        hook_part_def sample_slice audit_check_def flags del: cu_loop.simps traverse.simps)
qed

lemma sample_rebuild:
  "buildCUAllocations (sample_plugin mode) [cu_pod ''a'' ''0-3'', slice_pod] = Inr [(''smi-1'', [0b1111])]"
proof -
  have "has_cus slice_pod = False"
    by (simp add: has_cus_def slice_pod_def sample_pod_def annotation_def DeviceToAllocate_def CuAllocationKey_def)
  then show ?thesis
    by (simp add: buildCUAllocations_def cu_pod_eval add_device_def sample_total init_device_def merge_device_def
        NewAllocation_def wordsFor_def upt_rec isSet_def AddAllocation_def)
qed

lemma slice_pod_existing: "existing_list slice_pod = Inr (Some [])"
  by (simp add: existing_list_def slice_pod_def sample_pod_def annotation_def DeviceToAllocate_def CuAllocationKey_def)

definition sample_pods :: "Pod list" where "sample_pods = [cu_pod ''a'' ''0-3'', slice_pod]"

lemma sample_pods_find: "find (\<lambda>p. PNamespace p = ''ns'' \<and> PName p = ''p'') sample_pods = Some slice_pod"
  by (simp add: sample_pods_def cu_pod_def sample_pod_def)

lemma sample_commit:
  assumes "PodList s = Some [(''smi-1'', ''4-5'')]" "SlicedCU s"
  shows "commit (logged_host (locked_host pods)) n slice_pod s ((), l) = (Inr (), ((), l @ [CGetNode n (Inr locked_node),
     CPatchPod ''ns'' ''p'' [(CuAllocationKey, json_marshal [(''smi-1'', ''4-5'')])] [] (Inr ())]))"
proof -
  obtain t where t: "ParseNodeLock sample_lock = Inr (t, ''ns'', ''p'')" using sample_lock_parse by blast
  show ?thesis
    by (simp add: commit_def assms try_io_run validateNodeLockOwner_def bind_io_run locked_node_lock t persist_def
        PatchPodAnnotations_def assigned_distinct)
qed

lemma sample_try_success:
  "PodAllocationTrySuccess (logged (hostApi (locked_host sample_pods))) n slice_pod ((), l)
     = (Inr (), ((), l @ [CGetPod ''ns'' ''p'' (Inr slice_pod)]))"
  by (simp add: PodAllocationTrySuccess_def try_io_run sample_pods_find slice_pod_decode)

text \<open>The pod is found through the lock, its slot is erased, four CUs of another pod are respected, the
  list is committed under the lock; the pod read back still has a slot to serve, so the lock is kept.\<close>

lemma sample_Allocate:
  "\<exists>cars v. run_logged (Allocate (sample_plugin mode) (\<lambda>_. None) (logged_host (locked_host sample_pods)) n hook [[kid]]) ()
     = (Inr cars, [CGetNode n (Inr locked_node), CGetPod ''ns'' ''p'' (Inr slice_pod),
         CListPods n (Inr sample_pods),
         CPatchPod ''ns'' ''p'' [(DeviceToAllocate, v)] [] (Inr ()),
         CGetNode n (Inr locked_node),
         CPatchPod ''ns'' ''p'' [(CuAllocationKey, json_marshal [(''smi-1'', ''4-5'')])] [] (Inr ()),
         CGetPod ''ns'' ''p'' (Inr slice_pod)])"
proof -
  let ?l = "[CGetNode n (Inr locked_node), CGetPod ''ns'' ''p'' (Inr slice_pod), CListPods n (Inr sample_pods)]"
  obtain cars v where c: "containers_loop (sample_plugin mode) (\<lambda>_. None) (logged_host (locked_host sample_pods)) n hook
      (slice_pod, True) [[kid]] held_state ((), ?l) = (Inr (cars,
        \<lparr>Snapshot = [(''smi-1'', [0b111111])], PodList = Some [(''smi-1'', ''4-5'')], SlicedCU = True, HsaSets = [''0:4-5'']\<rparr>),
        ((), ?l @ [CPatchPod ''ns'' ''p'' [(DeviceToAllocate, v)] [] (Inr ())]))"
    using sample_logged_containers by blast
  have b: "buildCUAllocations (sample_plugin mode) sample_pods = Inr [(''smi-1'', [0b1111])]"
    by (simp add: sample_pods_def sample_rebuild)
  show ?thesis
    by (simp add: run_logged_def Allocate_def bind_io_run sample_current_pod [OF sample_pods_find] or_fail_def
        slice_pod_existing rebuildCUAllocations_def try_io_run b c [unfolded held_state_def]
        sample_commit sample_try_success del: containers_loop.simps)
qed

section \<open>Reports of failure\<close>

lemma quiet_failed: "quiet l \<Longrightarrow> \<not> list_ex is_failed l"
  by (auto simp: quiet_def list_all_iff list_ex_iff)

lemma full_failed:
  assumes "full n cur r l"
  shows "case r of Inr _ \<Rightarrow> \<not> list_ex is_failed l
    | Inl e \<Rightarrow> (if e = APanic then \<not> list_ex is_failed l
        else \<exists>pre ans rl. l = pre @ CPatchPod (PNamespace cur) (PName cur) [(DeviceBindPhase, DeviceBindFailed)] [] ans # rl
          \<and> \<not> list_ex is_failed pre \<and> release_log n cur rl)"
proof -
  obtain p1 mid p2 where m: "l = p1 @ mid @ p2" "quiet p1"
    "mid = [] \<or> (\<exists>b pr. committed n cur b mid pr \<and> (\<forall>x. r = Inr x \<longrightarrow> durable cur b pr p2))"
    "case r of Inr _ \<Rightarrow> quiet p2 | Inl e \<Rightarrow> failed_post n cur e p2"
    using assms unfolding full_def by blast
  have mid: "\<not> list_ex is_failed mid" using m(3) by (auto simp: committed_def keys_distinct)
  have p1: "\<not> list_ex is_failed p1" using m(2) by (rule quiet_failed)
  show ?thesis
  proof (cases r)
    case (Inr x)
    then show ?thesis using m mid p1 quiet_failed by auto
  next
    case (Inl e)
    then obtain q fl where q: "p2 = q @ fl" "quiet q" "failed_end n cur e fl"
      using m(4) by (auto simp: failed_post_def)
    show ?thesis
    proof (cases "e = APanic")
      case True
      then show ?thesis using Inl q m(1) mid p1 quiet_failed [OF q(2)] by (simp add: failed_end_def)
    next
      case False
      with q(3) obtain ans rl where b: "fl = CPatchPod (PNamespace cur) (PName cur) [(DeviceBindPhase, DeviceBindFailed)] [] ans # rl"
        "release_log n cur rl" by (auto simp: failed_end_def bind_log_def)
      have "l = (p1 @ mid @ q) @ CPatchPod (PNamespace cur) (PName cur) [(DeviceBindPhase, DeviceBindFailed)] [] ans # rl"
        "\<not> list_ex is_failed (p1 @ mid @ q)"
        using m(1) q(1) b(1) mid p1 quiet_failed [OF q(2)] by simp_all
      then have "\<exists>pre ans rl. l = pre @ CPatchPod (PNamespace cur) (PName cur) [(DeviceBindPhase, DeviceBindFailed)] [] ans # rl
          \<and> \<not> list_ex is_failed pre \<and> release_log n cur rl" using b(2) by blast
      then show ?thesis using Inl False by simp
    qed
  qed
qed

section \<open>Requests of pods HAMi does not track\<close>

lemma emptyPod_request: "device_request h n emptyPod ids = return_io (emptyContainer, fallback_request ids)"
  by (simp add: device_request_def GetNextDeviceRequest_def DecodePodDevices_def emptyPod_def)

lemma fallback_whole:
  assumes "getDeviceTotalCUs p kid = Inr n" "0 \<le> n"
  shows "isWholeGPU p [\<lparr>UUID = kid, DType = ty, Usedmem = 0, Usedcores = 0\<rparr>]"
  using assms by (auto simp: getDeviceTotalCUs_def isWholeGPU_def slice_of_def split: option.splits)

lemma cu_step_fallback:
  assumes "cu_step p fs i \<lparr>UUID = kid, DType = ty, Usedmem = 0, Usedcores = 0\<rparr> s = Inr s'"
  shows "SlicedCU s' = SlicedCU s" "isWholeGPU p [\<lparr>UUID = kid, DType = ty, Usedmem = 0, Usedcores = 0\<rparr>]"
proof -
  let ?d = "\<lparr>UUID = kid, DType = ty, Usedmem = 0, Usedcores = 0\<rparr>"
  obtain n where n: "getDeviceTotalCUs p kid = Inr n"
    using assms by (auto simp: cu_step_def split: sum.splits)
  then show w: "isWholeGPU p [?d]"
    by (auto simp: getDeviceTotalCUs_def isWholeGPU_def slice_of_def split: option.splits)
  have "base_allocation kid n s = Inr (b, s1) \<Longrightarrow> SlicedCU s1 = SlicedCU s" for b s1
    by (auto simp: base_allocation_def split: option.splits sum.splits)
  then show "SlicedCU s' = SlicedCU s"
    using assms w by (auto simp: cu_step_def n take_cus_def split: sum.splits prod.splits option.splits)
qed

lemma cu_loop_fallback:
  assumes "cu_loop p fs i (fallback_request ids) s = Inr s'"
  shows "SlicedCU s' = SlicedCU s \<and> isWholeGPU p (fallback_request ids)"
  using assms
proof (induction ids arbitrary: i s)
  case (Cons kid ids)
  then obtain s1 where s1: "cu_step p fs i \<lparr>UUID = kid, DType = ''AMDGPU'', Usedmem = 0, Usedcores = 0\<rparr> s = Inr s1"
    "cu_loop p fs (Suc i) (fallback_request ids) s1 = Inr s'"
    by (auto simp: fallback_request_def split: sum.splits)
  from cu_step_fallback [OF s1(1)] Cons.IH [OF s1(2)]
  show ?case by (simp add: fallback_request_def isWholeGPU_def)
qed (simp add: fallback_request_def isWholeGPU_def)

lemma container_step_untracked:
  assumes "container_step p fs h n hook (emptyPod, tracked) ids s w = (Inr (car, s'), w')"
  shows "w' = w \<and> SlicedCU s' = SlicedCU s"
  using assms
  by (auto simp: container_step_def Let_def bind_io_Inr or_fail_Inr emptyPod_request hook_part_def
      dest!: cu_loop_fallback split: if_splits)

lemma commit_unsliced: "\<not> SlicedCU s \<Longrightarrow> commit h n cur s = return_io ()"
  by (simp add: commit_def split: option.split)

lemma containers_loop_untracked:
  assumes "containers_loop p fs h n hook (emptyPod, tracked) reqs s w = (Inr (cars, s'), w')"
  shows "w' = w \<and> SlicedCU s' = SlicedCU s"
  using assms
proof (induction reqs arbitrary: s w cars w')
  case (Cons ids reqs)
  then obtain car s1 w1 cars' w2 where
    1: "container_step p fs h n hook (emptyPod, tracked) ids s w = (Inr (car, s1), w1)"
      "containers_loop p fs h n hook (emptyPod, tracked) reqs s1 w1 = (Inr (cars', s'), w')"
    by (auto simp: bind_io_Inr)
  from container_step_untracked [OF 1(1)] Cons.IH [OF 1(2)] show ?case by simp
qed simp

section \<open>Properties\<close>

text \<open>C3: CU lists are committed only under the node lock. In every run of Allocate, whatever the API
  server answers and however the cluster changes between the calls: a request that writes a CU list is
  the only one of the run, it follows immediately on a read of the node whose lock names the very pod
  that is patched, and if the run then succeeds the write was acknowledged or read back from the pod.\<close>

theorem commit_only_under_lock:
  assumes "run_logged (Allocate p fs (logged_host h) n hook reqs) w = (r, l)"
    and "l = pre @ c # post" and "is_commit c"
  shows "\<exists>pre' node v t ns name b la ans. pre = pre' @ [CGetNode n (Inr node)]
    \<and> map_of (NAnnotations node) NodeLockKey = Some v \<and> ParseNodeLock v = Inr (t, ns, name)
    \<and> c = CPatchPod ns name [(CuAllocationKey, b)] la ans
    \<and> list_all (\<lambda>c. \<not> is_commit c) (pre @ post)
    \<and> (\<forall>x. r = Inr x \<longrightarrow> ans = Inr () \<or> (\<exists>pod post'. post = CGetPod ns name (Inr pod) # post'
        \<and> annotation (PAnnotations pod) CuAllocationKey = b))"
proof -
  have reads: "list_all is_read l' \<Longrightarrow> \<not> is_commit x" if "x \<in> set l'" for l' x
    using that read_quiet [of l'] by (auto simp: quiet_def list_all_iff)
  from Allocate_run [OF assms(1)] obtain cur l1 l2 where run: "l = l1 @ l2" "list_all is_read l1" "full n cur r l2"
    using reads [of c l] assms(2,3) by auto
  have "c \<notin> set l1" using reads run(2) assms(3) by blast
  then obtain pre2 where pre: "pre = l1 @ pre2" "l2 = pre2 @ c # post"
    using run(1) assms(2) by (auto simp: append_eq_append_conv2 append_eq_Cons_conv Cons_eq_append_conv)
  have "list_all (\<lambda>c. \<not> is_commit c) l1" using reads run(2) by (auto simp: list_all_iff)
  with full_commits [OF run(3) pre(2) assms(3)] pre(1) show ?thesis
    unfolding durable_def by (fastforce simp: list_all_append)
qed

theorem commit_only_under_lock_witness:
  "\<exists>cars l pre post. run_logged (Allocate (sample_plugin ''cu'') (\<lambda>_. None) (logged_host (locked_host sample_pods)) ''n1'' []
      [[''0000:03:00.0#0'']]) () = (Inr cars, l)
    \<and> l = pre @ CPatchPod ''ns'' ''p'' [(CuAllocationKey, json_marshal [(''smi-1'', ''4-5'')])] [] (Inr ()) # post
    \<and> (\<exists>pre' node. pre = pre' @ [CGetNode ''n1'' (Inr node)]) \<and> list_all (\<lambda>c. \<not> is_commit c) (pre @ post)"
proof -
  let ?c = "CPatchPod ''ns'' ''p'' [(CuAllocationKey, json_marshal [(''smi-1'', ''4-5'')])] [] (Inr ())"
  obtain cars v where run: "run_logged (Allocate (sample_plugin ''cu'') (\<lambda>_. None) (logged_host (locked_host sample_pods)) ''n1'' []
      [[''0000:03:00.0#0'']]) () = (Inr cars, ([CGetNode ''n1'' (Inr locked_node), CGetPod ''ns'' ''p'' (Inr slice_pod),
         CListPods ''n1'' (Inr sample_pods), CPatchPod ''ns'' ''p'' [(DeviceToAllocate, v)] [] (Inr ()),
         CGetNode ''n1'' (Inr locked_node)]) @ ?c # [CGetPod ''ns'' ''p'' (Inr slice_pod)])"
    using sample_Allocate [of "''cu''" "''n1''" "[]" "''0000:03:00.0#0''"] by auto
  have "is_commit ?c" by simp
  from commit_only_under_lock [OF run refl this] run show ?thesis by fast
qed

text \<open>C4: failures are reported, and only failures. A run of Allocate that knows its pod ends, when it
  returns an error, by setting the pod's bind phase to failed and then releasing the node lock in at
  most five attempts, each of which only removes a lock that names the pod; before that it reports
  nothing, and a run that succeeds (or panics on the nil map) never reports a failure.\<close>

theorem failure_reported:
  assumes "run_logged (Allocate p fs (logged_host h) n hook reqs) w = (r, l)"
    and "fst (current_pod (logged_host h) n (w, [])) = Inr (cur, tracked)"
  shows "case r of
      Inr _ \<Rightarrow> \<not> list_ex is_failed l
    | Inl e \<Rightarrow> (if e = APanic then \<not> list_ex is_failed l
        else \<exists>pre ans ats. l = pre @ CPatchPod (PNamespace cur) (PName cur) [(DeviceBindPhase, DeviceBindFailed)] [] ans # concat ats
          \<and> \<not> list_ex is_failed pre \<and> ats \<noteq> [] \<and> length ats \<le> 5 \<and> (\<forall>seg \<in> set ats. attempt_log n cur False seg))"
proof -
  obtain l1 l2 where run: "l = l1 @ l2" "list_all is_read l1" "full n cur r l2"
    using Allocate_run [OF assms(1)] assms(2) by auto
  have l1: "\<not> list_ex is_failed l1" using quiet_failed [OF read_quiet [OF run(2)]] .
  show ?thesis
  proof (cases r)
    case (Inr x)
    with full_failed [OF run(3)] l1 run(1) show ?thesis by simp
  next
    case (Inl e)
    show ?thesis
    proof (cases "e = APanic")
      case True
      with full_failed [OF run(3)] l1 run(1) Inl show ?thesis by simp
    next
      case False
      with full_failed [OF run(3)] Inl obtain pre ans rl where f:
        "l2 = pre @ CPatchPod (PNamespace cur) (PName cur) [(DeviceBindPhase, DeviceBindFailed)] [] ans # rl"
        "\<not> list_ex is_failed pre" "release_log n cur rl" by auto
      from f(3) obtain ats where ats: "rl = concat ats" "ats \<noteq> []" "length ats \<le> 5"
        "\<forall>seg \<in> set ats. attempt_log n cur False seg" by (auto simp: release_log_def)
      have "l = (l1 @ pre) @ CPatchPod (PNamespace cur) (PName cur) [(DeviceBindPhase, DeviceBindFailed)] [] ans # concat ats"
        "\<not> list_ex is_failed (l1 @ pre)"
        using run(1) f(1,2) l1 ats(1) by simp_all
      then have "\<exists>pre ans ats. l = pre @ CPatchPod (PNamespace cur) (PName cur) [(DeviceBindPhase, DeviceBindFailed)] [] ans # concat ats
          \<and> \<not> list_ex is_failed pre \<and> ats \<noteq> [] \<and> length ats \<le> 5 \<and> (\<forall>seg \<in> set ats. attempt_log n cur False seg)"
        using ats by blast
      then show ?thesis using Inl False by simp
    qed
  qed
qed

definition bad_pod :: Pod where
  "bad_pod = sample_pod ''p'' [(CuAllocationKey, ''x'')]"

lemma bad_pod_existing: "existing_list bad_pod = Inl (AParseExisting ''x'')"
  by (simp add: existing_list_def bad_pod_def sample_pod_def annotation_def json_eval)

theorem failure_reported_witness:
  "\<exists>l pre ans ats. run_logged (Allocate (sample_plugin ''cu'') (\<lambda>_. None) (logged_host (locked_host [bad_pod])) ''n1'' []
      [[''0000:03:00.0#0'']]) () = (Inl (AParseExisting ''x''), l)
    \<and> l = pre @ CPatchPod ''ns'' ''p'' [(DeviceBindPhase, DeviceBindFailed)] [] ans # concat ats \<and> ats \<noteq> []"
proof -
  let ?m = "Allocate (sample_plugin ''cu'') (\<lambda>_. None) (logged_host (locked_host [bad_pod])) ''n1'' [] [[''0000:03:00.0#0'']]"
  have find: "find (\<lambda>p. PNamespace p = ''ns'' \<and> PName p = ''p'') [bad_pod] = Some bad_pod"
    by (simp add: bad_pod_def sample_pod_def)
  note cur = sample_current_pod [OF find, of "''n1''" "[]"]
  have "fst (run_logged ?m ()) = Inl (AParseExisting ''x'')"
    by (simp add: run_logged_def Allocate_def bind_io_run cur or_fail_def bad_pod_existing fail_pod_def
        PodAllocationFailed_def updatePodAnnotationsAndReleaseLock_def try_io_run split: prod.splits)
  then obtain l where l: "run_logged ?m () = (Inl (AParseExisting ''x''), l)" by (metis prod.collapse)
  have "PNamespace bad_pod = ''ns''" "PName bad_pod = ''p''" by (simp_all add: bad_pod_def sample_pod_def)
  with failure_reported [OF l, of bad_pod True] cur
  have "\<exists>pre ans ats. l = pre @ CPatchPod ''ns'' ''p'' [(DeviceBindPhase, DeviceBindFailed)] [] ans # concat ats \<and> ats \<noteq> []"
    by auto
  with l show ?thesis by blast
qed

text \<open>C9: a pod HAMi does not track is served without a trace: when no pending pod is found and the
  kubelet ids are served as whole GPUs, a run that succeeds only reads from the API server. It commits
  no CU list, reports no bind phase and touches no node lock.\<close>

theorem untracked_success_only_reads:
  assumes "run_logged (Allocate p fs (logged_host h) n hook reqs) w = (Inr cars, l)"
    and "fst (current_pod (logged_host h) n (w, [])) = Inr (cur, False)"
  shows "list_all is_read l"
proof -
  obtain r1 l1 w1 where c: "current_pod (logged_host h) n (w, []) = (r1, (w1, [] @ l1))" "list_all is_read l1"
    by (rule logsE [OF AGetPod_reads [of h n], where w = w and l = "[]"]) auto
  have cur: "cur = emptyPod"
    using assms(2) by (auto simp: current_pod_def try_io_run split: sum.splits kube_error.splits)
  obtain r2 l2 w2 where b: "rebuildCUAllocations p (logged (hostApi h)) n (w1, l1) = (r2, (w2, l1 @ l2))" "list_all is_read l2"
  proof (rule logsE [where w = w1 and l = l1])
    show "logs (rebuildCUAllocations p (logged (hostApi h)) n) reads"
      unfolding rebuildCUAllocations_def by (intro reads_rules)
  qed (auto simp: reads_def)
  obtain w' where "Allocate p fs (logged_host h) n hook reqs (w, []) = (Inr cars, (w', l))"
    using assms(1) by (auto simp: run_logged_def split: prod.splits)
  then obtain pcu snap cars' s w3 where
    "r1 = Inr (emptyPod, False)" "r2 = Inr snap"
    "containers_loop p fs (logged_host h) n hook (emptyPod, False) reqs
       \<lparr>Snapshot = snap, PodList = pcu, SlicedCU = False, HsaSets = []\<rparr> (w2, l1 @ l2) = (Inr (cars', s), w3)"
    "commit (logged_host h) n emptyPod s w3 = (Inr (), (w', l))"
    using assms(2) c(1) b(1) cur
    by (cases r2) (auto simp: Allocate_def bind_io_Inr or_fail_Inr try_io_run fail_pod_def)
  with containers_loop_untracked [OF this(3)] have "l = l1 @ l2"
    by (simp add: commit_unsliced)
  with c(2) b(2) show ?thesis by simp
qed

text \<open>A pod placed by another scheduler: the node has no lock, no pod is pending, and kubelet passes
  the first slot of a GPU four CUs of which another pod holds. The id is no key of the rebuilt
  occupancy, so the run grants all eight CUs.\<close>

definition free_host :: "Pod list \<Rightarrow> unit host" where
  "free_host pods = (quiet_host pods)\<lparr>hostApi := fixed_api (sample_node []) pods\<rparr>"

definition slot0 :: string where "slot0 = ''0000:03:00.0#0''"

lemma slot0_eq: "slot0 = ''0000:03:00.0'' @ ''#'' @ Itoa 0"
  by (simp add: slot0_def Itoa_def digits_of.simps digit_char_def char_of_def bit_Suc bit_0)

lemma slot0_data: "deviceDataFromAllocationUUID (sample_plugin mode) (\<lambda>_. None) slot0 = Inr (sample_gpu 0)"
  unfolding slot0_eq by (rule soft_id_resolves) (simp_all add: sample_plugin_def)

lemma slot0_before: "before_hash slot0 = ''0000:03:00.0''"
  unfolding slot0_eq by (rule before_hash_sep) simp

lemma slot0_strip: "stripPartitionModeSuffix slot0 = slot0"
  unfolding slot0_eq by (subst strip_hash) (simp_all add: Itoa_free Itoa_not_mode)

lemma slot0_rocr: "rocrUUIDFromAllocationUUID (sample_plugin mode) fs slot0 = Inr ''GPU-1''"
  unfolding rocrUUIDFromAllocationUUID_def slot0_strip Let_def slot0_before
  by (simp add: sample_plugin_def slot0_def HasPrefix_def)

lemma slot0_total: "getDeviceTotalCUs (sample_plugin mode) slot0 = Inr 8"
proof -
  have "cached_for slot0 (sample_info ''smi-1'' 8)"
    unfolding cached_for_def slot0_before by (simp add: sample_info_def slot0_def)
  then show ?thesis
    by (simp add: getDeviceTotalCUs_def lookupDevice_def sample_plugin_def) (simp add: sample_info_def)
qed

lemma slot0_unit: "cuMaskUnit (sample_plugin mode) (\<lambda>_. None) slot0 dir = 1"
  by (simp add: cuMaskUnit_def cuPerWGP_def node_property_def ParseTopologyProperties_def split: sum.split)

lemma full_AllocateN: "AllocateN [0] 8 8 1 = ([0b11111111], Inr [0b11111111])"
  by (simp add: AllocateN_def wordsFor_def round_up_def alloc_loop.simps upt_rec isSet_def set_cu_def Let_def)

lemma full_IDList: "allocationToIDList [0b11111111] 8 = ''0-7''"
  by (simp add: allocationToIDList_def alloc_ids_def upt_rec run_text_def Itoa_def digits_of.simps digit_char_def
      char_of_def bit_Suc bit_0)

lemma slot0_nodes:
  "traverse (device_nodes_of (sample_plugin mode) (\<lambda>_. None)) (fallback_request [slot0]) =
    Inr [\<lparr>NRocr = ''GPU-1'', NRender = 128, NPaths = [''/dev/dri/card0'', ''/dev/dri/renderD128''], NCdi = []\<rparr>]"
proof -
  have "Itoa 0 = ''0''" "Itoa 128 = ''128''"
    by (simp_all add: Itoa_def digits_of.simps digit_char_def char_of_def bit_Suc bit_0)
  moreover have "d_card (sample_gpu 0) = Some 0" "d_renderD (sample_gpu 0) = Some 128" "cdiSpecDir (sample_plugin mode) = []"
    by (simp_all add: sample_gpu_def sample_plugin_def)
  ultimately show ?thesis
    by (simp add: fallback_request_def device_nodes_of_def slot0_data slot0_rocr)
qed

lemma slot0_cu_loop:
  assumes "HsaSets s = []" "Snapshot s = [(''smi-1'', b)]" "PodList s = Some []"
  shows "cu_loop (sample_plugin mode) (\<lambda>_. None) 0 (fallback_request [slot0]) s =
    Inr \<lparr>Snapshot = [(''smi-1'', b), (slot0, [0b11111111])], PodList = Some [(slot0, ''0-7'')],
         SlicedCU = SlicedCU s, HsaSets = [''0:0-7'']\<rparr>"
proof -
  have w: "isWholeGPU (sample_plugin mode) [\<lparr>UUID = slot0, DType = ''AMDGPU'', Usedmem = 0, Usedcores = 0\<rparr>]"
    by (rule fallback_whole [OF slot0_total]) simp
  have z: "Itoa 0 = ''0''" by (simp add: Itoa_def digits_of.simps digit_char_def char_of_def bit_Suc bit_0)
  have ne: "slot0 \<noteq> ''smi-1''" by (simp add: slot0_def)
  have new: "NewAllocation 8 = Inr [0]" by (simp add: NewAllocation_def wordsFor_def)
  show ?thesis
    using assms ne ne [symmetric]
    by (simp add: fallback_request_def cu_step_def slot0_total base_allocation_def new w take_cus_def slot0_unit
        full_AllocateN pod_list_text_def full_IDList z)
qed

theorem untracked_success_only_reads_witness:
  "\<exists>l. run_logged (Allocate (sample_plugin ''cu'') (\<lambda>_. None) (logged_host (free_host [cu_pod ''a'' ''0-3''])) ''n1'' [] [[slot0]]) ()
     = (Inr [\<lparr>Envs = [(''HSA_CU_MASK'', ''0:0-7''), (''ROCR_VISIBLE_DEVICES'', ''GPU-1''), (''HIP_VISIBLE_DEVICES'', ''0'')],
         Devices = [''/dev/kfd'', ''/dev/dri/card0'', ''/dev/dri/renderD128''], Mounts = [], CdiDevices = []\<rparr>], l)
     \<and> list_all is_read l"
proof -
  let ?m = "Allocate (sample_plugin ''cu'') (\<lambda>_. None) (logged_host (free_host [cu_pod ''a'' ''0-3''])) ''n1'' [] [[slot0]]"
  let ?car = "\<lparr>Envs = [(''HSA_CU_MASK'', ''0:0-7''), (''ROCR_VISIBLE_DEVICES'', ''GPU-1''), (''HIP_VISIBLE_DEVICES'', ''0'')],
         Devices = [''/dev/kfd'', ''/dev/dri/card0'', ''/dev/dri/renderD128''], Mounts = [], CdiDevices = []\<rparr>"
  have api [simp]: "getNode (hostApi (free_host pods)) n w = (Inr (sample_node []), w)"
    "listPods (hostApi (free_host pods)) n w = (Inr pods, w)" for pods n w
    by (simp_all add: free_host_def fixed_api_def)
  have pending: "\<not> is_pending_on ''n1'' (cu_pod ''a'' ''0-3'')"
    by (simp add: is_pending_on_def cu_pod_def sample_pod_def CuAllocationKey_def BindTimeAnnotations_def)
  have lock: "map_of (NAnnotations (sample_node [])) NodeLockKey = None" by (simp add: sample_node_def)
  have cur: "current_pod (logged_host (free_host [cu_pod ''a'' ''0-3''])) ''n1'' ((), []) =
    (Inr (emptyPod, False), ((), [CGetNode ''n1'' (Inr (sample_node [])), CListPods ''n1'' (Inr [cu_pod ''a'' ''0-3''])]))"
    by (simp add: current_pod_def GetPendingPod_def GetAllocatePodByNode_def bind_io_run try_io_run lock pending)
  have b: "buildCUAllocations (sample_plugin ''cu'') [cu_pod ''a'' ''0-3''] = Inr [(''smi-1'', [0b1111])]"
    by (simp add: buildCUAllocations_def cu_pod_eval add_device_def sample_total init_device_def merge_device_def
        NewAllocation_def wordsFor_def upt_rec isSet_def AddAllocation_def)
  have ex: "existing_list emptyPod = Inr (Some [])"
    by (simp add: existing_list_def emptyPod_def annotation_def)
  have whole: "isWholeGPU (sample_plugin ''cu'') (fallback_request [slot0])"
    using fallback_whole [OF slot0_total] by (simp add: fallback_request_def)
  have envs: "visible_envs [''0:0-7''] [\<lparr>NRocr = ''GPU-1'', NRender = 128, NPaths = ps, NCdi = []\<rparr>] = Envs ?car" for ps
    by (simp add: visible_envs_def rocrVisibleList_def Itoa_def digits_of.simps digit_char_def char_of_def bit_Suc bit_0)
  have flags: "cdiSpecDir (sample_plugin ''cu'') = []" by (simp add: sample_plugin_def)
  have step: "container_step (sample_plugin ''cu'') (\<lambda>_. None) h ''n1'' [] (emptyPod, False) [slot0]
      \<lparr>Snapshot = [(''smi-1'', [0b1111])], PodList = Some [], SlicedCU = False, HsaSets = []\<rparr> w =
     (Inr (?car, \<lparr>Snapshot = [(''smi-1'', [0b1111]), (slot0, [0b11111111])], PodList = Some [(slot0, ''0-7'')],
         SlicedCU = False, HsaSets = [''0:0-7'']\<rparr>), w)" for h :: "'w host" and w
    by (simp add: container_step_def Let_def bind_io_run emptyPod_request or_fail_def slot0_nodes slot0_cu_loop
        hook_part_def whole envs flags del: cu_loop.simps traverse.simps) (simp add: fallback_request_def)
  have "fst (run_logged ?m ()) = Inr [?car]"
    by (simp add: run_logged_def Allocate_def bind_io_run cur or_fail_def ex rebuildCUAllocations_def try_io_run b
        step commit_unsliced)
  then obtain l where l: "run_logged ?m () = (Inr [?car], l)" by (metis prod.collapse)
  have "list_all is_read l" by (rule untracked_success_only_reads [OF l]) (simp add: cur)
  with l show ?thesis by blast
qed

lemma hook_part_limits:
  assumes "hook_part p fs h n hook (pod, tracked) ctr devreq car w = (Inr car', w')" "Mounts car = []"
    and "''LD_AUDIT'' \<notin> fst ` set (Envs car)"
  shows "if isWholeGPU p devreq then Mounts car' = [] \<and> ''LD_AUDIT'' \<notin> fst ` set (Envs car')
    else ((set (hook_envs p devreq) \<subseteq> set (Envs car')
          \<and> (''/usr/local/vgpu/libamvgpu.so'', hook @ ''/vgpu/libamvgpu.so'') \<in> set (Mounts car'))
        \<or> (libcheckEnabled p \<and> dmemEnabled p \<and> (\<forall>d \<in> set devreq. dmemRegion p fs (UUID d) \<noteq> None)))
      \<and> (dmemEnabled p \<and> tracked \<longrightarrow> (\<exists>w2. w' = foldl (\<lambda>w t. goApplyDmemCap h t w) w2 (cap_tasks pod devreq)))"
proof (cases "isWholeGPU p devreq")
  case True
  with assms show ?thesis by (simp add: hook_part_def)
next
  case False
  then obtain ok w1 where a: "audit_check p fs h n pod ctr devreq w = (Inr ok, w1)"
    and c: "car' = (if ok then car\<lparr>Envs := Envs car @ hook_envs p devreq,
                   Mounts := Mounts car @ [(''/usr/local/vgpu/libamvgpu.so'', hook @ ''/vgpu/libamvgpu.so'')]\<rparr> else car)"
    and w: "dmemEnabled p \<and> tracked \<longrightarrow> w' = foldl (\<lambda>w t. goApplyDmemCap h t w) w1 (cap_tasks pod devreq)"
    using assms(1) by (auto simp: hook_part_def Let_def bind_io_Inr start_caps_def split: if_splits)
  have "ok \<or> (libcheckEnabled p \<and> dmemEnabled p \<and> (\<forall>d \<in> set devreq. dmemRegion p fs (UUID d) \<noteq> None))"
    using a by (auto simp: audit_check_def try_io_run fail_pod_def bind_io_Inr list_all_iff split: if_splits sum.splits bool.splits)
  with False c w show ?thesis by auto
qed

text \<open>C8: a slice never starts without a limit. A container that is served and asks for less than whole
  GPUs gets the hook loaded with the memory limit of every device, or every device has a region the
  kernel can cap; with dmem enabled and a tracked pod, the cap of every device is started. A container
  with whole GPUs gets neither the hook nor its mount.\<close>

theorem slices_are_limited:
  assumes "container_step p fs h n hook (pod, tracked) ids s w = (Inr (car, s'), w')"
    and "device_request h n pod ids w = (Inr (ctr, devreq), w1)"
  shows "if isWholeGPU p devreq then Mounts car = [] \<and> ''LD_AUDIT'' \<notin> fst ` set (Envs car)
    else ((set (hook_envs p devreq) \<subseteq> set (Envs car)
          \<and> (''/usr/local/vgpu/libamvgpu.so'', hook @ ''/vgpu/libamvgpu.so'') \<in> set (Mounts car))
        \<or> (libcheckEnabled p \<and> dmemEnabled p \<and> (\<forall>d \<in> set devreq. dmemRegion p fs (UUID d) \<noteq> None)))
      \<and> (dmemEnabled p \<and> tracked \<longrightarrow> (\<exists>w2. w' = foldl (\<lambda>w t. goApplyDmemCap h t w) w2 (cap_tasks pod devreq)))"
proof (cases "devreq = []")
  case True
  with assms show ?thesis
    by (auto simp: container_step_def Let_def bind_io_Inr or_fail_Inr isWholeGPU_def)
next
  case False
  then obtain nodes where
    "hook_part p fs h n hook (pod, tracked) ctr devreq
       \<lparr>Envs = visible_envs (HsaSets s') nodes,
          Devices = (if cdiSpecDir p = [] then [''/dev/kfd''] else []) @ concat (map NPaths nodes),
          Mounts = [], CdiDevices = concat (map NCdi nodes)\<rparr> w1 = (Inr car, w')"
    using assms by (auto simp: container_step_def Let_def bind_io_Inr or_fail_Inr)
  then show ?thesis
    by (intro hook_part_limits) (auto simp: visible_envs_def)
qed

theorem slices_are_limited_witness:
  "\<exists>car s'. container_step (sample_plugin ''cu'') (\<lambda>_. None) (quiet_host []) ''n1'' ''/usr/local'' (slice_pod, True)
       [slot0] held_state () = (Inr (car, s'), ())
     \<and> (''HIP_DEVICE_MEMORY_LIMIT_0'', ''1024m'') \<in> set (Envs car)
     \<and> (''/usr/local/vgpu/libamvgpu.so'', ''/usr/local/vgpu/libamvgpu.so'') \<in> set (Mounts car)"
proof -
  note req = sample_request [of "[]" "''n1''", folded slot0_def]
  obtain nodes where nodes: "traverse (device_nodes_of (sample_plugin ''cu'') (\<lambda>_. None)) [slice_dev] = Inr nodes"
    using sample_nodes by blast
  have hs: "held_state\<lparr>HsaSets := []\<rparr> = held_state" by (simp add: held_state_def)
  have flags: "\<not> libcheckEnabled (sample_plugin mode)" "\<not> dmemEnabled (sample_plugin mode)" for mode
    by (simp_all add: sample_plugin_def)
  obtain car s' where run: "container_step (sample_plugin ''cu'') (\<lambda>_. None) (quiet_host []) ''n1'' ''/usr/local'' (slice_pod, True)
       [slot0] held_state () = (Inr (car, s'), ())"
    by (simp add: container_step_def bind_io_run req or_fail_def nodes hs sample_cu_loop Let_def
        hook_part_def sample_slice audit_check_def flags del: cu_loop.simps traverse.simps)
  have "Itoa 0 = ''0''" "Itoa 1024 = ''1024''"
    by (simp_all add: Itoa_def digits_of.simps digit_char_def char_of_def bit_Suc bit_0)
  then have "(''HIP_DEVICE_MEMORY_LIMIT_0'', ''1024m'') \<in> set (hook_envs (sample_plugin ''cu'') [slice_dev])"
    by (simp add: hook_envs_def) (simp add: slice_dev_def)
  with slices_are_limited [OF run req] show ?thesis
    using run by (auto simp: sample_slice flags)
qed

end
