(* ===== verification/Amdgpu.thy ===== *)
theory Amdgpu
  imports DeviceIds
begin

text \<open>
  Discovery of the GPUs of a node: \<open>internal/pkg/amdgpu/amdgpu.go\<close>. The KFD topology gives the
  PCI address, the node id and the ROCr UUID of every render node, the PCI driver directory and the
  platform devices give the GPUs and their XCP partitions, libdrm gives capacity and firmware.

  Parameters: \<open>fs path\<close> is the content of a file (\<open>None\<close> when it cannot be read), \<open>glob pattern\<close> is
  \<open>filepath.Glob\<close> and \<open>stat path\<close> is whether \<open>os.Stat\<close> succeeds. libdrm is the record \<open>drm\<close> of the
  calls made through cgo, and \<open>c name\<close> is the value of a constant of its headers. A Go map with
  integer keys is an association list; a missing entry reads as the zero value.
\<close>

section \<open>Paths and numbers\<close>

text \<open>\<open>filepath.Base\<close> and \<open>filepath.Dir\<close>.\<close>

definition file_Base :: "string \<Rightarrow> string" where
  "file_Base p =
     (if p = [] then ''.''
      else let q = rev (dropWhile (\<lambda>c. c = CHR ''/'') (rev p))
           in if q = [] then ''/'' else last (Split (CHR ''/'') q))"

definition file_Dir :: "string \<Rightarrow> string" where
  "file_Dir p = path_Clean (rev (dropWhile (\<lambda>c. c \<noteq> CHR ''/'') (rev p)))"

text \<open>\<open>%x\<close> of a number that is not negative, padded with zeros to a width.\<close>

definition hex_digit :: "nat \<Rightarrow> char" where
  "hex_digit d = (if d < 10 then digit_char d else char_of (87 + d))"

fun hex_text :: "nat \<Rightarrow> string" where
  "hex_text n = (if n < 16 then [hex_digit n] else hex_text (n div 16) @ [hex_digit (n mod 16)])"

declare hex_text.simps [simp del]

definition hex_pad :: "nat \<Rightarrow> nat \<Rightarrow> string" where
  "hex_pad width n = replicate (width - length (hex_text n)) CHR ''0'' @ hex_text n"

definition lookup_str :: "(int \<times> string) list \<Rightarrow> int \<Rightarrow> string" where
  "lookup_str m k = (case map_of m k of None \<Rightarrow> [] | Some s \<Rightarrow> s)"

definition lookup_int :: "(int \<times> int) list \<Rightarrow> int \<Rightarrow> int" where
  "lookup_int m k = (case map_of m k of None \<Rightarrow> 0 | Some i \<Rightarrow> i)"

section \<open>libdrm\<close>

record 'h drm =
  dev_open :: "string \<Rightarrow> bool"
  device_initialize :: "string \<Rightarrow> 'h option"
  query_family :: "'h \<Rightarrow> nat option"
  query_capacity :: "'h \<Rightarrow> (nat \<times> nat) option"
  query_firmware :: "'h \<Rightarrow> nat \<Rightarrow> (nat \<times> nat) option"
  marketing_name :: "'h \<Rightarrow> string option"

datatype drm_error =
    NotAMD string | DrmOpen string | DrmInit string | NoFamily string | UnknownFamily nat
  | NoCapacity string | InvalidCapacity string nat nat | NoProductName string

definition AMDGPU :: "files \<Rightarrow> string \<Rightarrow> bool" where
  "AMDGPU fs cardName \<longleftrightarrow>
     (case fs (''/sys/class/drm/'' @ cardName @ ''/device/vendor'') of
        None \<Rightarrow> False | Some b \<Rightarrow> TrimSpace b = ''0x1002'')"

definition openAMDGPU :: "files \<Rightarrow> 'h drm \<Rightarrow> string \<Rightarrow> (drm_error, 'h) result" where
  "openAMDGPU fs d cardName =
     (let devPath = ''/dev/dri/'' @ cardName in
      if \<not> AMDGPU fs cardName then Inl (NotAMD cardName)
      else if \<not> dev_open d devPath then Inl (DrmOpen devPath)
      else case device_initialize d devPath of None \<Rightarrow> Inl (DrmInit devPath) | Some h \<Rightarrow> Inr h)"

definition DevFunctional :: "files \<Rightarrow> 'h drm \<Rightarrow> string \<Rightarrow> bool" where
  "DevFunctional fs d cardName = (case openAMDGPU fs d cardName of Inl _ \<Rightarrow> False | Inr _ \<Rightarrow> True)"

text \<open>The cases of the switch, in its order; the first that equals the id is taken.\<close>

definition family_names :: "string list" where
  "family_names = [''SI'', ''CI'', ''KV'', ''VI'', ''CZ'', ''AI'', ''RV'', ''NV'', ''VGH'', ''GC_11_0_0'', ''YC'',
     ''GC_11_0_1'', ''GC_10_3_6'', ''GC_10_3_7'', ''GC_11_5_0'', ''GC_12_0_0'']"

definition FamilyIDtoString :: "(string \<Rightarrow> nat) \<Rightarrow> nat \<Rightarrow> (drm_error, string) result" where
  "FamilyIDtoString c familyId =
     (case find (\<lambda>name. c (''AMDGPU_FAMILY_'' @ name) = familyId) family_names of
        Some name \<Rightarrow> Inr name
      | None \<Rightarrow> Inl (UnknownFamily familyId))"

definition GetCardFamilyName :: "files \<Rightarrow> 'h drm \<Rightarrow> (string \<Rightarrow> nat) \<Rightarrow> string \<Rightarrow> (drm_error, string) result" where
  "GetCardFamilyName fs d c cardName =
     bind_result (openAMDGPU fs d cardName) (\<lambda>h.
       case query_family d h of
         None \<Rightarrow> Inl (NoFamily cardName)
       | Some familyId \<Rightarrow> FamilyIDtoString c familyId)"

definition GetCardProductName :: "files \<Rightarrow> 'h drm \<Rightarrow> string \<Rightarrow> (drm_error, string) result" where
  "GetCardProductName fs d cardName =
     bind_result (openAMDGPU fs d cardName) (\<lambda>h.
       case marketing_name d h of None \<Rightarrow> Inl (NoProductName cardName) | Some name \<Rightarrow> Inr name)"

record DeviceCapacity =
  VRAMMiB :: int
  CUCount :: int

text \<open>Both fields are an \<open>int32\<close>; they are never negative, so Go's division is \<open>div\<close>. The number of
  partitions is that of an AMD SMI profile, far below \<open>2 ^ 31\<close>.\<close>

definition PartitionCapacity :: "DeviceCapacity \<Rightarrow> int \<Rightarrow> DeviceCapacity" where
  "PartitionCapacity whole partitions =
     (if partitions > 1
      then whole\<lparr>VRAMMiB := VRAMMiB whole div partitions, CUCount := CUCount whole div partitions\<rparr>
      else whole)"

definition newDeviceCapacity :: "string \<Rightarrow> nat \<Rightarrow> nat \<Rightarrow> (drm_error, DeviceCapacity) result" where
  "newDeviceCapacity cardName vramBytes cuCount =
     (let vramMiB = vramBytes div (1024 * 1024) in
      if vramMiB = 0 \<or> cuCount = 0 \<or> vramMiB > 2 ^ 31 - 1 \<or> cuCount > 2 ^ 31 - 1
      then Inl (InvalidCapacity cardName vramBytes cuCount)
      else Inr \<lparr>VRAMMiB = int vramMiB, CUCount = int cuCount\<rparr>)"

definition GetDeviceCapacity :: "files \<Rightarrow> 'h drm \<Rightarrow> string \<Rightarrow> (drm_error, DeviceCapacity) result" where
  "GetDeviceCapacity fs d cardName =
     bind_result (openAMDGPU fs d cardName) (\<lambda>h.
       case query_capacity d h of
         None \<Rightarrow> Inl (NoCapacity cardName)
       | Some (vramBytes, cuCount) \<Rightarrow> newDeviceCapacity cardName vramBytes cuCount)"

definition firmwareTypes :: "(string \<Rightarrow> nat) \<Rightarrow> (string \<times> nat) list" where
  "firmwareTypes c =
     [(''VCE'', c ''AMDGPU_INFO_FW_VCE''), (''UVD'', c ''AMDGPU_INFO_FW_UVD''), (''MC'', c ''AMDGPU_INFO_FW_GMC''),
      (''ME'', c ''AMDGPU_INFO_FW_GFX_ME''), (''PFP'', c ''AMDGPU_INFO_FW_GFX_PFP''), (''CE'', c ''AMDGPU_INFO_FW_GFX_CE''),
      (''RLC'', c ''AMDGPU_INFO_FW_GFX_RLC''), (''MEC'', c ''AMDGPU_INFO_FW_GFX_MEC''), (''SMC'', c ''AMDGPU_INFO_FW_SMC''),
      (''SDMA0'', c ''AMDGPU_INFO_FW_SDMA'')]"

type_synonym versions = "(string \<times> nat) list"

fun collect_types :: "(nat \<Rightarrow> (nat \<times> nat) option) \<Rightarrow> (string \<times> nat) list \<Rightarrow> versions \<times> versions \<Rightarrow> versions \<times> versions" where
  "collect_types query [] r = r"
| "collect_types query ((name, fwType) # ts) (feats, fws) =
     (case query fwType of
        None \<Rightarrow> collect_types query ts (feats, fws)
      | Some (ver, feat) \<Rightarrow> collect_types query ts (assoc_update name feat feats, assoc_update name ver fws))"

definition collectFirmware :: "(string \<Rightarrow> nat) \<Rightarrow> (nat \<Rightarrow> (nat \<times> nat) option) \<Rightarrow> versions \<times> versions" where
  "collectFirmware c query = collect_types query (firmwareTypes c) ([], [])"

definition GetFirmwareVersions :: "files \<Rightarrow> 'h drm \<Rightarrow> (string \<Rightarrow> nat) \<Rightarrow> string \<Rightarrow> (drm_error, versions \<times> versions) result" where
  "GetFirmwareVersions fs d c cardName =
     bind_result (openAMDGPU fs d cardName) (\<lambda>h. Inr (collectFirmware c (query_firmware d h)))"

section \<open>KFD topology\<close>

definition node_files :: "(string \<Rightarrow> string list) \<Rightarrow> string \<Rightarrow> string list" where
  "node_files glob topoRoot = glob (topoRoot @ ''/topology/nodes/*/properties'')"

text \<open>The render minor of a node, when it is one.\<close>

definition render_minor :: "files \<Rightarrow> string \<Rightarrow> int option" where
  "render_minor fs nodeFile =
     (case ParseTopologyProperties fs nodeFile ''drm_render_minor'' of
        Inl _ \<Rightarrow> None | Inr v \<Rightarrow> if v \<le> 0 then None else Some v)"

definition devID_text :: "nat \<Rightarrow> nat \<Rightarrow> string" where
  "devID_text domain locationId =
     hex_pad 4 domain @ '':'' @ hex_pad 2 (locationId div 256 mod 256) @ '':''
       @ hex_pad 2 (locationId div 8 mod 32) @ '':0''"

definition add_dev_id :: "files \<Rightarrow> string \<Rightarrow> (int \<times> string) list \<Rightarrow> (int \<times> string) list" where
  "add_dev_id fs nodeFile renderDevIds =
     (case render_minor fs nodeFile of
        None \<Rightarrow> renderDevIds
      | Some v \<Rightarrow>
          (case (ParseTopologyProperties fs nodeFile ''location_id'', ParseTopologyProperties fs nodeFile ''domain'') of
             (Inr locationId, Inr domain) \<Rightarrow> assoc_update v (devID_text (nat domain) (nat locationId)) renderDevIds
           | _ \<Rightarrow> renderDevIds))"

definition GetDevIdsFromTopology :: "files \<Rightarrow> (string \<Rightarrow> string list) \<Rightarrow> string \<Rightarrow> (int \<times> string) list" where
  "GetDevIdsFromTopology fs glob topoRoot = fold (add_dev_id fs) (node_files glob topoRoot) []"

definition add_node_id :: "files \<Rightarrow> string \<Rightarrow> (int \<times> int) list \<Rightarrow> (int \<times> int) list" where
  "add_node_id fs nodeFile renderNodeIds =
     (case render_minor fs nodeFile of
        None \<Rightarrow> renderNodeIds
      | Some v \<Rightarrow>
          (case Atoi (file_Base (file_Dir nodeFile)) of
             Inl _ \<Rightarrow> renderNodeIds
           | Inr nodeId \<Rightarrow> assoc_update v nodeId renderNodeIds))"

definition GetNodeIdsFromTopology :: "files \<Rightarrow> (string \<Rightarrow> string list) \<Rightarrow> string \<Rightarrow> (int \<times> int) list" where
  "GetNodeIdsFromTopology fs glob topoRoot = fold (add_node_id fs) (node_files glob topoRoot) []"

fun first_unique_id :: "string list \<Rightarrow> (num_error, nat) result option" where
  "first_unique_id [] = None"
| "first_unique_id (l # ls) =
     (case find_submatch ''unique_id'' l of Some m \<Rightarrow> Some (ParseUint10 m) | None \<Rightarrow> first_unique_id ls)"

definition parseTopologyUniqueID :: "files \<Rightarrow> string \<Rightarrow> (topo_error, nat) result" where
  "parseTopologyUniqueID fs path =
     (case fs path of
        None \<Rightarrow> Inl (TopoOpen path)
      | Some content \<Rightarrow>
          (case scan_lines content of (ls, err) \<Rightarrow>
             (case first_unique_id ls of
                Some r \<Rightarrow> wrap_error TopoNum r
              | None \<Rightarrow> if err then Inl TopoScan else Inl (TopoNotFound ''unique_id''))))"

definition add_rocr_uuid :: "files \<Rightarrow> string \<Rightarrow> (int \<times> string) list \<Rightarrow> (int \<times> string) list" where
  "add_rocr_uuid fs nodeFile uuids =
     (case render_minor fs nodeFile of
        None \<Rightarrow> uuids
      | Some v \<Rightarrow>
          (case parseTopologyUniqueID fs nodeFile of
             Inl _ \<Rightarrow> uuids
           | Inr uniqueID \<Rightarrow> if uniqueID = 0 then uuids else assoc_update v (''GPU-'' @ hex_pad 16 uniqueID) uuids))"

definition GetROCrUUIDsFromTopology :: "files \<Rightarrow> (string \<Rightarrow> string list) \<Rightarrow> string \<Rightarrow> (int \<times> string) list" where
  "GetROCrUUIDsFromTopology fs glob topoRoot = fold (add_rocr_uuid fs) (node_files glob topoRoot) []"

text \<open>Number, render minor and unique id of a node.\<close>

definition node_info :: "files \<Rightarrow> string \<Rightarrow> (int \<times> int \<times> nat) option" where
  "node_info fs p =
     (case Atoi (file_Base (file_Dir p)) of
        Inl _ \<Rightarrow> None
      | Inr num \<Rightarrow>
          (case render_minor fs p of
             None \<Rightarrow> None
           | Some renderMinor \<Rightarrow>
               (case parseTopologyUniqueID fs p of Inl _ \<Rightarrow> None | Inr uniqueID \<Rightarrow> Some (num, renderMinor, uniqueID))))"

fun add_indexes :: "int \<Rightarrow> (int \<times> int \<times> nat) list \<Rightarrow> (int \<times> int) list \<Rightarrow> (int \<times> int) list" where
  "add_indexes i [] indexes = indexes"
| "add_indexes i ((num, renderD, uniqueID) # nodes) indexes =
     add_indexes (i + 1) nodes (if uniqueID = 0 then assoc_update renderD i indexes else indexes)"

text \<open>Glob cannot fail on this pattern; node numbers are distinct directory names, so the order of
  \<open>sort.Slice\<close> is unique.\<close>

definition GetROCrIndexesFromTopology :: "files \<Rightarrow> (string \<Rightarrow> string list) \<Rightarrow> string \<Rightarrow> (int \<times> int) list" where
  "GetROCrIndexesFromTopology fs glob topoRoot =
     add_indexes 0 (sort_key fst (List.map_filter (node_info fs) (node_files glob topoRoot))) []"

section \<open>Discovery\<close>

text \<open>Lower-cased content of a partition file; a failed read, logged or not, leaves no data.\<close>

definition readPartition :: "files \<Rightarrow> string \<Rightarrow> string" where
  "readPartition fs file = (case fs file of None \<Rightarrow> [] | Some d \<Rightarrow> ToLower (TrimSpace d))"

definition atoi0 :: "string \<Rightarrow> int" where
  "atoi0 s = (case Atoi s of Inl ErrSyntax \<Rightarrow> 0 | Inl ErrRange \<Rightarrow> (if HasPrefix s ''-'' then -(2 ^ 63) else 2 ^ 63 - 1) | Inr n \<Rightarrow> n)"

text \<open>The entries of a drm directory: card and render minor, and whether there is a render node.\<close>

fun drm_entries :: "string list \<Rightarrow> int \<times> int \<times> bool \<Rightarrow> int \<times> int \<times> bool" where
  "drm_entries [] r = r"
| "drm_entries (devPath # paths) (cardN, renderD, ok) =
     (case CutPrefix (file_Base devPath) ''renderD'' of
        Some n \<Rightarrow> drm_entries paths (cardN, atoi0 n, True)
      | None \<Rightarrow>
          (case CutPrefix (file_Base devPath) ''card'' of
             Some n \<Rightarrow> drm_entries paths (atoi0 n, renderD, ok)
           | None \<Rightarrow> drm_entries paths (cardN, renderD, ok)))"

definition drmNodes :: "(string \<Rightarrow> string list) \<Rightarrow> string \<Rightarrow> int \<times> int \<times> bool" where
  "drmNodes glob path = drm_entries (glob (path @ ''/drm/*'')) (0, 0, False)"

definition pciGPUGlob :: string where
  "pciGPUGlob = ''/module/amdgpu/drivers/pci:amdgpu/[0-9a-fA-F][0-9a-fA-F][0-9a-fA-F][0-9a-fA-F]:*''"

text \<open>One PCI device.\<close>

definition pci_device ::
  "files \<Rightarrow> (string \<Rightarrow> string list) \<Rightarrow> (string \<Rightarrow> bool) \<Rightarrow> (int \<times> string) list \<Rightarrow> (int \<times> int) list
     \<Rightarrow> string \<Rightarrow> device_data option" where
  "pci_device fs glob stat renderDevIds renderNodeIds path =
     (let computePartitionType = readPartition fs (path_Join [path, ''current_compute_partition'']);
          memoryPartitionType = readPartition fs (path_Join [path, ''current_memory_partition'']);
          partitionFixed = (computePartitionType \<noteq> [] \<and> \<not> stat (path_Join [path, ''available_compute_partition'']))
      in case fs (path_Join [path, ''numa_node'']) of
           None \<Rightarrow> None
         | Some d \<Rightarrow>
             (case Atoi (TrimSpace d) of
                Inl _ \<Rightarrow> None
              | Inr numaNode \<Rightarrow>
                  (case drmNodes glob path of (cardN, renderD, ok) \<Rightarrow>
                     if \<not> ok then None
                     else Some \<lparr>d_card = Some cardN, d_renderD = Some renderD,
                       d_devID = Some (lookup_str renderDevIds renderD),
                       d_computePartitionType = Some computePartitionType,
                       d_memoryPartitionType = Some memoryPartitionType,
                       d_computePartitionFixed = Some partitionFixed,
                       d_numaNode = Some numaNode, d_nodeId = Some (lookup_int renderNodeIds renderD)\<rparr>)))"

definition add_pci ::
  "files \<Rightarrow> (string \<Rightarrow> string list) \<Rightarrow> (string \<Rightarrow> bool) \<Rightarrow> (int \<times> string) list \<Rightarrow> (int \<times> int) list
     \<Rightarrow> string \<Rightarrow> gpu_map \<Rightarrow> gpu_map" where
  "add_pci fs glob stat renderDevIds renderNodeIds path devices =
     (case pci_device fs glob stat renderDevIds renderNodeIds path of
        None \<Rightarrow> devices | Some d \<Rightarrow> assoc_update (file_Base path) d devices)"

text \<open>The device an XCP partition takes its partition types and NUMA node from: the first one met with
  the same \<open>devID\<close>. \<open>iter\<close> is the order in which the Go runtime ranges over the map.\<close>

definition partition_source :: "string \<Rightarrow> gpu_map \<Rightarrow> device_data option" where
  "partition_source devID devices =
     map_option snd (find (\<lambda>(key, d). d_devID d = Some devID \<and> str_of (d_computePartitionType d) \<noteq> []
        \<and> str_of (d_memoryPartitionType d) \<noteq> []) devices)"

definition xcp_device ::
  "(gpu_map \<Rightarrow> gpu_map) \<Rightarrow> (string \<Rightarrow> string list) \<Rightarrow> (int \<times> string) list \<Rightarrow> (int \<times> int) list
     \<Rightarrow> gpu_map \<Rightarrow> string \<Rightarrow> device_data option" where
  "xcp_device iter glob renderDevIds renderNodeIds devices path =
     (case drmNodes glob path of (cardN, renderD, ok) \<Rightarrow>
        (case (ok, map_of renderDevIds renderD) of
           (True, Some devID) \<Rightarrow>
             (let source = partition_source devID (iter devices);
                  numaNode = (case source of None \<Rightarrow> -1 | Some g \<Rightarrow> int_of (d_numaNode g))
              in if numaNode = -1 then None
                 else map_option (\<lambda>g. g\<lparr>d_card := Some cardN, d_renderD := Some renderD, d_devID := Some devID,
                        d_computePartitionFixed := Some (d_computePartitionFixed g = Some True),
                        d_nodeId := Some (lookup_int renderNodeIds renderD)\<rparr>) source)
         | _ \<Rightarrow> None))"

definition add_xcp ::
  "(gpu_map \<Rightarrow> gpu_map) \<Rightarrow> (string \<Rightarrow> string list) \<Rightarrow> (int \<times> string) list \<Rightarrow> (int \<times> int) list
     \<Rightarrow> string \<Rightarrow> gpu_map \<Rightarrow> gpu_map" where
  "add_xcp iter glob renderDevIds renderNodeIds path devices =
     (case xcp_device iter glob renderDevIds renderNodeIds devices path of
        None \<Rightarrow> devices | Some d \<Rightarrow> assoc_update (file_Base path) d devices)"

definition discoverGPUs ::
  "files \<Rightarrow> (string \<Rightarrow> string list) \<Rightarrow> (string \<Rightarrow> bool) \<Rightarrow> (gpu_map \<Rightarrow> gpu_map) \<Rightarrow> string
     \<Rightarrow> (int \<times> string) list \<Rightarrow> (int \<times> int) list \<Rightarrow> gpu_map" where
  "discoverGPUs fs glob stat iter sysRootDir renderDevIds renderNodeIds =
     fold (add_xcp iter glob renderDevIds renderNodeIds) (glob (sysRootDir @ ''/devices/platform/amdgpu_xcp_*''))
       (fold (add_pci fs glob stat renderDevIds renderNodeIds) (glob (sysRootDir @ pciGPUGlob)) [])"

text \<open>\<open>SetExcluded\<close>: the package variable \<open>excluded\<close> is its result.\<close>

definition SetExcluded :: "string list \<Rightarrow> string list" where
  "SetExcluded ids = filter (\<lambda>i. i \<noteq> []) (map (\<lambda>i. ToLower (TrimSpace i)) ids)"

definition withoutExcluded :: "gpu_map \<Rightarrow> string list \<Rightarrow> gpu_map" where
  "withoutExcluded gpus ids =
     (if ids = [] then gpus
      else filter (\<lambda>(key, d). \<not> (ToLower key \<in> set ids \<or> ''card'' @ Itoa (int_of (d_card d)) \<in> set ids)) gpus)"

text \<open>\<open>None\<close> is the exit of the process when the driver is not loaded.\<close>

definition GetAMDGPUs ::
  "files \<Rightarrow> (string \<Rightarrow> string list) \<Rightarrow> (string \<Rightarrow> bool) \<Rightarrow> (gpu_map \<Rightarrow> gpu_map) \<Rightarrow> string list \<Rightarrow> string
     \<Rightarrow> gpu_map option" where
  "GetAMDGPUs fs glob stat iter excluded sysRootDir =
     (if \<not> stat (path_Join [sysRootDir, ''module/amdgpu/drivers/'']) then None
      else let kfd = path_Join [sysRootDir, ''class/kfd/kfd''] in
        Some (withoutExcluded
          (discoverGPUs fs glob stat iter sysRootDir (GetDevIdsFromTopology fs glob kfd) (GetNodeIdsFromTopology fs glob kfd))
          excluded))"

text \<open>How many GPUs have each partition type; \<open>None\<close> is the panic of an unchecked assertion.\<close>

definition count_partition :: "device_data \<Rightarrow> (string \<times> nat) list \<Rightarrow> (string \<times> nat) list option" where
  "count_partition d counts =
     (case (d_computePartitionType d, d_memoryPartitionType d) of
        (Some ct, Some mt) \<Rightarrow>
          Some (if d_computePartitionFixed d = Some True then counts
                else if ct \<noteq> [] \<and> mt \<noteq> []
                  then assoc_update (ct @ ''_'' @ mt)
                         (Suc (case map_of counts (ct @ ''_'' @ mt) of None \<Rightarrow> 0 | Some n \<Rightarrow> n)) counts
                else counts)
      | _ \<Rightarrow> None)"

fun UniquePartitionConfigCount :: "gpu_map \<Rightarrow> (string \<times> nat) list \<Rightarrow> (string \<times> nat) list option" where
  "UniquePartitionConfigCount [] counts = Some counts"
| "UniquePartitionConfigCount ((key, d) # devices) counts =
     Option.bind (count_partition d counts) (UniquePartitionConfigCount devices)"

definition IsHomogeneous :: "gpu_map \<Rightarrow> bool option" where
  "IsHomogeneous gpus = map_option (\<lambda>counts. length counts \<le> 1) (UniquePartitionConfigCount gpus [])"

definition partitionSupported :: "(string \<Rightarrow> string list) \<Rightarrow> (string \<Rightarrow> bool) \<Rightarrow> string \<Rightarrow> bool" where
  "partitionSupported glob stat file =
     (case glob (''/sys'' @ pciGPUGlob) of [] \<Rightarrow> False | m # _ \<Rightarrow> stat (path_Join [m, file]))"

definition IsComputePartitionSupported :: "(string \<Rightarrow> string list) \<Rightarrow> (string \<Rightarrow> bool) \<Rightarrow> bool" where
  "IsComputePartitionSupported glob stat = partitionSupported glob stat ''available_compute_partition''"

definition IsMemoryPartitionSupported :: "(string \<Rightarrow> string list) \<Rightarrow> (string \<Rightarrow> bool) \<Rightarrow> bool" where
  "IsMemoryPartitionSupported glob stat = partitionSupported glob stat ''available_memory_partition''"

section \<open>Product names and firmware\<close>

definition instinctNames :: "(int \<times> string) list" where
  "instinctNames =
     [(0x74a0, ''AMD Instinct MI300A''), (0x74a1, ''AMD Instinct MI300X''), (0x74a5, ''AMD Instinct MI325X''),
      (0x74a9, ''AMD Instinct MI300X HF''), (0x74b5, ''AMD Instinct MI300X VF''), (0x74b6, ''AMD Instinct MI308X''),
      (0x74b9, ''AMD Instinct MI325X''), (0x74bd, ''AMD Instinct MI300X HF'')]"

definition InstinctProductName :: "int \<Rightarrow> string \<Rightarrow> string" where
  "InstinctProductName deviceID current =
     (case map_of instinctNames deviceID of
        None \<Rightarrow> current
      | Some name \<Rightarrow> if current \<noteq> [] \<and> \<not> Contains current ''Radeon Graphics'' then current else name)"

definition is_word :: "char \<Rightarrow> bool" where
  "is_word c \<longleftrightarrow> (let n = (of_char c :: nat) in
     is_digit c \<or> (65 \<le> n \<and> n \<le> 90) \<or> (97 \<le> n \<and> n \<le> 122) \<or> c = CHR ''_'')"

definition hex_value :: "char \<Rightarrow> nat option" where
  "hex_value c = (let n = (of_char c :: nat) in
     if is_digit c then Some (digit_val c)
     else if 97 \<le> n \<and> n \<le> 102 then Some (n - 87)
     else if 65 \<le> n \<and> n \<le> 70 then Some (n - 55) else None)"

text \<open>\<open>v, _ := strconv.ParseUint(s, 0, 32)\<close> of decimal digits and of \<open>0x\<close> digits: out of range the
  value is the largest one, a syntax error gives 0.\<close>

definition clamp32 :: "nat \<Rightarrow> nat" where
  "clamp32 v = min v (2 ^ 32 - 1)"

definition uint32_dec :: "string \<Rightarrow> nat" where
  "uint32_dec ds =
     (if hd ds = CHR ''0'' then
        (if list_all (\<lambda>c. digit_val c < 8) (tl ds) then clamp32 (foldl (\<lambda>a c. a * 8 + digit_val c) 0 (tl ds)) else 0)
      else clamp32 (digits_val ds))"

definition uint32_hex :: "string \<Rightarrow> nat" where
  "uint32_hex hs = clamp32 (foldl (\<lambda>a c. a * 16 + the (hex_value c)) 0 hs)"

text \<open>The pattern at the start of a text: name, decimal digits, hex digits. No part can give
  characters back to a following one, so the greedy reading is the only match.\<close>

definition cut_program :: "string \<Rightarrow> string" where
  "cut_program s =
     (case CutPrefix s '' program: '' of
        None \<Rightarrow> s
      | Some t \<Rightarrow>
          (case CutPrefix (dropWhile is_digit t) '','' of
             None \<Rightarrow> s | Some u \<Rightarrow> if takeWhile is_digit t = [] then s else u))"

definition match_firmware :: "string \<Rightarrow> (string \<times> string \<times> string) option" where
  "match_firmware s =
     (let name = takeWhile is_word s in
      case CutPrefix (dropWhile is_word s) '' feature version: '' of
        None \<Rightarrow> None
      | Some t \<Rightarrow>
          (case CutPrefix (dropWhile is_digit t) '','' of
             None \<Rightarrow> None
           | Some u \<Rightarrow>
               (case CutPrefix (cut_program u) '' firmware version: 0x'' of
                  None \<Rightarrow> None
                | Some w \<Rightarrow>
                    (let ds = takeWhile is_digit t; hs = takeWhile (\<lambda>c. hex_value c \<noteq> None) w
                     in if name = [] \<or> ds = [] \<or> hs = [] then None else Some (name, ds, hs)))))"

fun find_firmware :: "string \<Rightarrow> (string \<times> string \<times> string) option" where
  "find_firmware [] = None"
| "find_firmware (c # s) =
     (case match_firmware (c # s) of Some m \<Rightarrow> Some m | None \<Rightarrow> find_firmware s)"

definition add_firmware :: "string \<Rightarrow> versions \<times> versions \<Rightarrow> versions \<times> versions" where
  "add_firmware line r =
     (case find_firmware line of
        None \<Rightarrow> r
      | Some (name, ds, hs) \<Rightarrow> (assoc_update name (uint32_dec ds) (fst r), assoc_update name (uint32_hex hs) (snd r)))"

definition parseDebugFSFirmwareInfo :: "files \<Rightarrow> string \<Rightarrow> versions \<times> versions" where
  "parseDebugFSFirmwareInfo fs path =
     (case fs path of None \<Rightarrow> ([], []) | Some content \<Rightarrow> fold add_firmware (fst (scan_lines content)) ([], []))"

end
