(* ===== verification/Health.thy ===== *)
theory Health
  imports Amdgpu
begin

text \<open>
  Health of the GPUs. \<open>internal/pkg/exporter/health.go\<close>: the metrics exporter is asked over gRPC and
  its answer, keyed by PCI address, is applied to the devices kubelet sees. \<open>serveDevices\<close> of
  \<open>plugin.go\<close>: the stream of device lists, resent with fresh health on every heartbeat.
  \<open>health_events.go\<close>: the Events recorded when a registered GPU turns unhealthy, leaves the
  registration or comes back.

  Parameters: the answer of the exporter (\<open>exporter_reply\<close>) and whether a DRM card can be opened.
  The two health words of kubelet, \<open>Healthy\<close> and \<open>Unhealthy\<close>, are the two values of \<open>bool\<close>.
\<close>

section \<open>The metrics exporter\<close>

datatype exporter_reply = NoSocket | NoClient | ListFailed | Listed "(string \<times> string) list"

datatype exporter_log = WarnUnreachable | StillUnreachable | ReachableAgain

text \<open>\<open>logExporterState(err)\<close>: what is logged and the new value of \<open>exporterDown\<close>.\<close>

definition logExporterState :: "bool \<Rightarrow> bool \<Rightarrow> exporter_log list \<times> bool" where
  "logExporterState err exporterDown =
     (if err then (if \<not> exporterDown then [WarnUnreachable] else [StillUnreachable], True)
      else (if exporterDown then [ReachableAgain] else [], False))"

definition add_gpu_health :: "string \<times> string \<Rightarrow> (string \<times> bool) list \<Rightarrow> (string \<times> bool) list" where
  "add_gpu_health gpu hMap = assoc_update (fst gpu) (snd gpu = ''healthy'') hMap"

text \<open>The health per PCI address; the error return of the code is ignored by both callers.\<close>

definition getGPUHealth :: "exporter_reply \<Rightarrow> bool \<Rightarrow> (string \<times> bool) list \<times> exporter_log list \<times> bool" where
  "getGPUHealth reply exporterDown =
     (case reply of
        NoSocket \<Rightarrow> ([], [], exporterDown)
      | NoClient \<Rightarrow> ([], logExporterState True exporterDown)
      | ListFailed \<Rightarrow> ([], logExporterState True exporterDown)
      | Listed gpus \<Rightarrow> (fold add_gpu_health gpus [], logExporterState False exporterDown))"

definition unhealthyFrom :: "(string \<times> bool) list \<Rightarrow> string list" where
  "unhealthyFrom hMap = map fst (filter (\<lambda>(bdf, h). \<not> h) hMap)"

definition UnhealthyGPUs :: "exporter_reply \<Rightarrow> bool \<Rightarrow> string list \<times> exporter_log list \<times> bool" where
  "UnhealthyGPUs reply exporterDown =
     (case getGPUHealth reply exporterDown of (hMap, st) \<Rightarrow> (unhealthyFrom hMap, st))"

definition applyHealth ::
  "(string \<times> bool) list \<Rightarrow> bool \<Rightarrow> (string \<Rightarrow> string) \<Rightarrow> kubelet_device list \<Rightarrow> kubelet_device list" where
  "applyHealth hMap defaultHealth gpuBDF devs =
     map (\<lambda>d. case map_of hMap (gpuBDF (before_hash (KID d))) of
                None \<Rightarrow> d\<lparr>KHealthy := defaultHealth\<rparr> | Some h \<Rightarrow> d\<lparr>KHealthy := h\<rparr>) devs"

text \<open>The last colon of a KFD address becomes a dot; \<open>dev_id_colon\<close> below: it always has one.\<close>

definition kfd_to_pci :: "string \<Rightarrow> string" where
  "kfd_to_pci bdf = (let i = nat (LastIndex bdf '':'') in take i bdf @ ''.'' @ drop (i + 1) bdf)"

fun first_render_bdf :: "(int \<times> string) list \<Rightarrow> string list \<Rightarrow> string option" where
  "first_render_bdf renderBDF [] = None"
| "first_render_bdf renderBDF (r # renders) =
     (case Atoi (TrimPrefix (file_Base r) ''renderD'') of
        Inl _ \<Rightarrow> first_render_bdf renderBDF renders
      | Inr minor \<Rightarrow>
          (case map_of renderBDF minor of
             None \<Rightarrow> first_render_bdf renderBDF renders
           | Some bdf \<Rightarrow> Some (kfd_to_pci bdf)))"

definition partitionBDF ::
  "files \<Rightarrow> (string \<Rightarrow> string list) \<Rightarrow> string \<Rightarrow> string \<Rightarrow> string \<Rightarrow> string" where
  "partitionBDF fs glob platformDir topoRoot ident =
     (if \<not> HasPrefix ident ''amdgpu_xcp_'' then ident
      else case first_render_bdf (GetDevIdsFromTopology fs glob topoRoot)
                  (glob (path_Join [platformDir, ident, ''drm'', ''renderD*''])) of
             None \<Rightarrow> ident | Some bdf \<Rightarrow> bdf)"

definition PopulatePerGPUDHealth ::
  "files \<Rightarrow> (string \<Rightarrow> string list) \<Rightarrow> exporter_reply \<Rightarrow> bool \<Rightarrow> kubelet_device list \<Rightarrow> bool
     \<Rightarrow> kubelet_device list \<times> exporter_log list \<times> bool" where
  "PopulatePerGPUDHealth fs glob reply exporterDown devs defaultHealth =
     (case getGPUHealth reply exporterDown of
        (hMap, st) \<Rightarrow>
          (applyHealth hMap defaultHealth
             (partitionBDF fs glob ''/sys/devices/platform'' ''/sys/class/kfd/kfd'') devs, st))"

section \<open>The stream to kubelet\<close>

text \<open>
  What wakes \<open>serveDevices\<close> up, in the order the \<open>select\<close> takes it: a heartbeat with the file system, the
  answer of the exporter, the plugin state and the DRM test at that moment, and whether the \<open>Send\<close>
  that follows succeeds; the end of the stream; a signal.
\<close>

record beat =
  B_files :: files
  B_glob :: "string \<Rightarrow> string list"
  B_reply :: exporter_reply
  B_plugin :: plugin
  B_functional :: "string \<Rightarrow> bool"
  B_sent :: bool

datatype wakeup = Heartbeat beat | StreamDone | Signal

definition beat_devices :: "beat \<Rightarrow> bool \<Rightarrow> kubelet_device list \<Rightarrow> kubelet_device list \<times> exporter_log list \<times> bool" where
  "beat_devices b exporterDown devs =
     (case PopulatePerGPUDHealth (B_files b) (B_glob b) (B_reply b) exporterDown devs True of
        (devs', st) \<Rightarrow> (markNonFunctional (B_plugin b) (B_functional b) devs', st))"

text \<open>The lists sent after the first one and whether the stream ended with an error (\<open>None\<close>: it still
  waits for the next wake-up).\<close>

fun serve_loop :: "bool \<Rightarrow> kubelet_device list \<Rightarrow> wakeup list \<Rightarrow> kubelet_device list list \<times> exporter_log list \<times> bool option" where
  "serve_loop exporterDown devs [] = ([], [], None)"
| "serve_loop exporterDown devs (StreamDone # ws) = ([], [], Some False)"
| "serve_loop exporterDown devs (Signal # ws) = ([], [], Some False)"
| "serve_loop exporterDown devs (Heartbeat b # ws) =
     (case beat_devices b exporterDown devs of
        (devs', ls, down) \<Rightarrow>
          if \<not> B_sent b then ([devs'], ls, Some True)
          else (case serve_loop down devs' ws of (sent, ls', r) \<Rightarrow> (devs' # sent, ls @ ls', r)))"

definition serveDevices ::
  "bool \<Rightarrow> kubelet_device list \<Rightarrow> bool \<Rightarrow> wakeup list \<Rightarrow> kubelet_device list list \<times> exporter_log list \<times> bool option" where
  "serveDevices exporterDown devs first_sent ws =
     (if \<not> first_sent then ([devs], [], Some True)
      else (case serve_loop exporterDown devs ws of (sent, ls, r) \<Rightarrow> (devs # sent, ls, r)))"

section \<open>Events of the registration\<close>

record gpuState =
  GS_State :: string
  GS_Index :: int
  GS_BDF :: string

record healthEvent =
  EV_Type :: string
  EV_Reason :: string
  EV_Message :: string

type_synonym gpu_states = "(string \<times> gpuState) list"

definition gpuHealthy :: string where "gpuHealthy = ''healthy''"
definition gpuUnhealthy :: string where "gpuUnhealthy = ''unhealthy''"
definition gpuMissing :: string where "gpuMissing = ''missing''"
definition reasonUnhealthy :: string where "reasonUnhealthy = ''AMDGPUUnhealthy''"
definition reasonMissing :: string where "reasonMissing = ''AMDGPUMissing''"
definition reasonRecovered :: string where "reasonRecovered = ''AMDGPURecovered''"

definition custom_string :: "DeviceInfo \<Rightarrow> string \<Rightarrow> string" where
  "custom_string d key = (case map_of (DI_CustomInfo d) key of Some (CString s) \<Rightarrow> s | _ \<Rightarrow> [])"

definition seen_state :: "DeviceInfo \<Rightarrow> gpuState" where
  "seen_state d = \<lparr>GS_State = (if DI_Health d then gpuHealthy else gpuUnhealthy), GS_Index = DI_Index d,
     GS_BDF = custom_string d ''pciBDF''\<rparr>"

definition current_states :: "DeviceInfo list \<Rightarrow> gpu_states" where
  "current_states current = fold (\<lambda>d. assoc_update (DI_ID d) (seen_state d)) current []"

definition event_text :: "gpuState \<Rightarrow> string \<Rightarrow> string \<Rightarrow> string" where
  "event_text s ident what = ''GPU '' @ Itoa (GS_Index s) @ '' ('' @ GS_BDF s @ '', '' @ ident @ '') is '' @ what"

text \<open>The switch: what is remembered of a GPU and the Event, from its state before and its state now.\<close>

definition gpu_transition ::
  "string \<Rightarrow> gpuState option \<Rightarrow> gpuState option \<Rightarrow> gpuState option \<times> healthEvent option" where
  "gpu_transition ident before now =
     (case (now, before) of
        (None, Some b) \<Rightarrow>
          if GS_State b \<noteq> gpuMissing
          then (Some (b\<lparr>GS_State := gpuMissing\<rparr>),
                Some \<lparr>EV_Type = ''Warning'', EV_Reason = reasonMissing,
                  EV_Message = event_text b ident ''no longer registered, no pod can be placed on it''\<rparr>)
          else (Some b, None)
      | (None, None) \<Rightarrow> (None, None)
      | (Some n, was) \<Rightarrow>
          if GS_State n = gpuUnhealthy \<and> (case was of None \<Rightarrow> True | Some b \<Rightarrow> GS_State b \<noteq> gpuUnhealthy)
          then (Some n, Some \<lparr>EV_Type = ''Warning'', EV_Reason = reasonUnhealthy,
                  EV_Message = event_text n ident ''unhealthy, the scheduler stops placing pods on it''\<rparr>)
          else if GS_State n = gpuHealthy \<and> (case was of None \<Rightarrow> False | Some b \<Rightarrow> GS_State b \<noteq> gpuHealthy)
          then (Some n, Some \<lparr>EV_Type = ''Normal'', EV_Reason = reasonRecovered,
                  EV_Message = event_text n ident ''healthy again''\<rparr>)
          else (Some n, None))"

text \<open>The loop over the sorted ids; every Event keeps the id it is about.\<close>

fun transition_loop :: "gpu_states \<Rightarrow> string list \<Rightarrow> gpu_states \<Rightarrow> (string \<times> healthEvent) list \<times> gpu_states" where
  "transition_loop previous [] next1 = ([], next1)"
| "transition_loop previous (ident # ids) next1 =
     (case gpu_transition ident (map_of previous ident) (map_of next1 ident) of
        (st, ev) \<Rightarrow>
          (case transition_loop previous ids (case st of None \<Rightarrow> next1 | Some s \<Rightarrow> assoc_update ident s next1) of
             (evs, next2) \<Rightarrow> (case ev of None \<Rightarrow> evs | Some e \<Rightarrow> (ident, e) # evs, next2)))"

definition transitions :: "gpu_states option \<Rightarrow> DeviceInfo list \<Rightarrow> (string \<times> healthEvent) list \<times> gpu_states" where
  "transitions previous current =
     (let next1 = current_states current in
      case previous of
        None \<Rightarrow> ([], next1)
      | Some prev \<Rightarrow>
          transition_loop prev (sort (map fst prev @ filter (\<lambda>i. i \<notin> fst ` set prev) (map fst next1))) next1)"

definition healthTransitions :: "gpu_states option \<Rightarrow> DeviceInfo list \<Rightarrow> healthEvent list \<times> gpu_states" where
  "healthTransitions previous current =
     (case transitions previous current of (evs, next1) \<Rightarrow> (map snd evs, next1))"

section \<open>Lookups\<close>

lemma current_states_distinct: "distinct (map fst (current_states current))"
proof -
  have "distinct (map fst m) \<Longrightarrow> distinct (map fst (fold (\<lambda>d. assoc_update (DI_ID d) (seen_state d)) current m))" for m
    by (induction current arbitrary: m) (auto intro: distinct_assoc_update)
  then show ?thesis by (simp add: current_states_def)
qed

lemma current_states_dom: "fst ` set (current_states current) = DI_ID ` set current"
proof -
  have "fst ` set (fold (\<lambda>d. assoc_update (DI_ID d) (seen_state d)) current m) = fst ` set m \<union> DI_ID ` set current" for m
    by (induction current arbitrary: m) (auto simp: keys_assoc_update)
  then show ?thesis by (simp add: current_states_def)
qed

lemma current_states_snoc: "map_of (current_states (ds @ [d])) = (map_of (current_states ds))(DI_ID d \<mapsto> seen_state d)"
  by (simp add: current_states_def map_of_assoc_update)

lemma current_states_healthy:
  "map_of (current_states current) i = Some s \<Longrightarrow> GS_State s = gpuHealthy \<or> GS_State s = gpuUnhealthy"
proof (induction current rule: rev_induct)
  case Nil
  then show ?case by (simp add: current_states_def)
next
  case (snoc d ds)
  then show ?case by (cases "i = DI_ID d") (auto simp: current_states_snoc seen_state_def)
qed

lemma health_words [simp]:
  "gpuHealthy \<noteq> gpuUnhealthy" "gpuUnhealthy \<noteq> gpuHealthy" "gpuHealthy \<noteq> gpuMissing" "gpuMissing \<noteq> gpuHealthy"
  "gpuUnhealthy \<noteq> gpuMissing" "gpuMissing \<noteq> gpuUnhealthy"
  "reasonMissing \<noteq> reasonUnhealthy" "reasonMissing \<noteq> reasonRecovered" "reasonUnhealthy \<noteq> reasonRecovered"
  "reasonUnhealthy \<noteq> reasonMissing" "reasonRecovered \<noteq> reasonMissing" "reasonRecovered \<noteq> reasonUnhealthy"
  by (simp_all add: gpuHealthy_def gpuUnhealthy_def gpuMissing_def reasonMissing_def reasonUnhealthy_def reasonRecovered_def)

section \<open>One registration\<close>

lemma gpu_transition_None [simp]: "gpu_transition i None None = (None, None)"
  by (simp add: gpu_transition_def)

lemma gpu_transition_now [simp]: "fst (gpu_transition i before (Some n)) = Some n"
  by (simp add: gpu_transition_def)


definition remember :: "string \<Rightarrow> gpuState option \<Rightarrow> gpu_states \<Rightarrow> gpu_states" where
  "remember i st m = (case st of None \<Rightarrow> m | Some s \<Rightarrow> assoc_update i s m)"

definition emitted :: "string \<Rightarrow> healthEvent option \<Rightarrow> (string \<times> healthEvent) list" where
  "emitted i ev = (case ev of None \<Rightarrow> [] | Some e \<Rightarrow> [(i, e)])"

lemma transition_loop_Cons:
  "transition_loop prev (i # ids) next1 =
    (let t = gpu_transition i (map_of prev i) (map_of next1 i);
         r = transition_loop prev ids (remember i (fst t) next1)
     in (emitted i (snd t) @ fst r, snd r))"
proof (cases "gpu_transition i (map_of prev i) (map_of next1 i)")
  case (Pair st ev)
  then show ?thesis
    by (cases "transition_loop prev ids (remember i st next1)"; cases ev; cases st)
      (simp_all add: remember_def emitted_def)
qed

lemma map_of_remember: "map_of (remember i st m) j = (if j = i \<and> st \<noteq> None then st else map_of m j)"
  by (auto simp: remember_def map_of_assoc_update split: option.splits)

lemma filter_emitted: "filter (\<lambda>e. fst e = j) (emitted i ev) = (if j = i then emitted i ev else [])"
  by (simp add: emitted_def split: option.splits)

lemma transition_loop_other:
  "i \<notin> set ids \<Longrightarrow> map_of (snd (transition_loop prev ids next1)) i = map_of next1 i
     \<and> filter (\<lambda>e. fst e = i) (fst (transition_loop prev ids next1)) = []"
proof (induction ids arbitrary: next1)
  case (Cons j ids)
  then show ?case
    by (simp add: transition_loop_Cons Let_def map_of_remember filter_emitted del: transition_loop.simps)
qed simp

lemma transition_loop_at:
  assumes "distinct ids" "i \<in> set ids"
  shows "map_of (snd (transition_loop prev ids next1)) i =
      (case fst (gpu_transition i (map_of prev i) (map_of next1 i)) of None \<Rightarrow> map_of next1 i | Some s \<Rightarrow> Some s)
    \<and> filter (\<lambda>e. fst e = i) (fst (transition_loop prev ids next1))
      = emitted i (snd (gpu_transition i (map_of prev i) (map_of next1 i)))"
  using assms
proof (induction ids arbitrary: next1)
  case (Cons j ids)
  show ?case
  proof (cases "i = j")
    case True
    then have "i \<notin> set ids" using Cons.prems by simp
    then show ?thesis using True
      by (simp add: transition_loop_Cons Let_def map_of_remember filter_emitted transition_loop_other
          del: transition_loop.simps split: option.splits)
  next
    case False
    with Cons.prems Cons.IH [of "remember j (fst (gpu_transition j (map_of prev j) (map_of next1 j))) next1"] show ?thesis
      by (simp add: transition_loop_Cons Let_def map_of_remember filter_emitted del: transition_loop.simps
          split: option.splits)
  qed
qed simp

lemma transition_loop_distinct:
  "distinct (map fst next1) \<Longrightarrow> distinct (map fst (snd (transition_loop prev ids next1)))"
proof (induction ids arbitrary: next1)
  case (Cons j ids)
  have "distinct (map fst (remember j st next1))" for st
    using Cons.prems by (simp add: remember_def distinct_assoc_update split: option.splits)
  then show ?case by (simp add: transition_loop_Cons Let_def Cons.IH del: transition_loop.simps)
qed simp

lemma gpu_transition_fst: "fst (gpu_transition i b n) = None \<longleftrightarrow> b = None \<and> n = None"
  by (simp add: gpu_transition_def split: option.splits)

text \<open>After the first registration every GPU moves by its own transition and emits its own Event.\<close>

lemma transitions_per_gpu:
  fixes prev :: gpu_states and current :: "DeviceInfo list"
  assumes "distinct (map fst prev)"
  defines "t \<equiv> \<lambda>i. gpu_transition i (map_of prev i) (map_of (current_states current) i)"
  shows "map_of (snd (transitions (Some prev) current)) i = fst (t i)
    \<and> filter (\<lambda>e. fst e = i) (fst (transitions (Some prev) current)) = emitted i (snd (t i))"
proof -
  let ?next = "current_states current"
  let ?ids = "sort (map fst prev @ filter (\<lambda>i. i \<notin> fst ` set prev) (map fst ?next))"
  have d: "distinct ?ids" using assms(1) current_states_distinct [of current] by (auto simp: distinct_filter)
  have set: "set ?ids = fst ` set prev \<union> fst ` set ?next" by auto
  have tr: "transitions (Some prev) current = transition_loop prev ?ids ?next" by (simp add: transitions_def Let_def)
  show ?thesis
  proof (cases "i \<in> set ?ids")
    case True
    from transition_loop_at [OF d True, of prev ?next] show ?thesis
      by (auto simp: tr t_def gpu_transition_fst split: option.splits)
  next
    case False
    then have "map_of prev i = None" "map_of ?next i = None" unfolding set by (auto simp: map_of_eq_None_iff)
    with transition_loop_other [OF False, of prev ?next] show ?thesis by (simp add: tr t_def emitted_def)
  qed
qed

lemma transitions_distinct: "distinct (map fst (snd (transitions previous current)))"
  using current_states_distinct [of current]
  by (cases previous) (simp_all add: transitions_def Let_def transition_loop_distinct)

section \<open>A history of registrations\<close>

text \<open>\<open>monitored hist st evlog\<close>: after the registrations \<open>hist\<close> (the newest first) the plugin remembers
  \<open>st\<close> and has recorded the Events \<open>evlog\<close> (the oldest first).\<close>

inductive monitored :: "DeviceInfo list list \<Rightarrow> gpu_states option \<Rightarrow> (string \<times> healthEvent) list \<Rightarrow> bool" where
  start: "monitored [] None []"
| register: "monitored hist st evlog \<Longrightarrow>
    monitored (current # hist) (Some (snd (transitions st current))) (evlog @ fst (transitions st current))"

inductive_cases monitored_startE: "monitored [] st evlog"
inductive_simps monitored_register: "monitored (current # hist) st evlog"

text \<open>What the history says of a GPU: the health it was last registered with, or that it is gone.\<close>

definition health_in :: "DeviceInfo list \<Rightarrow> string \<Rightarrow> string option" where
  "health_in current i = map_option GS_State (map_of (current_states current) i)"

fun health_after :: "DeviceInfo list list \<Rightarrow> string \<Rightarrow> string option" where
  "health_after [] i = None"
| "health_after (current # hist) i =
     (case health_in current i of
        Some s \<Rightarrow> Some s
      | None \<Rightarrow> (case health_after hist i of None \<Rightarrow> None | Some _ \<Rightarrow> Some gpuMissing))"

text \<open>The health a GPU is taken to have before its first Event: that of the first registration, healthy
  for a GPU that turns up later.\<close>

definition health_at_start :: "DeviceInfo list list \<Rightarrow> string \<Rightarrow> string" where
  "health_at_start hist i =
     (case hist of [] \<Rightarrow> gpuHealthy
      | _ \<Rightarrow> (case health_in (last hist) i of None \<Rightarrow> gpuHealthy | Some s \<Rightarrow> s))"

definition reason_health :: "string \<Rightarrow> string" where
  "reason_health r = (if r = reasonMissing then gpuMissing else if r = reasonUnhealthy then gpuUnhealthy else gpuHealthy)"

text \<open>What the Events of a GPU say, one after the other.\<close>

definition told :: "DeviceInfo list list \<Rightarrow> (string \<times> healthEvent) list \<Rightarrow> string \<Rightarrow> string list" where
  "told hist evlog i =
     health_at_start hist i # map (\<lambda>e. reason_health (EV_Reason (snd e))) (filter (\<lambda>e. fst e = i) evlog)"

fun no_repeat :: "'a list \<Rightarrow> bool" where
  "no_repeat (x # y # xs) = (x \<noteq> y \<and> no_repeat (y # xs))"
| "no_repeat _ = True"

lemma no_repeat_snoc: "xs \<noteq> [] \<Longrightarrow> no_repeat (xs @ [y]) \<longleftrightarrow> no_repeat xs \<and> last xs \<noteq> y"
  by (induction xs rule: no_repeat.induct) auto

lemma monitored_None: "monitored hist None evlog \<Longrightarrow> hist = [] \<and> evlog = []"
  by (cases rule: monitored.cases) auto

lemma gpu_transition_reason:
  assumes "\<And>n. now = Some n \<Longrightarrow> GS_State n = gpuHealthy \<or> GS_State n = gpuUnhealthy"
    and "\<And>b. before = Some b \<Longrightarrow> GS_State b \<in> {gpuHealthy, gpuUnhealthy, gpuMissing}"
  defines "s \<equiv> (case before of None \<Rightarrow> gpuHealthy | Some b \<Rightarrow> GS_State b)"
  shows "case snd (gpu_transition i before now) of
      None \<Rightarrow> (case fst (gpu_transition i before now) of None \<Rightarrow> True | Some x \<Rightarrow> GS_State x = s)
    | Some e \<Rightarrow> (case fst (gpu_transition i before now) of None \<Rightarrow> False
        | Some x \<Rightarrow> reason_health (EV_Reason e) = GS_State x \<and> GS_State x \<noteq> s)"
  using assms by (cases now; cases before) (auto simp: gpu_transition_def reason_health_def)

lemma health_after_words: "health_after hist i = Some s \<Longrightarrow> s \<in> {gpuHealthy, gpuUnhealthy, gpuMissing}"
proof (induction hist arbitrary: s)
  case (Cons current hist)
  then show ?case using current_states_healthy [of current i]
    by (auto simp: health_in_def split: option.splits)
qed simp

lemma monitored_invariant:
  assumes "monitored hist st evlog"
  shows "(case st of None \<Rightarrow> hist = []
      | Some m \<Rightarrow> hist \<noteq> [] \<and> distinct (map fst m)
          \<and> (\<forall>i. map_option GS_State (map_of m i) = health_after hist i))
    \<and> (\<forall>i. case health_after hist i of
             None \<Rightarrow> told hist evlog i = [gpuHealthy]
           | Some s \<Rightarrow> last (told hist evlog i) = s \<and> no_repeat (told hist evlog i))"
  using assms
proof (induction rule: monitored.induct)
  case start
  then show ?case by (simp add: told_def health_at_start_def)
next
  case (register hist st evlog current)
  let ?h = "current # hist"
  show ?case
  proof (cases st)
    case None
    with monitored_None register.hyps have [simp]: "hist = []" "evlog = []" by auto
    show ?thesis
      using current_states_distinct [of current]
      by (auto simp: None transitions_def told_def health_at_start_def health_in_def split: option.splits)
  next
    case (Some m)
    with register.IH have m: "hist \<noteq> []" "distinct (map fst m)"
      "\<And>i. map_option GS_State (map_of m i) = health_after hist i"
      and told: "\<And>i. case health_after hist i of
             None \<Rightarrow> told hist evlog i = [gpuHealthy]
           | Some s \<Rightarrow> last (told hist evlog i) = s \<and> no_repeat (told hist evlog i)" by auto
    let ?t = "\<lambda>i. gpu_transition i (map_of m i) (map_of (current_states current) i)"
    note per = transitions_per_gpu [OF m(2), of current]
    have after: "map_option GS_State (fst (?t i)) = health_after ?h i" for i
      using m(3) [of i, symmetric]
      by (cases "map_of (current_states current) i"; cases "map_of m i")
        (simp_all add: health_in_def gpu_transition_def)
    have words: "GS_State b \<in> {gpuHealthy, gpuUnhealthy, gpuMissing}" if "map_of m i = Some b" for i b
      using health_after_words [of hist i] m(3) [of i, symmetric] that by auto
    have start: "health_at_start ?h i = health_at_start hist i" for i
      using m(1) by (cases hist) (simp_all add: health_at_start_def)
    have told': "told ?h (evlog @ fst (transitions (Some m) current)) i
        = told hist evlog i @ map (\<lambda>e. reason_health (EV_Reason (snd e))) (emitted i (snd (?t i)))" for i
      using per by (simp add: told_def start)
    have ne: "told hist evlog i \<noteq> []" for i by (simp add: told_def)
    have "case health_after ?h i of
             None \<Rightarrow> told ?h (evlog @ fst (transitions (Some m) current)) i = [gpuHealthy]
           | Some s \<Rightarrow> last (told ?h (evlog @ fst (transitions (Some m) current)) i) = s
               \<and> no_repeat (told ?h (evlog @ fst (transitions (Some m) current)) i)" for i
    proof -
      have old: "last (told hist evlog i) = (case map_of m i of None \<Rightarrow> gpuHealthy | Some b \<Rightarrow> GS_State b)
          \<and> no_repeat (told hist evlog i) \<and> (map_of m i = None \<longrightarrow> told hist evlog i = [gpuHealthy])"
        using told [of i] m(3) [of i, symmetric] by (cases "map_of m i") auto
      have r: "case snd (?t i) of
          None \<Rightarrow> (case fst (?t i) of None \<Rightarrow> True | Some x \<Rightarrow> GS_State x = last (told hist evlog i))
        | Some e \<Rightarrow> (case fst (?t i) of None \<Rightarrow> False
            | Some x \<Rightarrow> reason_health (EV_Reason e) = GS_State x \<and> GS_State x \<noteq> last (told hist evlog i))"
        unfolding old [THEN conjunct1]
        by (rule gpu_transition_reason) (use current_states_healthy words in blast)+
      show ?thesis
        using old r after [of i, symmetric] gpu_transition_fst [of i "map_of m i" "map_of (current_states current) i"]
        by (cases "snd (?t i)"; cases "fst (?t i)") (auto simp: told' emitted_def no_repeat_snoc [OF ne])
    qed
    moreover have "map_option GS_State (map_of (snd (transitions (Some m) current)) i) = health_after ?h i" for i
      using per after by simp
    ultimately show ?thesis
      unfolding Some using transitions_distinct [of "Some m" current] by (simp del: health_after.simps)
  qed
qed

section \<open>Heartbeats\<close>

text \<open>The heartbeats whose list is sent, the last one possibly in vain.\<close>

fun served_beats :: "wakeup list \<Rightarrow> beat list" where
  "served_beats (Heartbeat b # ws) = b # (if B_sent b then served_beats ws else [])"
| "served_beats _ = []"

text \<open>The health of a device at a heartbeat: what the exporter says of its GPU, healthy when it says
  nothing, and whether the DRM card of the GPU can be opened.\<close>

definition reported_map :: "exporter_reply \<Rightarrow> (string \<times> bool) list" where
  "reported_map reply = (case reply of Listed gpus \<Rightarrow> fold add_gpu_health gpus [] | _ \<Rightarrow> [])"

definition beat_health :: "beat \<Rightarrow> string \<Rightarrow> bool" where
  "beat_health b kid =
     ((case map_of (reported_map (B_reply b))
          (partitionBDF (B_files b) (B_glob b) ''/sys/devices/platform'' ''/sys/class/kfd/kfd'' (before_hash kid)) of
         None \<Rightarrow> True | Some h \<Rightarrow> h)
      \<and> gpu_functional (AMDGPUs (B_plugin b)) (B_functional b) (before_hash kid))"

lemma getGPUHealth_map: "fst (getGPUHealth reply down) = reported_map reply"
  by (simp add: getGPUHealth_def reported_map_def split: exporter_reply.split)

lemma markNonFunctional_map:
  "markNonFunctional p functional devs =
     map (\<lambda>d. d\<lparr>KHealthy := KHealthy d \<and> gpu_functional (AMDGPUs p) functional (before_hash (KID d))\<rparr>) devs"
  by (auto simp: markNonFunctional_def mark_loop_eq)

lemma beat_devices_eq:
  "fst (beat_devices b down devs) = map (\<lambda>d. d\<lparr>KHealthy := beat_health b (KID d)\<rparr>) devs"
  by (cases "getGPUHealth (B_reply b) down")
    (use getGPUHealth_map [of "B_reply b" down] in
      \<open>auto simp: beat_devices_def PopulatePerGPUDHealth_def applyHealth_def markNonFunctional_map beat_health_def
         split: option.splits\<close>)

lemma beat_health_again:
  "map (\<lambda>d. d\<lparr>KHealthy := beat_health b' (KID d)\<rparr>) (map (\<lambda>d. d\<lparr>KHealthy := beat_health b (KID d)\<rparr>) devs)
    = map (\<lambda>d. d\<lparr>KHealthy := beat_health b' (KID d)\<rparr>) devs"
  by simp

lemma serve_loop_lists:
  "fst (serve_loop down (map (\<lambda>d. d\<lparr>KHealthy := h (KID d)\<rparr>) devs) ws)
     = map (\<lambda>b. map (\<lambda>d. d\<lparr>KHealthy := beat_health b (KID d)\<rparr>) devs) (served_beats ws)"
proof (induction ws arbitrary: down h)
  case (Cons w ws)
  show ?case
  proof (cases w)
    case (Heartbeat b)
    let ?devs = "map (\<lambda>d. d\<lparr>KHealthy := h (KID d)\<rparr>) devs"
    obtain ls down' where st: "beat_devices b down ?devs = (map (\<lambda>d. d\<lparr>KHealthy := beat_health b (KID d)\<rparr>) devs, ls, down')"
      using beat_devices_eq [of b down ?devs] by (cases "beat_devices b down ?devs") (auto simp: comp_def)
    have IH: "fst (serve_loop down' (map (\<lambda>d. d\<lparr>KHealthy := beat_health b (KID d)\<rparr>) devs) ws)
        = map (\<lambda>b. map (\<lambda>d. d\<lparr>KHealthy := beat_health b (KID d)\<rparr>) devs) (served_beats ws)"
      by (rule Cons.IH)
    show ?thesis
      by (cases "serve_loop down' (map (\<lambda>d. d\<lparr>KHealthy := beat_health b (KID d)\<rparr>) devs) ws")
        (use IH in \<open>simp add: Heartbeat st del: map_map\<close>)
  qed simp_all
qed simp

text \<open>What the log says: an outage is warned about once, its end is announced once.\<close>

definition outage_log :: "bool \<Rightarrow> exporter_log list \<Rightarrow> exporter_log list" where
  "outage_log down ls = (if down then WarnUnreachable else ReachableAgain) # filter (\<lambda>l. l \<noteq> StillUnreachable) ls"

lemma beat_outage:
  assumes "beat_devices b down devs = (devs', ls, down')"
  shows "(\<exists>l. ls = [l] \<and> l = WarnUnreachable \<and> \<not> down \<and> down') \<or> (\<exists>l. ls = [l] \<and> l = ReachableAgain \<and> down \<and> \<not> down')
    \<or> (filter (\<lambda>l. l \<noteq> StillUnreachable) ls = [] \<and> down' = down)"
  using assms
  by (auto simp: beat_devices_def PopulatePerGPUDHealth_def getGPUHealth_def logExporterState_def
      split: exporter_reply.splits if_splits prod.splits)

lemma serve_loop_outages: "no_repeat (outage_log down (fst (snd (serve_loop down devs ws))))"
proof (induction ws arbitrary: down devs)
  case Nil
  show ?case by (simp add: outage_log_def)
next
  case (Cons w ws)
  show ?case
  proof (cases w)
    case (Heartbeat b)
    obtain devs' ls down' where st: "beat_devices b down devs = (devs', ls, down')" by (cases "beat_devices b down devs")
    obtain sent ls' r where rest: "serve_loop down' devs' ws = (sent, ls', r)" by (cases "serve_loop down' devs' ws")
    have IH: "no_repeat (outage_log down' ls')" using Cons.IH [of down' devs'] rest by simp
    have eq: "fst (snd (serve_loop down devs (Heartbeat b # ws))) = ls @ (if B_sent b then ls' else [])"
      by (simp add: st rest)
    from beat_outage [OF st] show ?thesis
      unfolding Heartbeat eq by (elim disjE) (use IH in \<open>auto simp: outage_log_def\<close>)
  qed (simp_all add: outage_log_def)
qed

section \<open>Properties\<close>

text \<open>C18: the lists sent to kubelet have the same devices in the same order every time, and each
  list sent at a heartbeat has the health of that moment: a device is healthy exactly when the exporter
  does not report its GPU as sick and the DRM card of the GPU can be opened; no earlier answer is left
  over. The stream stops at the first failed send. The log warns once about an outage of the exporter and
  announces its end once.\<close>

theorem heartbeats_are_fresh:
  "fst (serveDevices down devs True ws)
     = devs # map (\<lambda>b. map (\<lambda>d. d\<lparr>KHealthy := beat_health b (KID d)\<rparr>) devs) (served_beats ws)
   \<and> no_repeat (outage_log down (fst (snd (serveDevices down devs True ws))))"
proof -
  have "fst (serve_loop down devs ws) = map (\<lambda>b. map (\<lambda>d. d\<lparr>KHealthy := beat_health b (KID d)\<rparr>) devs) (served_beats ws)"
  proof (cases ws)
    case (Cons w ws')
    show ?thesis
    proof (cases w)
      case (Heartbeat b)
      obtain ls down' where st: "beat_devices b down devs = (map (\<lambda>d. d\<lparr>KHealthy := beat_health b (KID d)\<rparr>) devs, ls, down')"
        using beat_devices_eq [of b down devs] by (cases "beat_devices b down devs") auto
      show ?thesis
        using serve_loop_lists [of down' "beat_health b" devs ws'] by (auto simp: Cons Heartbeat st split: prod.splits)
    qed (simp_all add: Cons)
  qed simp
  then show ?thesis
    using serve_loop_outages [of down devs ws] by (cases "serve_loop down devs ws") (simp add: serveDevices_def)
qed

text \<open>C17: the Events of a GPU tell its health. After any sequence of registrations the plugin remembers
  for every GPU what the last one said of it (its health, or that it is missing once it was registered),
  and the Events recorded for the GPU, read from its health at the start, end in that state and never
  report the same state twice: no change is missed and none is reported without a change. The first
  registration is only the baseline.\<close>

theorem events_track_health:
  assumes "monitored hist (Some states) evlog"
  shows "map_option GS_State (map_of states i) = health_after hist i
    \<and> (case health_after hist i of
         None \<Rightarrow> told hist evlog i = [gpuHealthy]
       | Some s \<Rightarrow> last (told hist evlog i) = s \<and> no_repeat (told hist evlog i))"
  using monitored_invariant [OF assms] by simp

definition sample_info :: "string \<Rightarrow> bool \<Rightarrow> DeviceInfo" where
  "sample_info i h = \<lparr>DI_ID = i, DI_Index = 1, DI_Count = 2, DI_Devmem = 1024, DI_Devcore = 32, DI_Type = ''amd-gpu'',
     DI_Numa = 0, DI_Mode = [], DI_Health = h, DI_DeviceVendor = ''amd'', DI_CustomInfo = []\<rparr>"

lemma sample_history:
  "\<exists>st evlog. monitored [[sample_info ''G'' False], [], [sample_info ''G'' True]] (Some st) evlog"
  by (meson monitored.intros)

theorem events_track_health_witness:
  "\<exists>st evlog. monitored [[sample_info ''G'' False], [], [sample_info ''G'' True]] (Some st) evlog
     \<and> health_after [[sample_info ''G'' False], [], [sample_info ''G'' True]] ''G'' = Some gpuUnhealthy
     \<and> last (told [[sample_info ''G'' False], [], [sample_info ''G'' True]] evlog ''G'') = gpuUnhealthy"
proof -
  have h: "health_after [[sample_info ''G'' False], [], [sample_info ''G'' True]] ''G'' = Some gpuUnhealthy"
    by (simp add: health_in_def current_states_def seen_state_def sample_info_def)
  from sample_history obtain st evlog where
    "monitored [[sample_info ''G'' False], [], [sample_info ''G'' True]] (Some st) evlog" by blast
  with events_track_health [OF this, of "''G''"] h show ?thesis by (simp only: option.case) blast
qed

end
