(* ===== verification/Discovery.thy ===== *)
theory Discovery
  imports Health
begin

text \<open>
  What discovery (\<open>Amdgpu.thy\<close>) guarantees: every GPU it returns has all its fields, so that the
  unchecked type assertions of the code that reads them cannot panic; an XCP partition has the address,
  the partition types and the NUMA node of a GPU; capacity is never over-committed by partitions; and the
  health of a partition is looked up under the PCI address of its GPU.
\<close>

section \<open>Complete entries\<close>

definition has_fields :: "device_data \<Rightarrow> bool" where
  "has_fields d \<longleftrightarrow> d_card d \<noteq> None \<and> d_renderD d \<noteq> None \<and> d_devID d \<noteq> None \<and> d_computePartitionType d \<noteq> None
     \<and> d_memoryPartitionType d \<noteq> None \<and> d_computePartitionFixed d \<noteq> None \<and> d_numaNode d \<noteq> None \<and> d_nodeId d \<noteq> None"

definition complete_map :: "gpu_map \<Rightarrow> bool" where
  "complete_map m \<longleftrightarrow> distinct (map fst m) \<and> (\<forall>(key, d) \<in> set m. has_fields d)"

lemma assoc_update_mem: "x \<in> set (assoc_update k v m) \<Longrightarrow> x = (k, v) \<or> x \<in> set m"
  by (induction m) (auto split: if_splits)

lemma assoc_update_keep: "(j, w) \<in> set m \<Longrightarrow> j \<noteq> k \<Longrightarrow> (j, w) \<in> set (assoc_update k v m)"
  by (induction m) auto

lemma assoc_update_self: "(k, v) \<in> set (assoc_update k v m)"
  by (induction m) auto

lemma complete_map_update: "complete_map m \<Longrightarrow> has_fields d \<Longrightarrow> complete_map (assoc_update key d m)"
  using distinct_assoc_update [of m key d] by (auto simp: complete_map_def dest!: assoc_update_mem)

lemma complete_map_Nil [simp]: "complete_map []"
  by (simp add: complete_map_def)

lemma pci_device_complete: "pci_device fs glob stat ids nodes path = Some d \<Longrightarrow> has_fields d"
  by (auto simp: pci_device_def Let_def has_fields_def split: option.splits sum.splits prod.splits if_splits)

lemma partition_source_mem:
  "partition_source devID m = Some g \<Longrightarrow>
     \<exists>key. (key, g) \<in> set m \<and> d_devID g = Some devID \<and> str_of (d_computePartitionType g) \<noteq> []
       \<and> str_of (d_memoryPartitionType g) \<noteq> []"
  by (auto simp: partition_source_def find_Some_iff) (metis nth_mem)

lemma xcp_device_source:
  assumes "xcp_device iter glob ids nodes devices path = Some d"
  obtains g devID cardN renderD fixed1 where
    "partition_source devID (iter devices) = Some g" and "int_of (d_numaNode g) \<noteq> -1"
    and "d = g\<lparr>d_card := Some cardN, d_renderD := Some renderD, d_devID := Some devID,
               d_computePartitionFixed := Some fixed1, d_nodeId := Some (lookup_int nodes renderD)\<rparr>"
    and "drmNodes glob path = (cardN, renderD, True)" and "map_of ids renderD = Some devID"
  using assms by (auto simp: xcp_device_def Let_def split: prod.splits bool.splits option.splits if_splits)

text \<open>The invariant of the second loop: entries of PCI GPUs are those the first loop found, and a
  partition agrees with one of them.\<close>

definition agrees :: "device_data \<Rightarrow> device_data \<Rightarrow> bool" where
  "agrees d g \<longleftrightarrow> d_devID d = d_devID g \<and> d_computePartitionType d = d_computePartitionType g
     \<and> d_memoryPartitionType d = d_memoryPartitionType g \<and> d_numaNode d = d_numaNode g
     \<and> str_of (d_computePartitionType d) \<noteq> [] \<and> str_of (d_memoryPartitionType d) \<noteq> []"

definition partitions_ok :: "gpu_map \<Rightarrow> gpu_map \<Rightarrow> bool" where
  "partitions_ok pcis m \<longleftrightarrow> complete_map m \<and> (\<forall>(key, d) \<in> set m. \<not> is_xcp key \<longrightarrow> (key, d) \<in> set pcis)
     \<and> (\<forall>(key, d) \<in> set pcis. (key, d) \<in> set m)
     \<and> (\<forall>(key, d) \<in> set m. is_xcp key \<longrightarrow> (\<exists>(key', g) \<in> set pcis. agrees d g))"

lemma add_pci_ok:
  assumes "complete_map m \<and> (\<forall>(key, d) \<in> set m. \<not> is_xcp key)" and "\<not> is_xcp (file_Base path)"
  shows "complete_map (add_pci fs glob stat ids nodes path m)
    \<and> (\<forall>(key, d) \<in> set (add_pci fs glob stat ids nodes path m). \<not> is_xcp key)"
  using assms pci_device_complete [of fs glob stat ids nodes path]
  by (auto simp: add_pci_def complete_map_update dest!: assoc_update_mem split: option.splits)

lemma add_xcp_ok:
  assumes inv: "partitions_ok pcis m" and pcis: "\<forall>(key, d) \<in> set pcis. \<not> is_xcp key"
    and iter: "\<And>m. set (iter m) \<subseteq> set m" and xcp: "is_xcp (file_Base path)"
  shows "partitions_ok pcis (add_xcp iter glob ids nodes path m)"
proof (cases "xcp_device iter glob ids nodes m path")
  case None
  then show ?thesis using inv by (simp add: add_xcp_def)
next
  case (Some d)
  then obtain g devID cardN renderD fixed1 where
    src: "partition_source devID (iter m) = Some g" and d:
    "d = g\<lparr>d_card := Some cardN, d_renderD := Some renderD, d_devID := Some devID,
           d_computePartitionFixed := Some fixed1, d_nodeId := Some (lookup_int nodes renderD)\<rparr>"
    by (rule xcp_device_source)
  from partition_source_mem [OF src] iter obtain key where
    g: "(key, g) \<in> set m" "d_devID g = Some devID" "str_of (d_computePartitionType g) \<noteq> []"
      "str_of (d_memoryPartitionType g) \<noteq> []" by blast
  have "has_fields g" using inv g(1) by (auto simp: partitions_ok_def complete_map_def)
  then have cd: "has_fields d" by (simp add: d has_fields_def)
  have ag: "agrees d g" using g by (simp add: agrees_def d)
  have "\<exists>(key', g') \<in> set pcis. agrees d g'"
  proof (cases "is_xcp key")
    case True
    with inv g(1) obtain key' g' where "(key', g') \<in> set pcis" "agrees g g'" by (force simp: partitions_ok_def)
    moreover have "agrees d g'" using ag \<open>agrees g g'\<close> unfolding agrees_def by auto
    ultimately show ?thesis by blast
  next
    case False
    with inv g(1) have "(key, g) \<in> set pcis" by (force simp: partitions_ok_def)
    with ag show ?thesis by blast
  qed
  then have fit: "\<exists>(key', g') \<in> set pcis. agrees d g'" .
  let ?m = "assoc_update (file_Base path) d m"
  have "complete_map ?m" using inv cd by (simp add: partitions_ok_def complete_map_update)
  moreover have "(key, e) \<in> set pcis" if "(key, e) \<in> set ?m" "\<not> is_xcp key" for key e
    using assoc_update_mem [OF that(1)] that(2) inv xcp unfolding partitions_ok_def by blast
  moreover have "(key, e) \<in> set ?m" if "(key, e) \<in> set pcis" for key e
    using that inv pcis xcp by (intro assoc_update_keep) (auto simp: partitions_ok_def)
  moreover have "\<exists>(key', g') \<in> set pcis. agrees e g'" if "(key, e) \<in> set ?m" "is_xcp key" for key e
    using assoc_update_mem [OF that(1)] that(2) inv fit unfolding partitions_ok_def by blast
  ultimately show ?thesis unfolding add_xcp_def Some partitions_ok_def by auto
qed

text \<open>What \<open>filepath.Glob\<close> returns for the two patterns.\<close>

definition globs_ok :: "(string \<Rightarrow> string list) \<Rightarrow> string \<Rightarrow> bool" where
  "globs_ok glob sysRootDir \<longleftrightarrow> (\<forall>path \<in> set (glob (sysRootDir @ pciGPUGlob)). \<not> is_xcp (file_Base path))
     \<and> (\<forall>path \<in> set (glob (sysRootDir @ ''/devices/platform/amdgpu_xcp_*'')). is_xcp (file_Base path))"

lemma discoverGPUs_ok:
  assumes "globs_ok glob sysRootDir" and iter: "\<And>m. set (iter m) \<subseteq> set m"
  shows "\<exists>pcis. (\<forall>(key, d) \<in> set pcis. \<not> is_xcp key) \<and> partitions_ok pcis (discoverGPUs fs glob stat iter sysRootDir ids nodes)"
proof -
  let ?pci = "fold (add_pci fs glob stat ids nodes) (glob (sysRootDir @ pciGPUGlob)) []"
  have pci: "complete_map ?pci \<and> (\<forall>(key, d) \<in> set ?pci. \<not> is_xcp key)"
    by (rule fold_invariant [where Q = "\<lambda>path. \<not> is_xcp (file_Base path)"])
      (use assms(1) add_pci_ok in \<open>auto simp: globs_ok_def\<close>)
  then have base: "partitions_ok ?pci ?pci" by (auto simp: partitions_ok_def)
  have "partitions_ok ?pci (discoverGPUs fs glob stat iter sysRootDir ids nodes)"
    unfolding discoverGPUs_def
    by (rule fold_invariant [where Q = "\<lambda>path. is_xcp (file_Base path)"])
      (use assms(1) base add_xcp_ok [OF _ pci [THEN conjunct2] iter] in \<open>auto simp: globs_ok_def\<close>)
  with pci show ?thesis by blast
qed

lemma discoverGPUs_complete:
  assumes iter: "\<And>m. set (iter m) \<subseteq> set m"
  shows "complete_map (discoverGPUs fs glob stat iter sysRootDir ids nodes)"
proof -
  have pci: "complete_map (add_pci fs glob stat ids nodes path m)" if "complete_map m" for path m
    using that pci_device_complete [of fs glob stat ids nodes path]
    by (auto simp: add_pci_def complete_map_update split: option.splits)
  have xcp: "complete_map (add_xcp iter glob ids nodes path m)" if m: "complete_map m" for path m
  proof (cases "xcp_device iter glob ids nodes m path")
    case (Some d)
    then obtain g devID cardN renderD fixed1 where
      src: "partition_source devID (iter m) = Some g" and d:
      "d = g\<lparr>d_card := Some cardN, d_renderD := Some renderD, d_devID := Some devID,
             d_computePartitionFixed := Some fixed1, d_nodeId := Some (lookup_int nodes renderD)\<rparr>"
      by (rule xcp_device_source)
    from partition_source_mem [OF src] iter m have "has_fields g" by (fastforce simp: complete_map_def)
    then have "has_fields d" by (simp add: d has_fields_def)
    with m show ?thesis by (simp add: add_xcp_def Some complete_map_update)
  qed (simp add: add_xcp_def m)
  have "complete_map (fold (add_pci fs glob stat ids nodes) ps [])" for ps
    by (rule fold_invariant [where Q = "\<lambda>_. True"]) (use pci in auto)
  moreover have "complete_map (fold (add_xcp iter glob ids nodes) ps m)" if "complete_map m" for ps m
    by (rule fold_invariant [where Q = "\<lambda>_. True"]) (use xcp that in auto)
  ultimately show ?thesis unfolding discoverGPUs_def by blast
qed

lemma withoutExcluded_mem: "set (withoutExcluded gpus ids) \<subseteq> set gpus"
  by (auto simp: withoutExcluded_def)

lemma withoutExcluded_complete: "complete_map gpus \<Longrightarrow> complete_map (withoutExcluded gpus ids)"
  unfolding complete_map_def withoutExcluded_def by (auto intro: distinct_map_filter)

lemma GetAMDGPUs_complete:
  assumes "GetAMDGPUs fs glob stat iter excluded sysRootDir = Some gpus" and "\<And>m. set (iter m) \<subseteq> set m"
  shows "complete_map gpus"
  using assms(1) discoverGPUs_complete [OF assms(2)] withoutExcluded_complete
  by (auto simp: GetAMDGPUs_def Let_def split: if_splits)

section \<open>Reading complete entries\<close>

lemma UniquePartitionConfigCount_total:
  "\<forall>(key, d) \<in> set gpus. has_fields d \<Longrightarrow> \<exists>counts'. UniquePartitionConfigCount gpus counts = Some counts'"
proof (induction gpus arbitrary: counts)
  case (Cons x gpus)
  obtain key d where x: "x = (key, d)" by (cases x)
  with Cons.prems obtain counts1 where "count_partition d counts = Some counts1"
    by (cases "d_computePartitionType d"; cases "d_memoryPartitionType d") (auto simp: count_partition_def has_fields_def)
  moreover have "\<exists>counts'. UniquePartitionConfigCount gpus counts1 = Some counts'" using Cons by simp
  ultimately show ?case by (simp add: x)
qed simp

lemma device_entry_total: "has_fields d \<Longrightarrow> \<exists>e. device_entry p fs key d = Some e"
  by (auto simp: device_entry_def has_fields_def split: option.splits)

lemma devices_by_type_total:
  "\<forall>(key, d) \<in> set gpus. has_fields d \<Longrightarrow> \<exists>byType'. devices_by_type p fs parents gpus byType = Some byType'"
proof (induction gpus arbitrary: byType)
  case (Cons x gpus)
  obtain key d where x: "x = (key, d)" by (cases x)
  obtain e where "device_entry p fs key d = Some e" using Cons.prems device_entry_total [of d p fs key] by (auto simp: x)
  then show ?case using Cons by (auto simp: x split: prod.splits)
qed simp

lemma kubeletDevices_total: "complete_map gpus \<Longrightarrow> \<exists>devs. kubeletDevices p fs gpus homogeneous resource = Some devs"
  using devices_by_type_total [of gpus p fs "xcpParents gpus" "[]"] by (auto simp: kubeletDevices_def complete_map_def)

lemma IsHomogeneous_total: "complete_map gpus \<Longrightarrow> \<exists>h. IsHomogeneous gpus = Some h"
  using UniquePartitionConfigCount_total [of gpus "[]"] by (auto simp: IsHomogeneous_def complete_map_def)

section \<open>Capacity\<close>

lemma partition_fits: "0 \<le> x \<Longrightarrow> 1 \<le> n \<Longrightarrow> n * (x div n) \<le> (x :: int)"
proof -
  assume "1 \<le> n"
  then have "0 \<le> x mod n" by simp
  with mult_div_mod_eq [of n x] show ?thesis by linarith
qed

section \<open>PCI addresses\<close>

lemma hex_text_chars: "c \<in> set (hex_text n) \<Longrightarrow> \<exists>d < 16. c = hex_digit d"
proof (induction n rule: hex_text.induct)
  case (1 n)
  show ?case
  proof (cases "n < 16")
    case True
    with 1(2) have "c = hex_digit n" by (subst (asm) hex_text.simps) simp
    with True show ?thesis by blast
  next
    case False
    with 1(2) have "c \<in> set (hex_text (n div 16)) \<or> c = hex_digit (n mod 16)" by (subst (asm) hex_text.simps) auto
    moreover have "n mod 16 < 16" by simp
    ultimately show ?thesis using 1(1) [OF False] by blast
  qed
qed

lemma hex_digit_colon: "d < 16 \<Longrightarrow> hex_digit d \<noteq> CHR '':'' \<and> hex_digit d \<noteq> CHR ''.''"
proof -
  assume "d < 16"
  then have "d \<in> {0..<16}" by simp
  then show ?thesis by (auto simp: hex_digit_def digit_char_def char_of_def upt_rec bit_Suc bit_0 atLeastLessThan_nat_numeral)
qed

lemma hex_pad_free: "CHR '':'' \<notin> set (hex_pad w n)"
proof -
  have "\<forall>d < 16. hex_digit d \<noteq> CHR '':''" using hex_digit_colon by blast
  then show ?thesis unfolding hex_pad_def by (auto dest!: hex_text_chars)
qed

lemma kfd_to_pci_devID:
  "kfd_to_pci (devID_text domain loc) =
     hex_pad 4 domain @ '':'' @ hex_pad 2 (loc div 256 mod 256) @ '':'' @ hex_pad 2 (loc div 8 mod 32) @ ''.0''"
proof -
  let ?front = "hex_pad 4 domain @ '':'' @ hex_pad 2 (loc div 256 mod 256) @ '':'' @ hex_pad 2 (loc div 8 mod 32)"
  have t: "devID_text domain loc = ?front @ CHR '':'' # ''0''" by (simp add: devID_text_def)
  have "LastIndex (devID_text domain loc) '':'' = int (length ?front)"
    unfolding t using LastIndex_char_sep [of "CHR '':''" "''0''" ?front] by simp
  then have i: "nat (LastIndex (devID_text domain loc) '':'') = length ?front" by (simp only: nat_int)
  have "take (length ?front) (?front @ CHR '':'' # ''0'') = ?front" by (simp only: append_take_drop_id take_append) simp
  moreover have "drop (length ?front + 1) (?front @ CHR '':'' # ''0'') = ''0''" by (simp del: append_assoc)
  ultimately show ?thesis unfolding kfd_to_pci_def Let_def i unfolding t by (simp del: length_append)
qed

lemma dev_id_colon: "Contains (devID_text domain loc) '':''"
  by (simp add: devID_text_def)

lemma Split_at_sep: "Split c (s @ c # t) = Split c s @ Split c t"
  by (induction s) (auto split: list.splits simp: Cons_eq_append_conv)

lemma file_Base_name:
  assumes "CHR ''/'' \<notin> set name" "name \<noteq> []"
  shows "file_Base (dir @ ''/'' @ name) = name"
proof -
  have "dropWhile (\<lambda>c. c = CHR ''/'') (rev (dir @ ''/'' @ name)) = rev (dir @ ''/'' @ name)"
    using assms by (cases name rule: rev_cases) auto
  moreover have "last (Split (CHR ''/'') (dir @ CHR ''/'' # name)) = name"
    by (simp add: Split_at_sep Split_free [OF assms(1)])
  ultimately show ?thesis by (simp add: file_Base_def Let_def)
qed

section \<open>Properties\<close>

text \<open>C19: discovery cannot make its readers panic. Every GPU that \<open>GetAMDGPUs\<close> returns has a card, a
  render node, an address, partition types, a NUMA node and a KFD node, under pairwise different keys and
  none of them excluded, so that the unchecked type assertions of \<open>IsHomogeneous\<close> and of the device list
  for kubelet succeed, whatever the files hold and whatever the order of the map.\<close>

theorem discovery_no_panic:
  assumes "GetAMDGPUs fs glob stat iter (SetExcluded ids) sysRootDir = Some gpus" and "\<And>m. set (iter m) \<subseteq> set m"
  shows "distinct (map fst gpus) \<and> (\<forall>(key, d) \<in> set gpus. has_fields d \<and> ToLower key \<notin> set (SetExcluded ids)
      \<and> ''card'' @ Itoa (int_of (d_card d)) \<notin> set (SetExcluded ids))
    \<and> IsHomogeneous gpus \<noteq> None \<and> kubeletDevices p fs gpus homogeneous resource \<noteq> None"
proof -
  have c: "complete_map gpus" by (rule GetAMDGPUs_complete [OF assms])
  moreover have "\<forall>(key, d) \<in> set gpus. ToLower key \<notin> set (SetExcluded ids)
      \<and> ''card'' @ Itoa (int_of (d_card d)) \<notin> set (SetExcluded ids)"
    using assms(1) by (auto simp: GetAMDGPUs_def Let_def withoutExcluded_def split: if_splits)
  ultimately show ?thesis
    using kubeletDevices_total [OF c, of p fs homogeneous resource] IsHomogeneous_total [OF c]
    by (auto simp: complete_map_def)
qed

text \<open>C20: partitions belong to a GPU. Every XCP partition that discovery returns has the address, the
  partition types and the NUMA node of a PCI GPU that it found, and its partition types are known.\<close>

theorem partitions_of_found_gpus:
  assumes "globs_ok glob sysRootDir" and "\<And>m. set (iter m) \<subseteq> set m"
    and "(key, d) \<in> set (discoverGPUs fs glob stat iter sysRootDir ids nodes)" and "is_xcp key"
  shows "\<exists>key' g. (key', g) \<in> set (discoverGPUs fs glob stat iter sysRootDir ids nodes) \<and> \<not> is_xcp key' \<and> agrees d g"
proof -
  from discoverGPUs_ok [OF assms(1,2)] obtain pcis where
    p: "\<forall>(key, d) \<in> set pcis. \<not> is_xcp key" "partitions_ok pcis (discoverGPUs fs glob stat iter sysRootDir ids nodes)"
    by blast
  from p(2) assms(3,4) obtain key' g where "(key', g) \<in> set pcis" "agrees d g" by (force simp: partitions_ok_def)
  with p show ?thesis unfolding partitions_ok_def by blast
qed

text \<open>The health of a partition is looked up under its GPU. The id of an XCP partition is mapped to the
  PCI address \<open>domain:bus:device.0\<close> that the kernel encodes in the KFD location of its render node, in the
  spelling of sysfs, and any other id is left as it is.\<close>

theorem partition_health_address:
  assumes "glob (path_Join [platformDir, ident, ''drm'', ''renderD*'']) = [dir @ ''/renderD'' @ Itoa (int minor)]"
    and "map_of (GetDevIdsFromTopology fs glob topoRoot) (int minor) = Some (devID_text domain loc)" and "minor < 2 ^ 63"
  shows "partitionBDF fs glob platformDir topoRoot ident =
    (if is_xcp ident then hex_pad 4 domain @ '':'' @ hex_pad 2 (loc div 256 mod 256) @ '':'' @ hex_pad 2 (loc div 8 mod 32) @ ''.0''
     else ident)"
proof -
  have "CHR ''/'' \<notin> set (Itoa (int minor))" by (auto dest: set_Itoa simp: is_digit_def)
  then have b: "file_Base (dir @ ''/renderD'' @ Itoa (int minor)) = ''renderD'' @ Itoa (int minor)"
    using file_Base_name [of "''renderD'' @ Itoa (int minor)" dir] by simp
  have "int minor < 2 ^ 63" using assms(3) by simp
  then have "Atoi (Itoa (int minor)) = Inr (int minor)" by (simp add: Itoa_int Atoi_digits_of)
  then show ?thesis
    using b TrimPrefix_append [of "''renderD''" "Itoa (int minor)"]
    by (simp add: partitionBDF_def is_xcp_def assms(1,2) kfd_to_pci_devID)
qed

text \<open>A GPU whose \<open>numa_node\<close> file holds -1, as on a machine without NUMA, loses all of its partitions:
  -1 also means that no GPU was found.\<close>

theorem numa_unknown_drops_partitions:
  assumes "partition_source devID (iter devices) = Some g" and "d_numaNode g = Some (-1)"
    and "drmNodes glob path = (cardN, renderD, ok)" and "map_of ids renderD = Some devID"
  shows "add_xcp iter glob ids nodes path devices = devices"
  using assms by (simp add: add_xcp_def xcp_device_def Let_def split: bool.splits)

section \<open>A node with one partitioned GPU\<close>

definition disc_node_props :: "nat \<Rightarrow> nat \<Rightarrow> (string \<times> nat) list" where
  "disc_node_props minor loc = [(''drm_render_minor'', minor), (''location_id'', loc), (''domain'', 0)]"

definition disc_files :: "(string \<times> string) list" where
  "disc_files =
     [(''/s/class/kfd/kfd/topology/nodes/1/properties'', properties_text (disc_node_props 128 768)),
      (''/s/class/kfd/kfd/topology/nodes/2/properties'', properties_text (disc_node_props 129 769)),
      (''/p/0000:03:00.0/numa_node'', ''0''), (''/p/0000:03:00.0/current_compute_partition'', ''DPX''),
      (''/p/0000:03:00.0/current_memory_partition'', ''NPS1'')]"

definition disc_globs :: "(string \<times> string list) list" where
  "disc_globs =
     [(''/s/class/kfd/kfd/topology/nodes/*/properties'',
         [''/s/class/kfd/kfd/topology/nodes/1/properties'', ''/s/class/kfd/kfd/topology/nodes/2/properties'']),
      (''/s'' @ pciGPUGlob, [''/p/0000:03:00.0'']),
      (''/s/devices/platform/amdgpu_xcp_*'', [''/x/amdgpu_xcp_0'']),
      (''/p/0000:03:00.0/drm/*'', [''/p/0000:03:00.0/drm/card0'', ''/p/0000:03:00.0/drm/renderD128'']),
      (''/x/amdgpu_xcp_0/drm/*'', [''/x/amdgpu_xcp_0/drm/card1'', ''/x/amdgpu_xcp_0/drm/renderD129'']),
      (''/x/amdgpu_xcp_0/drm/renderD*'', [''/x/amdgpu_xcp_0/drm/renderD129''])]"

definition disc_fs :: files where
  "disc_fs = map_of disc_files"

definition disc_glob :: "string \<Rightarrow> string list" where
  "disc_glob pat = (case map_of disc_globs pat of None \<Rightarrow> [] | Some ps \<Rightarrow> ps)"

lemmas path_eval = path_Join_def path_Clean_def HasPrefix_def file_Base_def file_Dir_def CutPrefix_def

lemmas number_eval = Atoi_def ParseInt10_def all_digits_def digits_val_def is_digit_def digit_val_def

lemma disc_node_wf: "minor < 1000 \<Longrightarrow> loc < 1000 \<Longrightarrow> \<forall>kv \<in> set (disc_node_props minor loc). wf_property kv"
proof -
  have len: "length (digits_of n) < 10" if "n < 1000" for n
  proof -
    have "n div 10 < 100" "n div 10 div 10 < 10" using that by simp_all
    then show ?thesis
      by (simp add: digits_of.simps [of n] digits_of.simps [of "n div 10"] digits_of.simps [of "n div 10 div 10"])
  qed
  assume "minor < 1000" "loc < 1000"
  with len [of minor] len [of loc] show ?thesis
    by (simp add: disc_node_props_def wf_property_def property_line_def is_re_space_def digits_of.simps)
qed

lemma disc_node_property:
  assumes "disc_fs path = Some (properties_text (disc_node_props minor loc))" "minor < 1000" "loc < 1000"
  shows "ParseTopologyProperties disc_fs path ''drm_render_minor'' = Inr (int minor)"
    and "ParseTopologyProperties disc_fs path ''location_id'' = Inr (int loc)"
    and "ParseTopologyProperties disc_fs path ''domain'' = Inr 0"
  using ParseTopologyProperties_text [of disc_fs path, OF assms(1) disc_node_wf [OF assms(2,3)], of "''drm_render_minor''"]
    ParseTopologyProperties_text [of disc_fs path, OF assms(1) disc_node_wf [OF assms(2,3)], of "''location_id''"]
    ParseTopologyProperties_text [of disc_fs path, OF assms(1) disc_node_wf [OF assms(2,3)], of "''domain''"]
  by (simp_all add: disc_node_props_def HasSuffix_def is_re_space_def)

lemma disc_nodes:
  "disc_fs ''/s/class/kfd/kfd/topology/nodes/1/properties'' = Some (properties_text (disc_node_props 128 768))"
  "disc_fs ''/s/class/kfd/kfd/topology/nodes/2/properties'' = Some (properties_text (disc_node_props 129 769))"
  "node_files disc_glob ''/s/class/kfd/kfd'' =
     [''/s/class/kfd/kfd/topology/nodes/1/properties'', ''/s/class/kfd/kfd/topology/nodes/2/properties'']"
  by (simp_all add: disc_fs_def disc_files_def node_files_def disc_glob_def disc_globs_def)

lemma disc_render:
  "render_minor disc_fs ''/s/class/kfd/kfd/topology/nodes/1/properties'' = Some 128"
  "render_minor disc_fs ''/s/class/kfd/kfd/topology/nodes/2/properties'' = Some 129"
  by (simp_all add: render_minor_def disc_node_property [OF disc_nodes(1)] disc_node_property [OF disc_nodes(2)])

lemma replicate_3: "replicate 3 c = [c, c, c]"
  by (simp add: numeral_3_eq_3)

lemma disc_devID: "devID_text 0 768 = ''0000:03:00:0''" "devID_text 0 769 = ''0000:03:00:0''"
  by (simp_all add: devID_text_def hex_pad_def hex_text.simps hex_digit_def digit_char_def char_of_def bit_Suc bit_0
      replicate_3)

lemma disc_dev_ids:
  "GetDevIdsFromTopology disc_fs disc_glob ''/s/class/kfd/kfd'' = [(128, ''0000:03:00:0''), (129, ''0000:03:00:0'')]"
  by (simp add: GetDevIdsFromTopology_def disc_nodes(3) add_dev_id_def disc_render
      disc_node_property [OF disc_nodes(1)] disc_node_property [OF disc_nodes(2)] disc_devID)

lemma disc_node_ids: "GetNodeIdsFromTopology disc_fs disc_glob ''/s/class/kfd/kfd'' = [(128, 1), (129, 2)]"
  by (simp add: GetNodeIdsFromTopology_def disc_nodes(3) add_node_id_def disc_render path_eval number_eval)

definition disc_gpu :: device_data where
  "disc_gpu = \<lparr>d_card = Some 0, d_renderD = Some 128, d_devID = Some ''0000:03:00:0'', d_computePartitionType = Some ''dpx'',
     d_memoryPartitionType = Some ''nps1'', d_computePartitionFixed = Some False, d_numaNode = Some 0, d_nodeId = Some 1\<rparr>"

definition disc_xcp :: device_data where
  "disc_xcp = disc_gpu\<lparr>d_card := Some 1, d_renderD := Some 129, d_nodeId := Some 2\<rparr>"

lemma disc_drm:
  "drmNodes disc_glob ''/p/0000:03:00.0'' = (0, 128, True)" "drmNodes disc_glob ''/x/amdgpu_xcp_0'' = (1, 129, True)"
  by (simp_all add: drmNodes_def disc_glob_def disc_globs_def pciGPUGlob_def path_eval number_eval atoi0_def)

lemma disc_types:
  "readPartition disc_fs ''/p/0000:03:00.0/current_compute_partition'' = ''dpx''"
  "readPartition disc_fs ''/p/0000:03:00.0/current_memory_partition'' = ''nps1''"
  by (simp_all add: readPartition_def disc_fs_def disc_files_def ToLower_def lower_char_def char_of_def bit_Suc bit_0)

lemma disc_pci:
  "pci_device disc_fs disc_glob (\<lambda>_. True) [(128, ''0000:03:00:0''), (129, ''0000:03:00:0'')] [(128, 1), (129, 2)]
     ''/p/0000:03:00.0'' = Some disc_gpu"
proof -
  have j: "path_Join [''/p/0000:03:00.0'', ''current_compute_partition''] = ''/p/0000:03:00.0/current_compute_partition''"
    "path_Join [''/p/0000:03:00.0'', ''current_memory_partition''] = ''/p/0000:03:00.0/current_memory_partition''"
    "path_Join [''/p/0000:03:00.0'', ''numa_node''] = ''/p/0000:03:00.0/numa_node''" by (simp_all add: path_eval)
  have n: "disc_fs ''/p/0000:03:00.0/numa_node'' = Some ''0''" by (simp add: disc_fs_def disc_files_def)
  show ?thesis
    by (simp add: pci_device_def Let_def j disc_types n disc_drm number_eval lookup_str_def lookup_int_def disc_gpu_def)
qed

lemma disc_discover:
  "discoverGPUs disc_fs disc_glob (\<lambda>_. True) (\<lambda>m. m) ''/s'' [(128, ''0000:03:00:0''), (129, ''0000:03:00:0'')] [(128, 1), (129, 2)]
     = [(''0000:03:00.0'', disc_gpu), (''amdgpu_xcp_0'', disc_xcp)]"
proof -
  have g: "disc_glob (''/s'' @ pciGPUGlob) = [''/p/0000:03:00.0'']"
    "disc_glob (''/s'' @ ''/devices/platform/amdgpu_xcp_*'') = [''/x/amdgpu_xcp_0'']"
    by (simp_all add: disc_glob_def disc_globs_def pciGPUGlob_def)
  have b: "file_Base ''/p/0000:03:00.0'' = ''0000:03:00.0''" "file_Base ''/x/amdgpu_xcp_0'' = ''amdgpu_xcp_0''"
    by (simp_all add: path_eval)
  have x: "xcp_device (\<lambda>m. m) disc_glob [(128, ''0000:03:00:0''), (129, ''0000:03:00:0'')] [(128, 1), (129, 2)]
      [(''0000:03:00.0'', disc_gpu)] ''/x/amdgpu_xcp_0'' = Some disc_xcp"
    by (simp add: xcp_device_def disc_drm partition_source_def disc_xcp_def disc_gpu_def lookup_int_def)
  show ?thesis by (simp only: discoverGPUs_def g fold_simps add_pci_def disc_pci add_xcp_def b) (simp add: x)
qed

lemma disc_GetAMDGPUs:
  "GetAMDGPUs disc_fs disc_glob (\<lambda>_. True) (\<lambda>m. m) (SetExcluded []) ''/s''
     = Some [(''0000:03:00.0'', disc_gpu), (''amdgpu_xcp_0'', disc_xcp)]"
proof -
  have k: "path_Join [''/s'', ''class/kfd/kfd''] = ''/s/class/kfd/kfd''" by (simp add: path_eval)
  show ?thesis
    by (simp add: GetAMDGPUs_def Let_def k disc_dev_ids disc_node_ids disc_discover withoutExcluded_def SetExcluded_def)
qed

section \<open>Witnesses\<close>

theorem discovery_no_panic_witness:
  "IsHomogeneous [(''0000:03:00.0'', disc_gpu), (''amdgpu_xcp_0'', disc_xcp)] \<noteq> None
   \<and> (\<forall>p. kubeletDevices p disc_fs [(''0000:03:00.0'', disc_gpu), (''amdgpu_xcp_0'', disc_xcp)] True [] \<noteq> None)"
  using discovery_no_panic [OF disc_GetAMDGPUs subset_refl] by blast

lemma disc_globs_ok: "globs_ok disc_glob ''/s''"
proof -
  have g: "disc_glob (''/s'' @ pciGPUGlob) = [''/p/0000:03:00.0'']"
    "disc_glob (''/s'' @ ''/devices/platform/amdgpu_xcp_*'') = [''/x/amdgpu_xcp_0'']"
    by (simp_all add: disc_glob_def disc_globs_def pciGPUGlob_def)
  show ?thesis unfolding globs_ok_def g by (simp add: path_eval is_xcp_def)
qed

theorem partitions_of_found_gpus_witness:
  "\<exists>key' g. (key', g) \<in> set [(''0000:03:00.0'', disc_gpu), (''amdgpu_xcp_0'', disc_xcp)] \<and> \<not> is_xcp key' \<and> agrees disc_xcp g"
  using partitions_of_found_gpus [OF disc_globs_ok subset_refl, of "''amdgpu_xcp_0''" disc_xcp disc_fs "\<lambda>_. True"
      "[(128, ''0000:03:00:0''), (129, ''0000:03:00:0'')]" "[(128, 1), (129, 2)]", unfolded disc_discover]
  by (simp add: is_xcp_def HasPrefix_def)

theorem partition_health_address_witness:
  "partitionBDF disc_fs disc_glob ''/x'' ''/s/class/kfd/kfd'' ''amdgpu_xcp_0'' = ''0000:03:00.0''"
proof -
  have g: "disc_glob (path_Join [''/x'', ''amdgpu_xcp_0'', ''drm'', ''renderD*'']) = [''/x/amdgpu_xcp_0/drm'' @ ''/renderD'' @ Itoa (int 129)]"
    by (simp add: path_eval disc_glob_def disc_globs_def pciGPUGlob_def Itoa_def digits_of.simps digit_char_def char_of_def
        bit_Suc bit_0)
  have m: "map_of (GetDevIdsFromTopology disc_fs disc_glob ''/s/class/kfd/kfd'') (int 129) = Some (devID_text 0 769)"
    by (simp add: disc_dev_ids disc_devID)
  have x: "is_xcp ''amdgpu_xcp_0''" by (simp add: is_xcp_def HasPrefix_def)
  have t: "hex_pad 4 0 @ '':'' @ hex_pad 2 (769 div 256 mod 256) @ '':'' @ hex_pad 2 (769 div 8 mod 32) @ ''.0'' = ''0000:03:00.0''"
    by (simp add: hex_pad_def hex_text.simps hex_digit_def digit_char_def char_of_def bit_Suc bit_0 replicate_3)
  have "(129::nat) < 2 ^ 63" by simp
  from partition_health_address [OF g m this] show ?thesis unfolding if_P [OF x] t .
qed

end
