(* ===== verification/Amdsmi.thy ===== *)
theory Amdsmi
  imports DeviceIds
begin

text \<open>
  AMD SMI lookups by PCI address: \<open>internal/pkg/amdsmi/amdsmi.go\<close>. The C library is a parameter: the
  record \<open>smi\<close> holds what the static C functions of the file return, \<open>None\<close> for a status other than
  success. A lookup runs in one session; its results are keyed by the address in the spelling of AMD SMI
  and in the spelling it was asked for, and lookups that are static per card go through a cache. The Go
  error of a lookup is the list of the addresses that failed.
\<close>

section \<open>Addresses\<close>

definition normalizeBDF :: "string \<Rightarrow> string" where
  "normalizeBDF bdf =
     (case Split (CHR '':'') bdf of
        [a, b, c, d] \<Rightarrow> if \<not> Contains d ''.'' then Join [a, b, c] '':'' @ ''.'' @ d else bdf
      | _ \<Rightarrow> bdf)"

definition raw_bdf :: "string \<Rightarrow> string" where
  "raw_bdf bdf = ToLower (TrimSpace bdf)"

section \<open>The C library\<close>

record nps_profile =
  N_index :: int
  N_type :: int
  N_caps :: nat
  N_partitions :: int

record resource_profile =
  R_index :: int
  R_xcc :: bool
  R_count :: int

record smi =
  smi_init :: bool
  uuid_for_bdf :: "string \<Rightarrow> string option"
  product_name_for_bdf :: "string \<Rightarrow> string option"
  memory_partition_for_bdf :: "string \<Rightarrow> string option"
  partition_profiles_for_bdf :: "string \<Rightarrow> (nps_profile list \<times> resource_profile list) option"
  set_partition_for_bdf :: "string \<Rightarrow> int \<Rightarrow> bool"

section \<open>Lookups\<close>

text \<open>The loop over the addresses; a value is a trimmed text, an empty one is no result.\<close>

fun query_loop ::
  "(string \<Rightarrow> 'v option) \<Rightarrow> ('v \<Rightarrow> 'v option) \<Rightarrow> string list \<Rightarrow> (string \<times> 'v) list \<times> string list
     \<Rightarrow> (string \<times> 'v) list \<times> string list" where
  "query_loop query use [] r = r"
| "query_loop query use (bdf0 # bdfs) (byBDF, failures) =
     (let raw = raw_bdf bdf0; bdf = normalizeBDF raw in
      if bdf = [] then query_loop query use bdfs (byBDF, failures)
      else case query bdf of
             None \<Rightarrow> query_loop query use bdfs (byBDF, failures @ [bdf])
           | Some v \<Rightarrow>
               (case use v of
                  None \<Rightarrow> query_loop query use bdfs (byBDF, failures)
                | Some w \<Rightarrow> query_loop query use bdfs (assoc_update raw w (assoc_update bdf w byBDF), failures)))"

definition in_session :: "smi \<Rightarrow> string list \<Rightarrow> ((string \<times> 'v) list \<times> string list \<Rightarrow> (string \<times> 'v) list \<times> string list)
    \<Rightarrow> (string \<times> 'v) list \<times> string list" where
  "in_session c bdfs run = (if smi_init c then run ([], []) else ([], bdfs))"

definition trimmed :: "string \<Rightarrow> string option" where
  "trimmed v = (if TrimSpace v = [] then None else Some (TrimSpace v))"

definition queryByBDF :: "smi \<Rightarrow> (string \<Rightarrow> string option) \<Rightarrow> string list \<Rightarrow> (string \<times> string) list \<times> string list" where
  "queryByBDF c query bdfs = in_session c bdfs (query_loop query trimmed bdfs)"

definition fetchAMDSUUIDs :: "smi \<Rightarrow> string list \<Rightarrow> (string \<times> string) list \<times> string list" where
  "fetchAMDSUUIDs c = queryByBDF c (uuid_for_bdf c)"

definition fetchAMDSMIProductNames :: "smi \<Rightarrow> string list \<Rightarrow> (string \<times> string) list \<times> string list" where
  "fetchAMDSMIProductNames c = queryByBDF c (product_name_for_bdf c)"

definition GetAMDSCurrentMemoryPartitions :: "smi \<Rightarrow> string list \<Rightarrow> (string \<times> string) list \<times> string list" where
  "GetAMDSCurrentMemoryPartitions c bdfs =
     in_session c bdfs (query_loop (memory_partition_for_bdf c) (\<lambda>v. map_option ToLower (trimmed v)) bdfs)"

section \<open>Partition profiles\<close>

definition acceleratorPartitionTypeString :: "(string \<Rightarrow> int) \<Rightarrow> int \<Rightarrow> string" where
  "acceleratorPartitionTypeString k t =
     (case find (\<lambda>name. k (''AMDSMI_ACCELERATOR_PARTITION_'' @ name) = t) [''SPX'', ''DPX'', ''TPX'', ''QPX'', ''CPX''] of
        None \<Rightarrow> [] | Some name \<Rightarrow> name)"

definition npsCapsString :: "nat \<Rightarrow> string" where
  "npsCapsString caps =
     Join ((if bit caps 0 then [''NPS1''] else []) @ (if bit caps 1 then [''NPS2''] else [])
         @ (if bit caps 2 then [''NPS4''] else []) @ (if bit caps 3 then [''NPS8''] else [])) '',''"

fun xccPerPartition :: "resource_profile list \<Rightarrow> int \<Rightarrow> int" where
  "xccPerPartition [] profileIndex = 0"
| "xccPerPartition (res # rest) profileIndex =
     (if R_index res = profileIndex \<and> R_xcc res then R_count res else xccPerPartition rest profileIndex)"

definition xcc_total :: "PartitionProfile list \<Rightarrow> int" where
  "xcc_total profiles =
     fold (\<lambda>p total. if NumPartitions p = 1 \<and> XCCPerPartition p > 0 then XCCPerPartition p else total) profiles 0"

definition fillXCCPerPartition :: "PartitionProfile list \<Rightarrow> PartitionProfile list" where
  "fillXCCPerPartition profiles =
     (let total = xcc_total profiles in
      map (\<lambda>p. if XCCPerPartition p = 0 \<and> NumPartitions p > 0 \<and> total mod NumPartitions p = 0
               then p\<lparr>XCCPerPartition := total div NumPartitions p\<rparr> else p) profiles)"

definition partitionProfilesForBDF :: "smi \<Rightarrow> (string \<Rightarrow> int) \<Rightarrow> string \<Rightarrow> PartitionProfile list option" where
  "partitionProfilesForBDF c k bdf =
     (case partition_profiles_for_bdf c bdf of
        None \<Rightarrow> None
      | Some (profiles, resources) \<Rightarrow>
          Some (fillXCCPerPartition (map (\<lambda>p.
            \<lparr>ProfileIndex = N_index p, PP_Type = acceleratorPartitionTypeString k (N_type p),
             MemoryCaps = npsCapsString (N_caps p), NumPartitions = N_partitions p,
             XCCPerPartition = xccPerPartition resources (N_index p)\<rparr>) profiles)))"

definition fetchAMDGPUPartitionProfiles ::
  "smi \<Rightarrow> (string \<Rightarrow> int) \<Rightarrow> string list \<Rightarrow> (string \<times> PartitionProfile list) list \<times> string list" where
  "fetchAMDGPUPartitionProfiles c k bdfs =
     in_session c bdfs (query_loop (partitionProfilesForBDF c k) Some bdfs)"

text \<open>The first profile of the type asked for.\<close>

definition profile_index :: "PartitionProfile list \<Rightarrow> string \<Rightarrow> int" where
  "profile_index profiles computeType =
     (case find (\<lambda>p. EqualFold (PP_Type p) computeType) profiles of None \<Rightarrow> -1 | Some p \<Rightarrow> ProfileIndex p)"

text \<open>The flips sent to the library, in order, and the addresses that failed.\<close>

fun set_loop ::
  "smi \<Rightarrow> (string \<Rightarrow> int) \<Rightarrow> string \<Rightarrow> string list \<Rightarrow> string list \<Rightarrow> (string \<times> int) list \<times> string list" where
  "set_loop c k computeType seen [] = ([], [])"
| "set_loop c k computeType seen (bdf0 # bdfs) =
     (let bdf = normalizeBDF (raw_bdf bdf0) in
      if bdf = [] \<or> bdf \<in> set seen then set_loop c k computeType seen bdfs
      else case set_loop c k computeType (bdf # seen) bdfs of
             (flips, failures) \<Rightarrow>
               (case partitionProfilesForBDF c k bdf of
                  None \<Rightarrow> (flips, bdf # failures)
                | Some profiles \<Rightarrow>
                    (let i = profile_index profiles computeType in
                     if i < 0 then (flips, bdf # failures)
                     else ((bdf, i) # flips, if set_partition_for_bdf c bdf i then failures else bdf # failures))))"

definition SetGPUComputePartitions ::
  "smi \<Rightarrow> (string \<Rightarrow> int) \<Rightarrow> string list \<Rightarrow> string \<Rightarrow> (string \<times> int) list \<times> string list" where
  "SetGPUComputePartitions c k bdfs computeType =
     (if bdfs = [] then ([], [])
      else if \<not> smi_init c then ([], bdfs)
      else set_loop c k computeType [] bdfs)"

section \<open>The cache\<close>

text \<open>\<open>amdSMICache.Get\<close>: the result, what failed, and the new content of the cache.\<close>

definition cache_Get ::
  "(string list \<Rightarrow> (string \<times> 'v) list \<times> string list) \<Rightarrow> (string \<times> 'v) list \<Rightarrow> string list
     \<Rightarrow> (string \<times> 'v) list \<times> string list \<times> (string \<times> 'v) list" where
  "cache_Get fetcher stored bdfs =
     (let missing = filter (\<lambda>bdf. map_of stored bdf = None) bdfs;
          fetched = (if missing = [] then ([], []) else fetcher missing);
          stored' = fold (\<lambda>(k, v). assoc_update k v) (fst fetched) stored;
          out = fold (\<lambda>bdf m. case map_of stored' bdf of None \<Rightarrow> m | Some v \<Rightarrow> assoc_update bdf v m) bdfs []
      in (out, snd fetched, stored'))"

section \<open>The spelling of addresses\<close>

lemma normalizeBDF_cases:
  "normalizeBDF b = b \<or> (\<exists>a c d e. Split (CHR '':'') b = [a, c, d, e] \<and> \<not> Contains e ''.''
     \<and> normalizeBDF b = Join [a, c, d] '':'' @ ''.'' @ e)"
  unfolding normalizeBDF_def by (simp split: list.split)

lemma normalizeBDF_idem [simp]: "normalizeBDF (normalizeBDF b) = normalizeBDF b"
proof -
  consider "normalizeBDF b = b"
    | a c d e where "Split (CHR '':'') b = [a, c, d, e]" "normalizeBDF b = Join [a, c, d] '':'' @ ''.'' @ e"
    using normalizeBDF_cases by blast
  then show ?thesis
  proof cases
    case 2
    then have "a \<in> set (Split (CHR '':'') b)" "c \<in> set (Split (CHR '':'') b)" "d \<in> set (Split (CHR '':'') b)"
      "e \<in> set (Split (CHR '':'') b)" by simp_all
    note free = this [THEN Split_parts_free]
    have n: "normalizeBDF b = a @ CHR '':'' # c @ CHR '':'' # (d @ ''.'' @ e)" using 2 by simp
    have "Split (CHR '':'') (normalizeBDF b) = [a, c, d @ ''.'' @ e]"
      unfolding n using free by (simp add: Split_append_sep Split_free)
    then show ?thesis unfolding normalizeBDF_def [of "normalizeBDF b"] by simp
  qed simp
qed

lemma normalizeBDF_Nil_iff [simp]: "normalizeBDF b = [] \<longleftrightarrow> b = []"
proof
  assume "normalizeBDF b = []"
  then show "b = []" using normalizeBDF_cases [of b] by auto
qed (simp add: normalizeBDF_def)

section \<open>What a lookup answers\<close>

text \<open>The answer for one address, in either spelling.\<close>

definition answer :: "(string \<Rightarrow> 'v option) \<Rightarrow> ('v \<Rightarrow> 'v option) \<Rightarrow> string \<Rightarrow> 'v option" where
  "answer query use k = (if k = [] then None else Option.bind (query (normalizeBDF k)) use)"

lemma answer_normal [simp]: "answer query use (normalizeBDF k) = answer query use k"
  by (simp add: answer_def)

lemma query_loop_sound:
  "map_of (fst (query_loop query use bdfs (m, f))) k = Some v \<Longrightarrow> map_of m k = Some v \<or> answer query use k = Some v"
proof (induction bdfs arbitrary: m f)
  case (Cons b bdfs)
  let ?raw = "raw_bdf b"
  show ?case
  proof (cases "answer query use ?raw")
    case None
    then have "\<exists>f'. query_loop query use (b # bdfs) (m, f) = query_loop query use bdfs (m, f')"
      by (auto simp: answer_def Let_def split: option.splits if_splits)
    with Cons show ?thesis by metis
  next
    case (Some w)
    then have "query_loop query use (b # bdfs) (m, f)
        = query_loop query use bdfs (assoc_update ?raw w (assoc_update (normalizeBDF ?raw) w m), f)"
      by (auto simp: answer_def Let_def split: option.splits if_splits bind_splits)
    with Cons.IH Cons.prems have "map_of (assoc_update ?raw w (assoc_update (normalizeBDF ?raw) w m)) k = Some v
        \<or> answer query use k = Some v" by metis
    then show ?thesis
      using Some answer_normal [of query use ?raw] by (auto simp: map_of_assoc_update split: if_splits)
  qed
qed simp

lemma query_loop_complete:
  assumes "answer query use k = Some v"
  shows "map_of m k = Some v \<or> (\<exists>b \<in> set bdfs. raw_bdf b = k)
    \<Longrightarrow> map_of (fst (query_loop query use bdfs (m, f))) k = Some v"
proof (induction bdfs arbitrary: m f)
  case (Cons b bdfs)
  let ?raw = "raw_bdf b"
  show ?case
  proof (cases "answer query use ?raw")
    case None
    then have "\<exists>f'. query_loop query use (b # bdfs) (m, f) = query_loop query use bdfs (m, f')"
      by (auto simp: answer_def Let_def split: option.splits if_splits)
    moreover have "?raw \<noteq> k" using None assms by auto
    ultimately show ?thesis using Cons by (metis set_ConsD)
  next
    case (Some w)
    let ?m = "assoc_update ?raw w (assoc_update (normalizeBDF ?raw) w m)"
    have q: "query_loop query use (b # bdfs) (m, f) = query_loop query use bdfs (?m, f)"
      using Some by (auto simp: answer_def Let_def split: option.splits if_splits bind_splits)
    have "map_of ?m k = Some v \<or> (\<exists>b \<in> set bdfs. raw_bdf b = k)"
      using Cons.prems Some assms answer_normal [of query use ?raw] by (auto simp: map_of_assoc_update)
    then show ?thesis unfolding q by (rule Cons.IH)
  qed
qed simp

section \<open>Cached lookups\<close>

text \<open>What the cache relies on: for one state of the hardware the fetcher gives every address the same
  answer, in whatever batch it is asked for. Addresses are \<open>plain\<close> when they are spelled as the fetcher
  spells its keys.\<close>

definition faithful :: "(string \<Rightarrow> 'v option) \<Rightarrow> (string \<times> 'v) list \<Rightarrow> bool" where
  "faithful val stored \<longleftrightarrow> (\<forall>k v. map_of stored k = Some v \<longrightarrow> val k = Some v)"

locale static_lookup =
  fixes fetcher :: "string list \<Rightarrow> (string \<times> 'v) list \<times> string list" and val :: "string \<Rightarrow> 'v option"
    and plain :: "string \<Rightarrow> bool"
  assumes sound: "map_of (fst (fetcher bdfs)) k = Some v \<Longrightarrow> val k = Some v"
    and total: "k \<in> set bdfs \<Longrightarrow> plain k \<Longrightarrow> val k = Some v \<Longrightarrow> map_of (fst (fetcher bdfs)) k = Some v"
    and keys: "distinct (map fst (fst (fetcher bdfs)))"
begin

lemma merge: "distinct (map fst m) \<Longrightarrow>
    map_of (fold (\<lambda>(k, v). assoc_update k v) m stored) k = (case map_of m k of None \<Rightarrow> map_of stored k | Some v \<Rightarrow> Some v)"
proof (induction m arbitrary: stored)
  case (Cons x m)
  obtain j w where x: "x = (j, w)" by (cases x)
  have "j \<notin> fst ` set m" "distinct (map fst m)" using Cons.prems by (simp_all add: x)
  then have "map_of m j = None" by (simp add: map_of_eq_None_iff)
  with Cons.IH [OF \<open>distinct (map fst m)\<close>] show ?case by (auto simp: x map_of_assoc_update split: option.splits)
qed simp

lemma collect: "map_of (fold (\<lambda>bdf m. case map_of stored bdf of None \<Rightarrow> m | Some v \<Rightarrow> assoc_update bdf v m) bdfs out) k
    = (if k \<in> set bdfs \<and> map_of stored k \<noteq> None then map_of stored k else map_of out k)"
  by (induction bdfs arbitrary: out) (auto simp: map_of_assoc_update split: option.splits)

lemma Get_transparent:
  assumes "faithful val stored" and "\<forall>k \<in> set bdfs. plain k" and "cache_Get fetcher stored bdfs = (out, failures, stored')"
  shows "faithful val stored' \<and> (\<forall>k. map_of out k = (if k \<in> set bdfs then val k else None))"
proof -
  let ?missing = "filter (\<lambda>bdf. map_of stored bdf = None) bdfs"
  let ?fetched = "if ?missing = [] then ([], []) else fetcher ?missing"
  have st: "stored' = fold (\<lambda>(k, v). assoc_update k v) (fst ?fetched) stored"
    and out: "out = fold (\<lambda>bdf m. case map_of stored' bdf of None \<Rightarrow> m | Some v \<Rightarrow> assoc_update bdf v m) bdfs []"
    using assms(3) by (simp_all only: cache_Get_def Let_def prod.inject) auto
  have "distinct (map fst (fst ?fetched))" using keys by simp
  note look = merge [OF this, of stored, folded st]
  have fetched: "map_of (fst ?fetched) k = Some v \<Longrightarrow> val k = Some v" for k v using sound by (auto split: if_splits)
  have f: "faithful val stored'"
    using assms(1) fetched unfolding faithful_def look by (auto split: option.splits)
  have "map_of stored' k = val k" if k: "k \<in> set bdfs" for k
  proof (cases "val k")
    case None
    then show ?thesis using f unfolding faithful_def by (cases "map_of stored' k") auto
  next
    case (Some v)
    show ?thesis
    proof (cases "map_of stored k")
      case None
      then have m: "k \<in> set ?missing" using k by simp
      then have "?missing \<noteq> []" by (metis empty_iff empty_set)
      with m have "map_of (fst ?fetched) k = Some v" using total [of k ?missing v] assms(2) k Some by auto
      then show ?thesis unfolding look using Some by simp
    next
      case (Some w)
      then have "map_of stored' k \<noteq> None" unfolding look by (auto split: option.splits)
      then obtain u where u: "map_of stored' k = Some u" by blast
      with f have "val k = Some u" unfolding faithful_def by blast
      with u show ?thesis by simp
    qed
  qed
  with f show ?thesis unfolding out collect by auto
qed

end

lemma query_loop_keys:
  "distinct (map fst m) \<Longrightarrow> distinct (map fst (fst (query_loop query use bdfs (m, f))))"
proof (induction bdfs arbitrary: m f)
  case (Cons b bdfs)
  then show ?case by (auto simp: Let_def distinct_assoc_update split: option.splits)
qed simp

lemma in_session_cases:
  "in_session c bdfs run = ([], bdfs) \<and> \<not> smi_init c \<or> in_session c bdfs run = run ([], []) \<and> smi_init c"
  by (simp add: in_session_def)

text \<open>A lookup in a session, as an answer per address: none without a session.\<close>

definition session_answer :: "smi \<Rightarrow> (string \<Rightarrow> 'v option) \<Rightarrow> ('v \<Rightarrow> 'v option) \<Rightarrow> string \<Rightarrow> 'v option" where
  "session_answer c query use k = (if smi_init c then answer query use k else None)"

lemma session_lookup:
  fixes c :: smi and query :: "string \<Rightarrow> 'v option" and use :: "'v \<Rightarrow> 'v option"
  defines "fetcher \<equiv> \<lambda>bdfs. in_session c bdfs (query_loop query use bdfs)"
  shows "static_lookup fetcher (session_answer c query use) (\<lambda>k. raw_bdf k = k)"
proof
  fix bdfs and k :: string and v :: 'v
  show "map_of (fst (fetcher bdfs)) k = Some v \<Longrightarrow> session_answer c query use k = Some v"
    using query_loop_sound [of query use bdfs "[]" "[]" k v]
    by (auto simp: fetcher_def in_session_def session_answer_def split: if_splits)
  show "k \<in> set bdfs \<Longrightarrow> raw_bdf k = k \<Longrightarrow> session_answer c query use k = Some v
      \<Longrightarrow> map_of (fst (fetcher bdfs)) k = Some v"
    using query_loop_complete [of query use k v "[]" bdfs "[]"]
    by (auto simp: fetcher_def in_session_def session_answer_def split: if_splits)
  show "distinct (map fst (fst (fetcher bdfs)))"
    by (auto simp: fetcher_def in_session_def query_loop_keys)
qed

interpretation uuids: static_lookup "fetchAMDSUUIDs c" "session_answer c (uuid_for_bdf c) trimmed" "\<lambda>k. raw_bdf k = k" for c
  using session_lookup [of c "uuid_for_bdf c" trimmed]
  by (simp add: fetchAMDSUUIDs_def queryByBDF_def [abs_def])

interpretation product_names:
  static_lookup "fetchAMDSMIProductNames c" "session_answer c (product_name_for_bdf c) trimmed" "\<lambda>k. raw_bdf k = k" for c
  using session_lookup [of c "product_name_for_bdf c" trimmed]
  by (simp add: fetchAMDSMIProductNames_def queryByBDF_def [abs_def])

interpretation partition_profiles:
  static_lookup "fetchAMDGPUPartitionProfiles c k" "session_answer c (partitionProfilesForBDF c k) Some" "\<lambda>b. raw_bdf b = b" for c k
  using session_lookup [of c "partitionProfilesForBDF c k" Some]
  by (simp add: fetchAMDGPUPartitionProfiles_def [abs_def])

section \<open>Setting the partition\<close>

lemma set_loop_spec:
  "case set_loop c k computeType seen bdfs of (flips, failures) \<Rightarrow>
     distinct (map fst flips) \<and> set (map fst flips) \<inter> set seen = {}
     \<and> (\<forall>(bdf, i) \<in> set flips. 0 \<le> i \<and> (\<exists>ps. partitionProfilesForBDF c k bdf = Some ps \<and> profile_index ps computeType = i))
     \<and> set (map fst flips) \<union> set failures
        = (\<lambda>b. normalizeBDF (raw_bdf b)) ` set bdfs - {[]} - set seen
     \<and> (\<forall>bdf \<in> set failures. \<forall>i. (bdf, i) \<in> set flips \<longrightarrow> \<not> set_partition_for_bdf c bdf i)
     \<and> (\<forall>(bdf, i) \<in> set flips. bdf \<notin> set failures \<longrightarrow> set_partition_for_bdf c bdf i)"
proof (induction bdfs arbitrary: seen)
  case (Cons b bdfs)
  let ?b = "normalizeBDF (raw_bdf b)"
  show ?case
  proof (cases "?b = [] \<or> ?b \<in> set seen")
    case True
    then show ?thesis using Cons.IH [of seen] by (auto simp: Let_def split: prod.splits)
  next
    case False
    obtain flips failures where r: "set_loop c k computeType (?b # seen) bdfs = (flips, failures)" by fastforce
    note IH = Cons.IH [of "?b # seen", unfolded r, simplified]
    have fresh: "?b \<notin> fst ` set flips" "?b \<notin> set failures" using IH by auto
    consider "partitionProfilesForBDF c k ?b = None"
      | ps where "partitionProfilesForBDF c k ?b = Some ps" "profile_index ps computeType < 0"
      | ps where "partitionProfilesForBDF c k ?b = Some ps" "0 \<le> profile_index ps computeType"
      by (cases "partitionProfilesForBDF c k ?b") (auto simp: not_less [symmetric])
    then show ?thesis
    proof cases
      case 3
      then show ?thesis using IH False fresh by (auto simp: Let_def r image_iff)
    qed (use IH False fresh in \<open>auto simp: Let_def r image_iff\<close>)
  qed
qed simp

section \<open>Properties\<close>

text \<open>The contents a cache can have after any sequence of calls with addresses in plain spelling.\<close>

inductive cache_reached :: "(string list \<Rightarrow> (string \<times> 'v) list \<times> string list) \<Rightarrow> (string \<times> 'v) list \<Rightarrow> bool"
  for fetcher where
  empty_cache: "cache_reached fetcher []"
| after_Get: "cache_reached fetcher stored \<Longrightarrow> \<forall>k \<in> set bdfs. raw_bdf k = k
    \<Longrightarrow> cache_reached fetcher (snd (snd (cache_Get fetcher stored bdfs)))"

lemma cache_reached_faithful:
  "cache_reached (fetchAMDSUUIDs c) stored \<Longrightarrow> faithful (session_answer c (uuid_for_bdf c) trimmed) stored"
proof (induction rule: cache_reached.induct)
  case empty_cache
  show ?case by (simp add: faithful_def)
next
  case (after_Get stored bdfs)
  then show ?case
    by (cases "cache_Get (fetchAMDSUUIDs c) stored bdfs") (use uuids.Get_transparent in fastforce)
qed


definition sample_smi :: smi where
  "sample_smi = \<lparr>smi_init = True, uuid_for_bdf = (\<lambda>b. if b = ''0000:03:00.0'' then Some ''u1'' else None),
     product_name_for_bdf = (\<lambda>_. None), memory_partition_for_bdf = (\<lambda>_. None),
     partition_profiles_for_bdf = (\<lambda>b. Some ([\<lparr>N_index = 0, N_type = 1, N_caps = 1, N_partitions = 1\<rparr>,
        \<lparr>N_index = 3, N_type = 5, N_caps = 4, N_partitions = 8\<rparr>], [\<lparr>R_index = 0, R_xcc = True, R_count = 8\<rparr>])),
     set_partition_for_bdf = (\<lambda>b i. b = ''0000:03:00.0'')\<rparr>"

lemma sample_raw: "raw_bdf ''0000:03:00:0'' = ''0000:03:00:0''" "raw_bdf ''0000:04:00:0'' = ''0000:04:00:0''"
  by (simp_all add: raw_bdf_def ToLower_def lower_char_def)



definition sample_constants :: "string \<Rightarrow> int" where
  "sample_constants name = (if name = ''AMDSMI_ACCELERATOR_PARTITION_SPX'' then 1
     else if name = ''AMDSMI_ACCELERATOR_PARTITION_CPX'' then 5 else 2)"


end
