(* ===== verification/Registration.thy ===== *)
theory Registration
  imports "HOL-Library.Log_Nat" Discovery Amdsmi
begin

text \<open>
  What the plugin registers: \<open>getAPIDevices\<close> with its helpers in \<open>internal/pkg/plugin/plugin.go\<close> and the
  XGMI peers of \<open>xgmi.go\<close>. Every discovery builds the list of registered devices and the maps that
  \<open>Allocate\<close> resolves ids with, and publishes them together.

  Parameters: the files, the AMD SMI lookups (as functions from the list of addresses to the map found),
  the capacity of a card and the GPUs the exporter reports as unhealthy. The GPUs are the map that
  discovery returned, as a list in the order of the iteration.
\<close>

section \<open>Scaled memory\<close>

text \<open>The product of an \<open>int32\<close> and a positive \<open>float64\<close>: the exact product rounded to 53 significant
  bits, ties to even. The scaling factor of a real node is far from the limits of the exponent.\<close>

definition round_half_even :: "int \<Rightarrow> int \<Rightarrow> int" where
  "round_half_even n d =
     (let q = n div d; r = n mod d in
      if 2 * r < d \<or> (2 * r = d \<and> even q) then q else q + 1)"

definition float64_of :: "rat \<Rightarrow> rat" where
  "float64_of x =
     (let (n, d) = quotient_of x; k = nat (bitlen \<bar>n\<bar> - 53)
      in of_int (round_half_even n (2 ^ k)) * 2 ^ k / of_int d)"

text \<open>\<open>int32(float64)\<close>: towards zero. Out of range the language leaves the value to the machine; the
  machines the plugin is built for keep the low 32 bits.\<close>

definition truncate_int :: "rat \<Rightarrow> int" where
  "truncate_int x = (if x < 0 then \<lceil>x\<rceil> else \<lfloor>x\<rfloor>)"

definition int32_of :: "int \<Rightarrow> int" where
  "int32_of n = (n + 2 ^ 31) mod 2 ^ 32 - 2 ^ 31"

definition scaledMemory :: "rat \<Rightarrow> int \<Rightarrow> int" where
  "scaledMemory scaling mib =
     (if scaling = 1 then mib else int32_of (truncate_int (float64_of (of_int mib * scaling))))"

section \<open>XGMI peers\<close>

text \<open>Link type and destination of a link file, when both are there.\<close>

definition link_field :: "string \<Rightarrow> int \<times> int \<Rightarrow> int \<times> int" where
  "link_field line r =
     (case Fields line of
        [name, v] \<Rightarrow>
          (case Atoi v of
             Inl _ \<Rightarrow> r
           | Inr n \<Rightarrow> if name = ''type'' then (n, snd r) else if name = ''node_to'' then (fst r, n) else r)
      | _ \<Rightarrow> r)"

definition readLink :: "files \<Rightarrow> string \<Rightarrow> (int \<times> int) option" where
  "readLink fs path =
     (case fs path of
        None \<Rightarrow> None
      | Some content \<Rightarrow>
          (case fold link_field (fst (scan_lines content)) (-1, -1) of
             (linkType, nodeTo) \<Rightarrow> if linkType \<ge> 0 \<and> nodeTo \<ge> 0 then Some (linkType, nodeTo) else None))"

text \<open>One link file: a registered GPU at its other end is a peer when it is another GPU; \<open>seen\<close> holds the
  elements of \<open>peers\<close>.\<close>

definition add_peer :: "files \<Rightarrow> int \<Rightarrow> (int \<times> string) list \<Rightarrow> string \<Rightarrow> string list \<Rightarrow> string list" where
  "add_peer fs nodeID nodeBDF f peers =
     (case readLink fs f of
        None \<Rightarrow> peers
      | Some (linkType, to1) \<Rightarrow>
          if linkType \<noteq> 11 then peers
          else (case map_of nodeBDF to1 of
                  None \<Rightarrow> peers
                | Some bdf \<Rightarrow>
                    if to1 \<noteq> nodeID \<and> bdf \<noteq> lookup_str nodeBDF nodeID \<and> bdf \<notin> set peers then peers @ [bdf] else peers))"

definition link_files :: "(string \<Rightarrow> string list) \<Rightarrow> string \<Rightarrow> int \<Rightarrow> string list" where
  "link_files glob topoNodesDir nodeID =
     concat (map (\<lambda>dir. glob (path_Join [topoNodesDir, Itoa nodeID, dir, ''[0-9]*'', ''properties'']))
       [''io_links'', ''p2p_links''])"

definition xgmiPeers :: "files \<Rightarrow> (string \<Rightarrow> string list) \<Rightarrow> string \<Rightarrow> int \<Rightarrow> (int \<times> string) list \<Rightarrow> string list" where
  "xgmiPeers fs glob topoNodesDir nodeID nodeBDF =
     sort (fold (add_peer fs nodeID nodeBDF) (link_files glob topoNodesDir nodeID) [])"

definition node_bdfs :: "(DeviceInfo \<times> int) list \<Rightarrow> (int \<times> string) list" where
  "node_bdfs ds =
     fold (\<lambda>(d, n) m. let bdf = custom_string d ''pciBDF'' in if bdf \<noteq> [] then assoc_update n (ToLower bdf) m else m) ds []"

definition addXGMIPeers ::
  "files \<Rightarrow> (string \<Rightarrow> string list) \<Rightarrow> string \<Rightarrow> (DeviceInfo \<times> int) list \<Rightarrow> DeviceInfo list" where
  "addXGMIPeers fs glob topoNodesDir ds =
     (let nodeBDF = node_bdfs ds in
      map (\<lambda>(d, n). let peers = xgmiPeers fs glob topoNodesDir n nodeBDF in
             if length peers > 0 then d\<lparr>DI_CustomInfo := assoc_update ''xgmiPeers'' (CStrings peers) (DI_CustomInfo d)\<rparr>
             else d) ds)"

section \<open>Capacity\<close>

type_synonym capacities = "(string \<times> DeviceCapacity) list"

text \<open>\<open>deviceCapacity\<close>: the result and the new value of \<open>lastCapacity\<close>.\<close>

definition deviceCapacity ::
  "(string \<Rightarrow> (drm_error, DeviceCapacity) result) \<Rightarrow> capacities \<Rightarrow> string \<Rightarrow> int
     \<Rightarrow> (drm_error, DeviceCapacity) result \<times> capacities" where
  "deviceCapacity getCapacity lastCapacity bdf cardN =
     (case getCapacity (''card'' @ Itoa cardN) of
        Inl e \<Rightarrow> (case map_of lastCapacity bdf of None \<Rightarrow> Inl e | Some c \<Rightarrow> Inr c, lastCapacity)
      | Inr c \<Rightarrow> (Inr c, assoc_update bdf c lastCapacity))"

fun capacity_loop ::
  "(string \<Rightarrow> (drm_error, DeviceCapacity) result) \<Rightarrow> gpu_map \<Rightarrow> capacities \<Rightarrow> capacities \<Rightarrow> capacities \<times> capacities" where
  "capacity_loop getCapacity [] byBDF lastCapacity = (byBDF, lastCapacity)"
| "capacity_loop getCapacity ((key, d) # gpus) byBDF lastCapacity =
     (let bdf = str_of (d_devID d) in
      if is_xcp key \<or> bdf = [] then capacity_loop getCapacity gpus byBDF lastCapacity
      else case deviceCapacity getCapacity lastCapacity bdf (int_of (d_card d)) of
             (Inl _, last') \<Rightarrow> capacity_loop getCapacity gpus byBDF last'
           | (Inr c, last') \<Rightarrow> capacity_loop getCapacity gpus (assoc_update bdf c byBDF) last')"

section \<open>Registration of one GPU\<close>

text \<open>What the loop over the sorted keys reads.\<close>

record discovery =
  D_files :: files
  D_parents :: "string set"
  D_capacity :: capacities
  D_partitions :: "(string \<times> int) list"
  D_rocr :: "(int \<times> string) list"
  D_uuids :: "(string \<times> string) list"
  D_names :: "(string \<times> string) list"
  D_memory :: "(string \<times> string) list"
  D_profiles :: "(string \<times> PartitionProfile list) list"
  D_pci :: "(string \<times> string) list"
  D_unhealthy :: "string list"

record registered =
  R_key :: string
  R_rocr :: string
  R_node :: int
  R_data :: device_data
  R_info :: DeviceInfo

definition lookup_text :: "(string \<times> string) list \<Rightarrow> string \<Rightarrow> string" where
  "lookup_text m k = str_of (map_of m k)"

definition entry_custom_info :: "plugin \<Rightarrow> discovery \<Rightarrow> string \<Rightarrow> device_data \<Rightarrow> string \<Rightarrow> (string \<times> custom_value) list" where
  "entry_custom_info p D key d bdf =
     (let info = assoc_update ''pciBDF'' (CString (lookup_text (D_pci D) bdf))
                   (deviceCustomInfo (D_files D) key (kfdNodesDir p) (int_of (d_nodeId d)))
      in if is_xcp key
         then assoc_update ''partitionProfile''
                (CString (str_of (d_computePartitionType d) @ ''_'' @ str_of (d_memoryPartitionType d))) info
         else case map_of (D_profiles D) (ToLower bdf) of
                None \<Rightarrow> info | Some profiles \<Rightarrow> assoc_update ''partitionProfiles'' (CProfiles profiles) info)"

definition product_name :: "plugin \<Rightarrow> discovery \<Rightarrow> device_data \<Rightarrow> string \<Rightarrow> string" where
  "product_name p D d bdf =
     (let productName = lookup_text (D_names D) (ToLower bdf) in
      case node_property (D_files D) (kfdNodesDir p) (int_of (d_nodeId d)) ''device_id'' of
        Inl _ \<Rightarrow> productName
      | Inr ident \<Rightarrow> InstinctProductName ident productName)"

definition device_info ::
  "plugin \<Rightarrow> discovery \<Rightarrow> string \<Rightarrow> device_data \<Rightarrow> string \<Rightarrow> DeviceCapacity \<Rightarrow> string \<Rightarrow> DeviceInfo" where
  "device_info p D key d bdf capacity infoID =
     fst (registerHardEntry p d
       \<lparr>DI_ID = infoID, DI_Index = int_of (d_card d),
        DI_Count = splitCountFor (splitCount p) (D_files D) (kfdNodesDir p) (int_of (d_nodeId d)),
        DI_Devmem = scaledMemory (memoryScaling p) (VRAMMiB capacity), DI_Devcore = CUCount capacity,
        DI_Type = (if product_name p D d bdf \<noteq> [] then product_name p D d bdf else ''amd-gpu''),
        DI_Numa = int_of (d_numaNode d), DI_Mode = [],
        DI_Health = (key \<notin> set (D_unhealthy D) \<and> lookup_text (D_pci D) bdf \<notin> set (D_unhealthy D)),
        DI_DeviceVendor = ''amd'', DI_CustomInfo = entry_custom_info p D key d bdf\<rparr>)"

text \<open>The id a device registers under: the ROCr UUID of a partition, the AMD SMI UUID of a GPU.\<close>

definition info_id :: "discovery \<Rightarrow> string \<Rightarrow> string \<Rightarrow> string \<Rightarrow> string option" where
  "info_id D key bdf rocrUUID =
     (if is_xcp key then (if rocrUUID = [] then None else Some rocrUUID)
      else case map_of (D_uuids D) (ToLower bdf) of
             None \<Rightarrow> None | Some uuid \<Rightarrow> if uuid = [] then None else Some uuid)"

definition with_memory_partition :: "discovery \<Rightarrow> string \<Rightarrow> string \<Rightarrow> device_data \<Rightarrow> device_data" where
  "with_memory_partition D key bdf d =
     (if is_xcp key then d
      else case map_of (D_memory D) (ToLower bdf) of
             None \<Rightarrow> d | Some part \<Rightarrow> if part = [] then d else d\<lparr>d_memoryPartitionType := Some part\<rparr>)"

text \<open>One round of the loop: \<open>None\<close> is a \<open>continue\<close>.\<close>

definition register_entry :: "plugin \<Rightarrow> discovery \<Rightarrow> string \<Rightarrow> device_data \<Rightarrow> registered option" where
  "register_entry p D key d =
     (let bdf = str_of (d_devID d); renderD = int_of (d_renderD d) in
      if \<not> isSchedulableTopologyKey p key d (D_parents D) then None
      else if bdf = [] then None
      else case map_of (D_capacity D) bdf of
        None \<Rightarrow> None
      | Some whole \<Rightarrow>
          (let capacity = (if is_xcp key
                           then PartitionCapacity whole (case map_of (D_partitions D) bdf of None \<Rightarrow> 0 | Some n \<Rightarrow> n)
                           else whole)
           in if renderD \<le> 0 then None
              else let rocrUUID = lookup_str (D_rocr D) renderD in
                case info_id D key bdf rocrUUID of
                  None \<Rightarrow> None
                | Some infoID \<Rightarrow>
                    (let d' = with_memory_partition D key bdf d in
                     Some \<lparr>R_key = key, R_rocr = rocrUUID, R_node = int_of (d_nodeId d'), R_data = d',
                       R_info = device_info p D key d' bdf capacity infoID\<rparr>)))"

section \<open>getAPIDevices\<close>

record lookups =
  L_uuid :: "string list \<Rightarrow> (string \<times> string) list"
  L_name :: "string list \<Rightarrow> (string \<times> string) list"
  L_memory :: "string list \<Rightarrow> (string \<times> string) list"
  L_profiles :: "string list \<Rightarrow> (string \<times> PartitionProfile list) list"

definition pci_by_dev_id :: "gpu_map \<Rightarrow> (string \<times> string) list" where
  "pci_by_dev_id gpus =
     fold (\<lambda>(key, d) m. if \<not> is_xcp key \<and> str_of (d_devID d) \<noteq> []
                         then assoc_update (str_of (d_devID d)) (ToLower key) m else m) gpus []"

definition gather ::
  "plugin \<Rightarrow> files \<Rightarrow> (string \<Rightarrow> string list) \<Rightarrow> lookups \<Rightarrow> capacities \<Rightarrow> string list \<Rightarrow> gpu_map \<Rightarrow> discovery" where
  "gather p fs glob L capacity unhealthy gpus =
     (let bdfs = List.map_filter (\<lambda>(key, d). d_devID d) gpus;
          partitionBDFs = partitionCapableBDFs gpus;
          profiles = (if partitionBDFs = [] then [] else L_profiles L partitionBDFs)
      in \<lparr>D_files = fs, D_parents = xcpParents gpus, D_capacity = capacity,
          D_partitions = partitionCounts gpus profiles [],
          D_rocr = GetROCrUUIDsFromTopology fs glob (path_Join [sysRoot p, ''class/kfd/kfd'']),
          D_uuids = L_uuid L bdfs, D_names = L_name L bdfs,
          D_memory = (if partitionBDFs = [] then [] else L_memory L partitionBDFs),
          D_profiles = profiles, D_pci = pci_by_dev_id gpus, D_unhealthy = unhealthy\<rparr>)"

definition register_all :: "plugin \<Rightarrow> discovery \<Rightarrow> gpu_map \<Rightarrow> registered list" where
  "register_all p D gpus =
     List.map_filter (\<lambda>key. Option.bind (map_of gpus key) (register_entry p D key)) (sort (map fst gpus))"

text \<open>The maps and the list that \<open>publish\<close> swaps in; an updated memory partition is part of the GPU map.\<close>

definition publish :: "plugin \<Rightarrow> gpu_map \<Rightarrow> registered list \<Rightarrow> DeviceInfo list \<Rightarrow> plugin" where
  "publish p gpus rs devices =
     p\<lparr>AMDGPUs := map (\<lambda>(key, d). (key, case find (\<lambda>r. R_key r = key) rs of None \<Rightarrow> d | Some r \<Rightarrow> R_data r)) gpus,
       amdSMIUUIDToTopology :=
         fold (\<lambda>r. assoc_update (DI_ID (R_info r)) (R_key r)) (filter (\<lambda>r. \<not> is_xcp (R_key r)) rs) [],
       amdSMIUUIDToROCrUUID :=
         fold (\<lambda>r. assoc_update (DI_ID (R_info r)) (R_rocr r)) (filter (\<lambda>r. \<not> is_xcp (R_key r)) rs) [],
       rocrUUIDToTopology :=
         fold (\<lambda>r. assoc_update (DI_ID (R_info r)) (R_key r)) (filter (\<lambda>r. is_xcp (R_key r)) rs) [],
       bdfToROCrUUID := fold (\<lambda>r. assoc_update (R_key r) (R_rocr r)) rs [],
       sortedBDFs := map R_key rs,
       deviceCache := devices\<rparr>"

definition getAPIDevices ::
  "plugin \<Rightarrow> capacities \<Rightarrow> files \<Rightarrow> (string \<Rightarrow> string list) \<Rightarrow> lookups
     \<Rightarrow> (string \<Rightarrow> (drm_error, DeviceCapacity) result) \<Rightarrow> string list \<Rightarrow> gpu_map
     \<Rightarrow> DeviceInfo list \<times> plugin \<times> capacities" where
  "getAPIDevices p lastCapacity fs glob L getCapacity unhealthy gpus =
     (case capacity_loop getCapacity gpus [] lastCapacity of
        (capacity, last') \<Rightarrow>
          (let rs = register_all p (gather p fs glob L capacity unhealthy gpus) gpus;
               out = addXGMIPeers fs glob (kfdNodesDir p) (map (\<lambda>r. (R_info r, R_node r)) rs)
           in (out, publish p gpus rs out, last')))"

end
