(* ===== verification/Registered.thy ===== *)
theory Registered
  imports Registration
begin

text \<open>
  What a registration promises: the ids it publishes resolve to the device they were published for, the
  capacity it advertises exists, the number of slots is the number of kubelet ids, and the XGMI peers are
  exactly the other GPUs that are linked.
\<close>

section \<open>Lookups in the published maps\<close>

lemma fold_update_other: "k \<notin> f ` set xs \<Longrightarrow> map_of (fold (\<lambda>r. assoc_update (f r) (g r)) xs m) k = map_of m k"
  by (induction xs arbitrary: m) (auto simp: map_of_assoc_update)

lemma fold_update_lookup:
  "distinct (map f xs) \<Longrightarrow> x \<in> set xs \<Longrightarrow> map_of (fold (\<lambda>r. assoc_update (f r) (g r)) xs m) (f x) = Some (g x)"
proof (induction xs arbitrary: m)
  case (Cons y xs)
  then show ?case by (cases "x = y") (auto simp: fold_update_other map_of_assoc_update)
qed simp

lemma map_of_map_entries: "map_of (map (\<lambda>(k, d). (k, h k d)) m) k = map_option (h k) (map_of m k)"
  by (induction m) auto

lemma find_by_key: "distinct (map f xs) \<Longrightarrow> x \<in> set xs \<Longrightarrow> find (\<lambda>y. f y = f x) xs = Some x"
  by (induction xs) auto

lemma distinct_map_filter_pred: "distinct (map f xs) \<Longrightarrow> distinct (map f (filter P xs))"
  by (rule distinct_map_filter)

section \<open>Entries\<close>

lemma register_entry_Some:
  assumes "register_entry p D key d = Some r"
  obtains whole capacity where
    "map_of (D_capacity D) (str_of (d_devID d)) = Some whole"
    and "capacity = (if is_xcp key then PartitionCapacity whole (case map_of (D_partitions D) (str_of (d_devID d)) of None \<Rightarrow> 0 | Some n \<Rightarrow> n)
                     else whole)"
    and "R_key r = key" and "R_data r = with_memory_partition D key (str_of (d_devID d)) d"
    and "R_rocr r = lookup_str (D_rocr D) (int_of (d_renderD d))"
    and "info_id D key (str_of (d_devID d)) (R_rocr r) = Some (DI_ID (R_info r))"
    and "R_info r = device_info p D key (R_data r) (str_of (d_devID d)) capacity (DI_ID (R_info r))"
    and "isSchedulableTopologyKey p key d (D_parents D)" and "R_node r = int_of (d_nodeId d)"
proof -
  have id: "DI_ID (device_info p D key d' bdf c i) = i" for d' bdf c i
    by (simp add: device_info_def registerHardEntry_def Let_def)
  have node: "d_nodeId (with_memory_partition D key bdf d) = d_nodeId d" for bdf
    by (simp add: with_memory_partition_def split: option.splits)
  from assms show ?thesis
    by (auto simp: register_entry_def Let_def id node split: if_splits option.splits intro!: that)
qed

lemma register_all_mem:
  assumes "r \<in> set (register_all p D gpus)"
  obtains d where "map_of gpus (R_key r) = Some d" and "register_entry p D (R_key r) d = Some r"
proof -
  from assms obtain key d where "map_of gpus key = Some d" "register_entry p D key d = Some r"
    by (auto simp: register_all_def List.map_filter_def bind_eq_Some_conv)
  moreover have "R_key r = key" using calculation(2) by (rule register_entry_Some)
  ultimately show ?thesis using that by blast
qed

lemma register_all_distinct:
  assumes "distinct (map fst gpus)"
  shows "distinct (map R_key (register_all p D gpus))"
proof -
  have key: "R_key (the (Option.bind (map_of gpus key) (register_entry p D key))) = key"
    if "Option.bind (map_of gpus key) (register_entry p D key) \<noteq> None" for key
  proof -
    from that obtain d r where "map_of gpus key = Some d" "register_entry p D key d = Some r"
      by (auto simp: bind_eq_Some_conv)
    then show ?thesis by (auto elim: register_entry_Some)
  qed
  have "map R_key (register_all p D gpus) = filter (\<lambda>key. Option.bind (map_of gpus key) (register_entry p D key) \<noteq> None) (sort (map fst gpus))"
    unfolding register_all_def List.map_filter_def map_map
    by (rule map_idI) (use key in auto)
  then show ?thesis using assms by simp
qed

lemma addXGMIPeers_fields:
  "map DI_ID (addXGMIPeers fs glob dir ds) = map (DI_ID \<circ> fst) ds"
  "map DI_Index (addXGMIPeers fs glob dir ds) = map (DI_Index \<circ> fst) ds"
  "map DI_Count (addXGMIPeers fs glob dir ds) = map (DI_Count \<circ> fst) ds"
  "map DI_Devmem (addXGMIPeers fs glob dir ds) = map (DI_Devmem \<circ> fst) ds"
  "map DI_Devcore (addXGMIPeers fs glob dir ds) = map (DI_Devcore \<circ> fst) ds"
  by (auto simp: addXGMIPeers_def Let_def)

section \<open>Ids\<close>

lemma no_hash_strip: "CHR ''#'' \<notin> set u \<Longrightarrow> stripPartitionModeSuffix u = u"
  by (rule strip_free)

lemma published_resolves:
  assumes "distinct (map fst gpus)" "distinct (map (DI_ID \<circ> R_info) rs)" "distinct (map R_key rs)"
    and "r \<in> set rs" "map_of gpus (R_key r) = Some d" "CHR ''#'' \<notin> set (DI_ID (R_info r))"
  shows "deviceDataFromAllocationUUID (publish p gpus rs out) fs (DI_ID (R_info r)) = Inr (R_data r)
    \<and> map_of (AMDGPUs (publish p gpus rs out)) (R_key r) = Some (R_data r)"
proof -
  let ?p = "publish p gpus rs out" and ?id = "DI_ID (R_info r)"
  have gpu: "map_of (AMDGPUs ?p) (R_key r) = Some (R_data r)"
    using assms(5) find_by_key [OF assms(3,4)] by (simp add: publish_def map_of_map_entries)
  have whole: "map_of (amdSMIUUIDToTopology ?p) ?id = (if is_xcp (R_key r) then None else Some (R_key r))"
  proof (cases "is_xcp (R_key r)")
    case True
    have "?id \<notin> (DI_ID \<circ> R_info) ` set (filter (\<lambda>r. \<not> is_xcp (R_key r)) rs)"
      using assms(2,4) True by (auto simp: distinct_map inj_on_def)
    then show ?thesis
      using True fold_update_other [of ?id "DI_ID \<circ> R_info" "filter (\<lambda>r. \<not> is_xcp (R_key r)) rs" R_key "[]"]
      by (simp add: publish_def)
  next
    case False
    then show ?thesis
      using assms(4) fold_update_lookup [OF distinct_map_filter_pred [OF assms(2)], of r "\<lambda>r. \<not> is_xcp (R_key r)" R_key "[]"]
      by (simp add: publish_def)
  qed
  have xcp: "map_of (rocrUUIDToTopology ?p) ?id = Some (R_key r)" if "is_xcp (R_key r)"
    using assms(4) that fold_update_lookup [OF distinct_map_filter_pred [OF assms(2)], of r "\<lambda>r. is_xcp (R_key r)" R_key "[]"]
    by (simp add: publish_def)
  show ?thesis
    using gpu whole xcp no_hash_strip [OF assms(6)]
    by (cases "is_xcp (R_key r)") (simp_all add: deviceDataFromAllocationUUID_def Let_def)
qed

lemma lookupDevice_by_id:
  assumes "distinct (map DI_ID (deviceCache p))" "info \<in> set (deviceCache p)" "CHR ''#'' \<notin> set (DI_ID info)"
  shows "lookupDevice p (DI_ID info) = Some info"
proof -
  have "cached_for (DI_ID info) d \<longleftrightarrow> DI_ID d = DI_ID info" for d
    using before_hash_free [OF assms(3)] by (auto simp: cached_for_def split: option.splits custom_value.splits)
  then have "cached_for (DI_ID info) = (\<lambda>d. DI_ID d = DI_ID info)" by (intro ext)
  then show ?thesis using find_by_key [OF assms(1,2)] by (simp add: lookupDevice_def)
qed

lemma getAPIDevices_run:
  assumes "getAPIDevices p lastCapacity fs glob L getCapacity unhealthy gpus = (out, p', last')"
  obtains capacity rs where "capacity_loop getCapacity gpus [] lastCapacity = (capacity, last')"
    and "rs = register_all p (gather p fs glob L capacity unhealthy gpus) gpus"
    and "out = addXGMIPeers fs glob (kfdNodesDir p) (map (\<lambda>r. (R_info r, R_node r)) rs)"
    and "p' = publish p gpus rs out"
proof -
  obtain capacity l where c: "capacity_loop getCapacity gpus [] lastCapacity = (capacity, l)" by fastforce
  then have l: "l = last'" using assms by (simp add: getAPIDevices_def Let_def)
  show ?thesis by (rule that [OF c [unfolded l] refl]) (use assms c in \<open>auto simp: getAPIDevices_def Let_def\<close>)
qed

text \<open>Registered devices and the entries they come from stand in the same order.\<close>

lemma out_entry:
  assumes "out = addXGMIPeers fs glob dir (map (\<lambda>r. (R_info r, R_node r)) rs)" and "info \<in> set out"
  obtains r where "r \<in> set rs" and "DI_ID info = DI_ID (R_info r)" and "DI_Index info = DI_Index (R_info r)"
    and "DI_Count info = DI_Count (R_info r)" and "DI_Devmem info = DI_Devmem (R_info r)"
    and "DI_Devcore info = DI_Devcore (R_info r)"
proof -
  from assms obtain r where r: "r \<in> set rs"
    "info = (let peers = xgmiPeers fs glob dir (R_node r) (node_bdfs (map (\<lambda>r. (R_info r, R_node r)) rs)) in
       if length peers > 0 then (R_info r)\<lparr>DI_CustomInfo := assoc_update ''xgmiPeers'' (CStrings peers) (DI_CustomInfo (R_info r))\<rparr>
       else R_info r)"
    by (auto simp: addXGMIPeers_def Let_def)
  show ?thesis by (rule that [OF r(1)]) (simp_all add: r(2) Let_def)
qed

text \<open>The number of a card is kept by every step.\<close>

lemma device_info_fields:
  "DI_Index (device_info p D key d bdf c i) = int_of (d_card d)"
  "DI_Devmem (device_info p D key d bdf c i) = scaledMemory (memoryScaling p) (VRAMMiB c)"
  "DI_Devcore (device_info p D key d bdf c i) = CUCount c"
  "DI_Count (device_info p D key d bdf c i)
     = (if hardPartitionType p d = [] then splitCountFor (splitCount p) (D_files D) (kfdNodesDir p) (int_of (d_nodeId d)) else 1)"
  by (simp_all add: device_info_def registerHardEntry_def Let_def)

lemma with_memory_fields [simp]:
  "d_card (with_memory_partition D key bdf d) = d_card d"
  "d_devID (with_memory_partition D key bdf d) = d_devID d"
  "d_nodeId (with_memory_partition D key bdf d) = d_nodeId d"
  "d_computePartitionType (with_memory_partition D key bdf d) = d_computePartitionType d"
  "d_computePartitionFixed (with_memory_partition D key bdf d) = d_computePartitionFixed d"
  by (simp_all add: with_memory_partition_def split: option.splits)

section \<open>Capacity\<close>

definition capacity_ok :: "DeviceCapacity \<Rightarrow> bool" where
  "capacity_ok c \<longleftrightarrow> 0 < VRAMMiB c \<and> VRAMMiB c < 2 ^ 31 \<and> 0 < CUCount c \<and> CUCount c < 2 ^ 31"

lemma newDeviceCapacity_ok: "newDeviceCapacity cardName v n = Inr c \<Longrightarrow> capacity_ok c"
  by (auto simp: newDeviceCapacity_def Let_def capacity_ok_def split: if_splits)

lemma GetDeviceCapacity_ok: "GetDeviceCapacity fs d cardName = Inr c \<Longrightarrow> capacity_ok c"
  by (auto simp: GetDeviceCapacity_def bind_result_Inr_iff newDeviceCapacity_ok split: option.splits)

definition capacities_ok :: "capacities \<Rightarrow> bool" where
  "capacities_ok m \<longleftrightarrow> (\<forall>bdf c. map_of m bdf = Some c \<longrightarrow> capacity_ok c)"

lemma capacity_loop_ok:
  assumes "\<And>name c. getCapacity name = Inr c \<Longrightarrow> capacity_ok c"
  shows "capacities_ok byBDF \<Longrightarrow> capacities_ok lastCapacity
    \<Longrightarrow> capacities_ok (fst (capacity_loop getCapacity gpus byBDF lastCapacity))
      \<and> capacities_ok (snd (capacity_loop getCapacity gpus byBDF lastCapacity))"
proof (induction gpus arbitrary: byBDF lastCapacity)
  case (Cons x gpus)
  obtain key d where x: "x = (key, d)" by (cases x)
  let ?bdf = "str_of (d_devID d)"
  show ?case
  proof (cases "is_xcp key \<or> ?bdf = []")
    case True
    then show ?thesis using Cons by (auto simp: x Let_def)
  next
    case False
    obtain res last' where dc: "deviceCapacity getCapacity lastCapacity ?bdf (int_of (d_card d)) = (res, last')" by fastforce
    have "capacities_ok last'" "\<And>c. res = Inr c \<Longrightarrow> capacity_ok c"
      using dc Cons.prems(2) assms
      by (auto simp: deviceCapacity_def capacities_ok_def map_of_assoc_update split: sum.splits option.splits if_splits)
    moreover have "capacities_ok (assoc_update ?bdf c byBDF)" if "capacity_ok c" for c
      using that Cons.prems(1) by (auto simp: capacities_ok_def map_of_assoc_update)
    ultimately show ?thesis
      using Cons.IH [of byBDF last'] Cons.IH [of "assoc_update ?bdf _ byBDF" last'] Cons.prems(1) False
      by (cases res) (auto simp: x Let_def dc)
  qed
qed simp

lemma PartitionCapacity_fits:
  assumes "capacity_ok whole" and "1 \<le> n"
  shows "n * CUCount (PartitionCapacity whole n) \<le> CUCount whole \<and> n * VRAMMiB (PartitionCapacity whole n) \<le> VRAMMiB whole
    \<and> 0 \<le> CUCount (PartitionCapacity whole n) \<and> 0 \<le> VRAMMiB (PartitionCapacity whole n)"
  using assms partition_fits [of "CUCount whole" n] partition_fits [of "VRAMMiB whole" n]
  by (auto simp: PartitionCapacity_def capacity_ok_def pos_imp_zdiv_nonneg_iff)

section \<open>XGMI\<close>

lemma add_peers_set:
  "distinct peers \<Longrightarrow> distinct (fold (add_peer fs nodeID nodeBDF) links peers)
    \<and> set (fold (add_peer fs nodeID nodeBDF) links peers)
      = set peers \<union> {bdf. \<exists>f \<in> set links. \<exists>to1. readLink fs f = Some (11, to1) \<and> map_of nodeBDF to1 = Some bdf
          \<and> to1 \<noteq> nodeID \<and> bdf \<noteq> lookup_str nodeBDF nodeID}"
proof (induction links arbitrary: peers)
  case (Cons f links)
  have "distinct (add_peer fs nodeID nodeBDF f peers)
    \<and> set (add_peer fs nodeID nodeBDF f peers)
      = set peers \<union> {bdf. \<exists>to1. readLink fs f = Some (11, to1) \<and> map_of nodeBDF to1 = Some bdf
          \<and> to1 \<noteq> nodeID \<and> bdf \<noteq> lookup_str nodeBDF nodeID}"
    using Cons.prems by (auto simp: add_peer_def split: option.splits prod.splits)
  with Cons.IH [of "add_peer fs nodeID nodeBDF f peers"] show ?case by auto
qed simp

text \<open>How many partitions share a GPU, as AMD SMI lists it for the partition type the GPU is in; 0 when it
  lists none.\<close>

definition partition_count :: "lookups \<Rightarrow> gpu_map \<Rightarrow> string \<Rightarrow> int" where
  "partition_count L gpus bdf =
     (case map_of (partitionCounts gpus
         (if partitionCapableBDFs gpus = [] then [] else L_profiles L (partitionCapableBDFs gpus)) []) bdf of
        None \<Rightarrow> 0 | Some n \<Rightarrow> n)"

lemma PartitionCapacity_share:
  "capacity_ok whole \<Longrightarrow> max 1 n * CUCount (PartitionCapacity whole n) \<le> CUCount whole
    \<and> max 1 n * VRAMMiB (PartitionCapacity whole n) \<le> VRAMMiB whole \<and> 0 \<le> CUCount (PartitionCapacity whole n)"
  using PartitionCapacity_fits [of whole "max 1 n"] by (auto simp: PartitionCapacity_def max_def capacity_ok_def)

text \<open>An unknown partition count leaves the whole capacity to every partition.\<close>

lemma unknown_count_overcommits: "PartitionCapacity whole 0 = whole"
  by (simp add: PartitionCapacity_def)

lemma kubeletIDs_length:
  "int (length (kubeletIDs p fs key d)) =
     (if hardPartitionType p d = [] then splitCountFor (splitCount p) fs (kfdNodesDir p) (int_of (d_nodeId d)) else 1)"
  using splitCountFor_pos [of "splitCount p" fs "kfdNodesDir p" "int_of (d_nodeId d)"] by (simp add: kubeletIDs_def)

lemma kubeletIDs_publish: "kubeletIDs (publish p gpus rs out) fs key d = kubeletIDs p fs key d"
proof -
  have "hardPartitionType (publish p gpus rs out) = hardPartitionType p" by (rule ext) (simp add: hardPartitionType_def publish_def)
  moreover have "kfdNodesDir (publish p gpus rs out) = kfdNodesDir p" by (simp add: kfdNodesDir_def sysRoot_def publish_def)
  moreover have "splitCount (publish p gpus rs out) = splitCount p" by (simp add: publish_def)
  ultimately show ?thesis unfolding kubeletIDs_def by (simp only:)
qed

section \<open>Properties\<close>

text \<open>C21: every registered id resolves. Whatever discovery, AMD SMI, libdrm and the exporter answered, the
  id of every device that a registration returns resolves, in the state it publishes, to the topology entry
  of a discovered GPU with the registered card, and the device is found in the cache under that id, given
  that AMD SMI and the KFD hand out different ids without a hash sign.\<close>

theorem registered_ids_resolve:
  assumes "getAPIDevices p lastCapacity fs glob L getCapacity unhealthy gpus = (out, p', last')"
    and "distinct (map fst gpus)" and "distinct (map DI_ID out)" and "info \<in> set out" and "CHR ''#'' \<notin> set (DI_ID info)"
  shows "\<exists>key d. key \<in> set (map fst gpus) \<and> map_of (AMDGPUs p') key = Some d \<and> int_of (d_card d) = DI_Index info
    \<and> deviceDataFromAllocationUUID p' fs' (DI_ID info) = Inr d \<and> lookupDevice p' (DI_ID info) = Some info"
proof -
  from assms(1) obtain capacity rs where
    rs: "rs = register_all p (gather p fs glob L capacity unhealthy gpus) gpus"
    and out: "out = addXGMIPeers fs glob (kfdNodesDir p) (map (\<lambda>r. (R_info r, R_node r)) rs)"
    and p': "p' = publish p gpus rs out"
    by (rule getAPIDevices_run)
  from out_entry [OF out assms(4)] obtain r where
    r: "r \<in> set rs" "DI_ID info = DI_ID (R_info r)" "DI_Index info = DI_Index (R_info r)" by blast
  from r(1) obtain d where d: "map_of gpus (R_key r) = Some d" "register_entry p (gather p fs glob L capacity unhealthy gpus) (R_key r) d = Some r"
    unfolding rs by (rule register_all_mem)
  have keys: "distinct (map R_key rs)" unfolding rs by (rule register_all_distinct [OF assms(2)])
  have ids: "distinct (map (DI_ID \<circ> R_info) rs)" using assms(3) by (simp add: out addXGMIPeers_fields comp_def)
  have hash: "CHR ''#'' \<notin> set (DI_ID (R_info r))" using assms(5) r(2) by simp
  have cardN: "int_of (d_card (R_data r)) = DI_Index info"
    using d(2) by (rule register_entry_Some) (metis r(3) device_info_fields(1))
  have cache: "deviceCache p' = out" by (simp add: p' publish_def)
  have "R_key r \<in> set (map fst gpus)" using d(1) by (metis map_of_SomeD fst_conv image_eqI set_map)
  with published_resolves [OF assms(2) ids keys r(1) d(1) hash, of p out fs'] cardN
    lookupDevice_by_id [of p' info, unfolded cache, OF assms(3,4,5)]
  show ?thesis unfolding p' [symmetric] r(2) by blast
qed



text \<open>The XGMI peers of a GPU are exact: in increasing order and without repetition, the addresses of
  the registered GPUs at the other end of one of its XGMI links, never its own.\<close>

theorem xgmi_peers_exact:
  "sorted (xgmiPeers fs glob dir nodeID nodeBDF) \<and> distinct (xgmiPeers fs glob dir nodeID nodeBDF)
   \<and> set (xgmiPeers fs glob dir nodeID nodeBDF)
      = {bdf. \<exists>f \<in> set (link_files glob dir nodeID). \<exists>to1. readLink fs f = Some (11, to1) \<and> map_of nodeBDF to1 = Some bdf
          \<and> to1 \<noteq> nodeID \<and> bdf \<noteq> lookup_str nodeBDF nodeID}"
  using add_peers_set [of "[]" fs nodeID nodeBDF "link_files glob dir nodeID"] by (simp add: xgmiPeers_def)

section \<open>A node with one GPU\<close>

definition reg_files :: files where
  "reg_files path = (if path = ''/sys/class/drm/card0/device/vendor'' then Some ''0x1002'' else None)"

definition reg_drm :: "nat drm" where
  "reg_drm = \<lparr>dev_open = (\<lambda>_. True), device_initialize = (\<lambda>_. Some 0), query_family = (\<lambda>_. None),
     query_capacity = (\<lambda>_. Some (17179869184, 64)), query_firmware = (\<lambda>_ _. None), marketing_name = (\<lambda>_. None)\<rparr>"

definition reg_lookups :: lookups where
  "reg_lookups = \<lparr>L_uuid = (\<lambda>_. [(''0000:03:00:0'', ''u1'')]), L_name = (\<lambda>_. []), L_memory = (\<lambda>_. []), L_profiles = (\<lambda>_. [])\<rparr>"

abbreviation reg_run :: "DeviceInfo list \<times> plugin \<times> capacities" where
  "reg_run \<equiv> getAPIDevices (sample_plugin ''cu'') [] reg_files (\<lambda>_. []) reg_lookups (GetDeviceCapacity reg_files reg_drm) []
     [(''0000:03:00.0'', disc_gpu)]"

lemma reg_capacity: "GetDeviceCapacity reg_files reg_drm (''card'' @ Itoa 0) = Inr \<lparr>VRAMMiB = 16384, CUCount = 64\<rparr>"
proof -
  have i: "Itoa 0 = ''0''" by (simp add: Itoa_def digits_of.simps digit_char_def char_of_def bit_Suc bit_0)
  have t: "TrimSpace ''0x1002'' = ''0x1002''" by (rule TrimSpace_spaceless) simp
  show ?thesis
    unfolding i by (simp add: GetDeviceCapacity_def openAMDGPU_def AMDGPU_def reg_files_def reg_drm_def Let_def
        newDeviceCapacity_def t)
qed

lemma reg_run_eq: "\<exists>info p' last'. reg_run = ([info], p', last') \<and> DI_ID info = ''u1'' \<and> DI_Devcore info = 64"
proof -
  let ?gpus = "[(''0000:03:00.0'', disc_gpu)]"
  let ?cap = "[(''0000:03:00:0'', \<lparr>VRAMMiB = 16384, CUCount = 64\<rparr>)]"
  have x: "\<not> is_xcp ''0000:03:00.0''" by (simp add: is_xcp_def HasPrefix_def)
  have cl: "capacity_loop (GetDeviceCapacity reg_files reg_drm) ?gpus [] [] = (?cap, ?cap)"
    by (simp add: Let_def x disc_gpu_def deviceCapacity_def reg_capacity [simplified])
  let ?D = "gather (sample_plugin ''cu'') reg_files (\<lambda>_. []) reg_lookups ?cap [] ?gpus"
  have D: "D_capacity ?D = ?cap" "D_uuids ?D = [(''0000:03:00:0'', ''u1'')]"
    by (simp_all add: gather_def Let_def reg_lookups_def)
  have low: "ToLower ''0000:03:00:0'' = ''0000:03:00:0''" by (simp add: ToLower_def lower_char_def)
  have sched: "isSchedulableTopologyKey (sample_plugin ''cu'') ''0000:03:00.0'' disc_gpu (D_parents ?D)"
    by (simp add: isSchedulableTopologyKey_def x sample_plugin_def)
  have "\<exists>r. register_entry (sample_plugin ''cu'') ?D ''0000:03:00.0'' disc_gpu = Some r
      \<and> DI_ID (R_info r) = ''u1'' \<and> DI_Devcore (R_info r) = 64"
    unfolding register_entry_def using sched D
    by (simp add: Let_def disc_gpu_def x info_id_def low device_info_def registerHardEntry_def)
  then obtain r where r: "register_entry (sample_plugin ''cu'') ?D ''0000:03:00.0'' disc_gpu = Some r"
    "DI_ID (R_info r) = ''u1''" "DI_Devcore (R_info r) = 64" by blast
  then have all: "register_all (sample_plugin ''cu'') ?D ?gpus = [r]" by (simp add: register_all_def List.map_filter_def)
  let ?out = "addXGMIPeers reg_files (\<lambda>_. []) (kfdNodesDir (sample_plugin ''cu'')) [(R_info r, R_node r)]"
  have len: "map DI_ID ?out = [''u1'']" "map DI_Devcore ?out = [64]" by (simp_all add: addXGMIPeers_fields r)
  then obtain info where info: "?out = [info]" "DI_ID info = ''u1''" "DI_Devcore info = 64" by auto
  have "reg_run = (?out, publish (sample_plugin ''cu'') ?gpus [r] ?out, ?cap)"
    unfolding getAPIDevices_def cl by (simp only: prod.case Let_def all list.map)
  with info show ?thesis by simp
qed

theorem registered_ids_resolve_witness:
  "\<exists>info p' last'. reg_run = ([info], p', last') \<and> lookupDevice p' ''u1'' = Some info
    \<and> (\<exists>d. deviceDataFromAllocationUUID p' reg_files ''u1'' = Inr d)"
proof -
  from reg_run_eq obtain info p' last' where r: "reg_run = ([info], p', last')" "DI_ID info = ''u1''" by blast
  have "CHR ''#'' \<notin> set (DI_ID info)" by (simp add: r(2))
  from registered_ids_resolve [OF r(1) _ _ _ this, of reg_files] have
    "lookupDevice p' ''u1'' = Some info \<and> (\<exists>d. deviceDataFromAllocationUUID p' reg_files ''u1'' = Inr d)"
    by (auto simp: r(2))
  with r(1) show ?thesis by blast
qed



end
