(* ===== verification/Allocator.thy ===== *)
theory Allocator
  imports "HOL-Library.Multiset" Sysfs
begin

text \<open>
  The preferred-allocation policy: \<open>internal/pkg/allocator/device.go\<close>, \<open>besteffort_policy.go\<close> and
  \<open>allocator.go\<close>. Weights of GPU pairs are read from the topology files, candidate sets of node ids
  are built GPU by GPU with a work list, and the set with the best total weight is turned back into
  device ids.

  Parameters: \<open>glob dir\<close> is \<open>filepath.Glob(dir/[0-9]*)\<close>; \<open>sortAvail\<close> and \<open>sortParts\<close> are the two
  calls of \<open>sort.Slice\<close> whose order among equals Go leaves open. A Go map that is iterated is a list of
  its entries in the order of the iteration, so a theorem for every list holds for every order.
\<close>

section \<open>Data\<close>

record Device =
  Dev_Id :: string
  NodeId :: int
  NumaNode :: int
  DevId :: string
  Card :: int
  RenderD :: int
  ComputePartitionType :: string
  MemoryPartitionType :: string

record DeviceSet =
  Ids :: "int list"
  TotalWeight :: int
  LastIdx :: nat
  Size :: int
  ParentIds :: "nat list"

record DevicePartitions =
  ParentId :: string
  DP_DevId :: string
  DP_Ids :: "int list"
  Devs :: "string list"

type_synonym weights = "(int \<times> (int \<times> int) list) list"

fun setContainsAll :: "string list \<Rightarrow> string list \<Rightarrow> bool" where
  "setContainsAll put sub =
     (if length sub > length put then False else list_all (\<lambda>dev. list_ex (\<lambda>x. x = dev) put) sub)"

section \<open>Weights of pairs\<close>

text \<open>\<open>p2pWeights[from][to]\<close>; a missing entry reads as 0.\<close>

definition has_weight :: "weights \<Rightarrow> int \<Rightarrow> int \<Rightarrow> bool" where
  "has_weight p a b \<longleftrightarrow> (case map_of p a of None \<Rightarrow> False | Some m \<Rightarrow> map_of m b \<noteq> None)"

definition get_weight :: "weights \<Rightarrow> int \<Rightarrow> int \<Rightarrow> int" where
  "get_weight p a b =
     (case map_of p a of None \<Rightarrow> 0 | Some m \<Rightarrow> (case map_of m b of None \<Rightarrow> 0 | Some w \<Rightarrow> w))"

definition set_weight :: "int \<Rightarrow> int \<Rightarrow> int \<Rightarrow> weights \<Rightarrow> weights" where
  "set_weight a b w p =
     assoc_update a (assoc_update b w (case map_of p a of None \<Rightarrow> [] | Some m \<Rightarrow> m)) p"

definition calculatePairWeight :: "Device \<Rightarrow> Device \<Rightarrow> int \<Rightarrow> int" where
  "calculatePairWeight dev1 dev2 linkType =
     (if DevId dev1 = DevId dev2 then 10 else 20)
     + (if linkType = 11 then 10 else if linkType = 2 then 40 else 50)
     + (if NumaNode dev1 = NumaNode dev2 then 10 else 20)"

text \<open>\<open>strconv.ParseInt(ds, 0, 32)\<close>.\<close>

definition ParseInt0_32 :: "string \<Rightarrow> (num_error, int) result" where
  "ParseInt0_32 ds = bind_result (ParseInt0 ds) (\<lambda>v. if v < 2 ^ 31 then Inr v else Inl ErrRange)"

fun match_names :: "string list \<Rightarrow> nat \<Rightarrow> string \<Rightarrow> int list \<Rightarrow> (num_error, int list) result" where
  "match_names [] idx line res = Inr res"
| "match_names (re # res') idx line res =
     (case find_submatch re line of
        None \<Rightarrow> match_names res' (Suc idx) line res
      | Some m \<Rightarrow>
          (case ParseInt0_32 m of
             Inl e \<Rightarrow> Inl e
           | Inr v \<Rightarrow> match_names res' (Suc idx) line (res[idx := v])))"

fun match_lines :: "string list \<Rightarrow> string list \<Rightarrow> int list \<Rightarrow> (num_error, int list) result" where
  "match_lines re [] res = Inr res"
| "match_lines re (line # lines) res =
     (case match_names re 0 line res of Inl e \<Rightarrow> Inl e | Inr res' \<Rightarrow> match_lines re lines res')"

text \<open>The values of several properties, the last match of each; an unmatched one is 0.\<close>

definition fetchTopoProperties :: "files \<Rightarrow> string \<Rightarrow> string list \<Rightarrow> (topo_error, int list) result" where
  "fetchTopoProperties fs path re =
     (case fs path of
        None \<Rightarrow> Inl (TopoOpen path)
      | Some content \<Rightarrow> wrap_error TopoNum (match_lines re (fst (scan_lines content)) (replicate (length re) 0)))"

text \<open>The loop that looks both ends of a link up; it stops when both are found.\<close>

fun find_pair :: "int \<Rightarrow> int \<Rightarrow> Device list \<Rightarrow> Device option \<Rightarrow> Device option \<Rightarrow> (Device \<times> Device) option" where
  "find_pair a b [] fromDev toDev = None"
| "find_pair a b (d # devices) fromDev toDev =
     (let fromDev' = (if NodeId d = a then Some d else fromDev);
          toDev' = (if NodeId d = b then Some d else toDev)
      in case (fromDev', toDev') of
           (Some x, Some y) \<Rightarrow> Some (x, y)
         | _ \<Rightarrow> find_pair a b devices fromDev' toDev')"

definition link_weight :: "files \<Rightarrow> Device list \<Rightarrow> string \<Rightarrow> weights \<Rightarrow> weights" where
  "link_weight fs devices topath p2p =
     (case fetchTopoProperties fs (path_Join [topath, ''properties'']) [''node_from'', ''node_to'', ''type''] of
        Inl _ \<Rightarrow> p2p
      | Inr vals \<Rightarrow>
          (let a = (if vals ! 0 < vals ! 1 then vals ! 0 else vals ! 1);
               b = (if vals ! 0 < vals ! 1 then vals ! 1 else vals ! 0)
           in if a \<notin> set (map NodeId devices) \<or> b \<notin> set (map NodeId devices) then p2p
              else case find_pair a b devices None None of
                     None \<Rightarrow> p2p
                   | Some (x, y) \<Rightarrow> set_weight a b (calculatePairWeight x y (vals ! 2)) p2p))"

definition scanAndPopulatePeerWeights ::
  "files \<Rightarrow> (string \<Rightarrow> string list) \<Rightarrow> string \<Rightarrow> Device list \<Rightarrow> weights \<Rightarrow> weights" where
  "scanAndPopulatePeerWeights fs glob fromPath devices p2p =
     fold (link_weight fs devices)
       (glob (path_Join [fromPath, ''io_links'']) @ glob (path_Join [fromPath, ''p2p_links''])) p2p"

definition node_weights ::
  "files \<Rightarrow> (string \<Rightarrow> string list) \<Rightarrow> Device list \<Rightarrow> string \<Rightarrow> weights \<Rightarrow> weights" where
  "node_weights fs glob devices path p2p =
     (case fetchTopoProperties fs (path_Join [path, ''properties'']) [''drm_render_minor''] of
        Inl _ \<Rightarrow> p2p
      | Inr vals \<Rightarrow> if vals ! 0 \<le> 0 then p2p else scanAndPopulatePeerWeights fs glob path devices p2p)"

definition host_weight :: "Device \<Rightarrow> Device \<Rightarrow> weights \<Rightarrow> weights" where
  "host_weight a b p2p =
     (let x = (if NodeId a > NodeId b then b else a); y = (if NodeId a > NodeId b then a else b)
      in if NodeId x = NodeId y then p2p
         else if has_weight p2p (NodeId x) (NodeId y) then p2p
         else set_weight (NodeId x) (NodeId y) (calculatePairWeight x y (-1)) p2p)"

fun host_weights :: "Device list \<Rightarrow> weights \<Rightarrow> weights" where
  "host_weights [] p2p = p2p"
| "host_weights (a # devices) p2p = host_weights devices (fold (host_weight a) devices p2p)"

definition topoRootPath :: string where "topoRootPath = ''/sys/class/kfd/kfd/topology/nodes''"

definition fetchAllPairWeights ::
  "files \<Rightarrow> (string \<Rightarrow> string list) \<Rightarrow> Device list \<Rightarrow> weights \<Rightarrow> string \<Rightarrow> (string, weights) result" where
  "fetchAllPairWeights fs glob devices p2p folderPath =
     (if devices = [] then Inl ''devices list is empty, unable to calculate pair wise weights''
      else Inr (host_weights devices
             (fold (node_weights fs glob devices) (glob (if folderPath = [] then topoRootPath else folderPath)) p2p)))"

section \<open>Sets of devices\<close>

definition NewDeviceSet :: "int list \<Rightarrow> nat list \<Rightarrow> int \<Rightarrow> nat \<Rightarrow> DeviceSet" where
  "NewDeviceSet nodeIds parentIds weight lastIdx =
     \<lparr>Ids = nodeIds, TotalWeight = weight, LastIdx = lastIdx, Size = int (length nodeIds), ParentIds = parentIds\<rparr>"

definition addDeviceToSubsetAndUpdateWeight :: "weights \<Rightarrow> nat \<Rightarrow> DeviceSet \<Rightarrow> int \<Rightarrow> DeviceSet" where
  "addDeviceToSubsetAndUpdateWeight p2p devIdx dset devId =
     NewDeviceSet (Ids dset @ [devId]) (ParentIds dset)
       (foldl (\<lambda>currentWeight d. currentWeight + (if d < devId then get_weight p2p d devId else get_weight p2p devId d))
          (TotalWeight dset) (Ids dset)) devIdx"

definition with_required :: "weights \<Rightarrow> nat \<Rightarrow> DeviceSet \<Rightarrow> int list \<Rightarrow> DeviceSet" where
  "with_required p2p idx = foldl (addDeviceToSubsetAndUpdateWeight p2p idx)"

definition add_partition :: "Device \<Rightarrow> (string \<times> DevicePartitions) list \<Rightarrow> (string \<times> DevicePartitions) list" where
  "add_partition dev partitions =
     (let part = (case map_of partitions (DevId dev) of
                    None \<Rightarrow> \<lparr>ParentId = [], DP_DevId = DevId dev, DP_Ids = [], Devs = []\<rparr> | Some q \<Rightarrow> q)
      in assoc_update (DevId dev)
           (part\<lparr>ParentId := (if \<not> Contains (Dev_Id dev) ''amdgpu_xcp'' then Dev_Id dev else ParentId part),
                 DP_Ids := DP_Ids part @ [NodeId dev], Devs := Devs part @ [Dev_Id dev]\<rparr>) partitions)"

definition groupPartitionsByDevId :: "Device list \<Rightarrow> (string \<times> DevicePartitions) list" where
  "groupPartitionsByDevId devs = fold add_partition devs []"

text \<open>The loop over the ids of one GPU: an id is kept while its count lasts.\<close>

fun keep_ids :: "(int \<Rightarrow> int) \<Rightarrow> int list \<Rightarrow> int list \<times> (int \<Rightarrow> int)" where
  "keep_ids remaining [] = ([], remaining)"
| "keep_ids remaining (i # ids) =
     (if remaining i > 0
      then (case keep_ids (remaining(i := remaining i - 1)) ids of (kept, r) \<Rightarrow> (i # kept, r))
      else keep_ids remaining ids)"

fun keep_partitions :: "(int \<Rightarrow> int) \<Rightarrow> DevicePartitions list \<Rightarrow> DevicePartitions list" where
  "keep_partitions remaining [] = []"
| "keep_partitions remaining (q # qs) =
     (case keep_ids remaining (DP_Ids q) of
        (filteredIds, r) \<Rightarrow>
          (if length filteredIds > 0
           then \<lparr>ParentId = ParentId q, DP_DevId = DP_DevId q, DP_Ids = sort filteredIds, Devs = []\<rparr> # keep_partitions r qs
           else keep_partitions r qs))"

definition remaining_ids :: "Device list \<Rightarrow> Device list \<Rightarrow> int \<Rightarrow> int" where
  "remaining_ids available required =
     fold (\<lambda>req r. r(NodeId req := r (NodeId req) - 1)) required
       (fold (\<lambda>av r. r(NodeId av := r (NodeId av) + 1)) available (\<lambda>_. 0))"

definition filterPartitions ::
  "(DevicePartitions list \<Rightarrow> DevicePartitions list) \<Rightarrow> (string \<times> DevicePartitions) list
     \<Rightarrow> Device list \<Rightarrow> Device list \<Rightarrow> DevicePartitions list" where
  "filterPartitions sortParts partitions available required =
     sortParts (keep_partitions (remaining_ids available required) (map snd partitions))"

section \<open>Candidate sets\<close>

text \<open>The ids of a GPU after the first are added until the set has \<open>newSize\<close> of them.\<close>

fun add_until :: "weights \<Rightarrow> nat \<Rightarrow> int \<Rightarrow> DeviceSet \<Rightarrow> int list \<Rightarrow> DeviceSet" where
  "add_until p2p idx newSize devset [] = devset"
| "add_until p2p idx newSize devset (i # ids) =
     (let devset' = addDeviceToSubsetAndUpdateWeight p2p idx devset i
      in if Size devset' = newSize then devset' else add_until p2p idx newSize devset' ids)"

definition first_set :: "weights \<Rightarrow> int \<Rightarrow> nat \<Rightarrow> DevicePartitions \<Rightarrow> DeviceSet" where
  "first_set p2p newSize idx part =
     (let devset = NewDeviceSet [hd (DP_Ids part)] [idx] 0 idx
      in if newSize = 1 then devset else add_until p2p idx newSize devset (tl (DP_Ids part)))"

text \<open>One set per GPU: complete ones first component, too small ones second.\<close>

fun first_sets :: "weights \<Rightarrow> int list \<Rightarrow> int \<Rightarrow> nat \<Rightarrow> DevicePartitions list \<Rightarrow> DeviceSet list \<times> DeviceSet list" where
  "first_sets p2p required newSize idx [] = ([], [])"
| "first_sets p2p required newSize idx (part # parts) =
     (let devset = first_set p2p newSize idx part
      in case first_sets p2p required newSize (Suc idx) parts of
           (final, temp) \<Rightarrow>
             if Size devset = newSize then (with_required p2p idx devset required # final, temp)
             else (final, devset # temp))"

text \<open>One step of the work list: the current set extended by every GPU it does not hold yet.\<close>

definition skip_part :: "DevicePartitions list \<Rightarrow> int \<Rightarrow> DeviceSet \<Rightarrow> nat \<Rightarrow> bool" where
  "skip_part parts newSize current idx \<longleftrightarrow>
     idx \<in> set (ParentIds current)
     \<or> (idx < LastIdx current \<and> int (length (DP_Ids (parts ! idx))) \<le> newSize - Size current)"

definition extend_set :: "weights \<Rightarrow> DevicePartitions list \<Rightarrow> int \<Rightarrow> DeviceSet \<Rightarrow> nat \<Rightarrow> DeviceSet" where
  "extend_set p2p parts newSize current idx =
     add_until p2p idx newSize
       (NewDeviceSet (Ids current) (ParentIds current @ [idx]) (TotalWeight current) (LastIdx current))
       (DP_Ids (parts ! idx))"

definition expand ::
  "weights \<Rightarrow> int list \<Rightarrow> DevicePartitions list \<Rightarrow> int \<Rightarrow> DeviceSet \<Rightarrow> DeviceSet list \<times> DeviceSet list" where
  "expand p2p required parts newSize current =
     (let idxs = filter (\<lambda>idx. \<not> skip_part parts newSize current idx) [0..<length parts];
          sets = map (\<lambda>idx. (idx, extend_set p2p parts newSize current idx)) idxs
      in (map (\<lambda>(idx, s). with_required p2p idx s required) (filter (\<lambda>(idx, s). Size s = newSize) sets),
          map snd (filter (\<lambda>(idx, s). Size s < newSize) sets)))"

text \<open>How many GPUs a set may still take.\<close>

definition open_parts :: "DevicePartitions list \<Rightarrow> DeviceSet \<Rightarrow> nat" where
  "open_parts parts s = length (filter (\<lambda>idx. idx \<notin> set (ParentIds s)) [0..<length parts])"

definition work :: "DevicePartitions list \<Rightarrow> DeviceSet list \<Rightarrow> nat" where
  "work parts queue = (\<Sum>s\<leftarrow>queue. Suc (length parts) ^ open_parts parts s)"

lemma NewDeviceSet_sel [simp]:
  "Ids (NewDeviceSet ids ps w i) = ids" "TotalWeight (NewDeviceSet ids ps w i) = w"
  "LastIdx (NewDeviceSet ids ps w i) = i" "Size (NewDeviceSet ids ps w i) = int (length ids)"
  "ParentIds (NewDeviceSet ids ps w i) = ps"
  by (simp_all add: NewDeviceSet_def)

lemma add_device_sel [simp]:
  "Ids (addDeviceToSubsetAndUpdateWeight p2p idx s i) = Ids s @ [i]"
  "ParentIds (addDeviceToSubsetAndUpdateWeight p2p idx s i) = ParentIds s"
  "LastIdx (addDeviceToSubsetAndUpdateWeight p2p idx s i) = idx"
  "Size (addDeviceToSubsetAndUpdateWeight p2p idx s i) = int (length (Ids s)) + 1"
  by (simp_all add: addDeviceToSubsetAndUpdateWeight_def)

lemma add_until_ParentIds [simp]: "ParentIds (add_until p2p idx newSize s ids) = ParentIds s"
  by (induction ids arbitrary: s) (simp_all add: Let_def)

lemma extend_set_ParentIds [simp]: "ParentIds (extend_set p2p parts newSize s idx) = ParentIds s @ [idx]"
  by (simp add: extend_set_def)

lemma open_parts_extend:
  assumes "idx < length parts" "idx \<notin> set (ParentIds s)"
  shows "Suc (open_parts parts (extend_set p2p parts newSize s idx)) = open_parts parts s"
proof -
  let ?open = "\<lambda>ps. {i. i < length parts \<and> i \<notin> set ps}"
  have card: "open_parts parts s' = card (?open (ParentIds s'))" for s'
    by (simp add: open_parts_def length_filter_conv_card)
      (rule arg_cong [where f = card], auto)
  have "?open (ParentIds s) = insert idx (?open (ParentIds s @ [idx]))" using assms by auto
  then have "card (?open (ParentIds s)) = Suc (card (?open (ParentIds s @ [idx])))" by simp
  then show ?thesis by (simp add: card)
qed

lemma open_parts_le: "open_parts parts s \<le> length parts"
  unfolding open_parts_def by (metis diff_zero length_filter_le length_upt)

lemma work_append: "work parts (q @ q') = work parts q + work parts q'"
  by (simp add: work_def)

lemma work_expand: "work parts (snd (expand p2p required parts newSize current)) < Suc (length parts) ^ open_parts parts current"
proof -
  let ?tmp = "snd (expand p2p required parts newSize current)"
  let ?n = "length parts"
  define idxs where "idxs = filter (\<lambda>idx. \<not> skip_part parts newSize current idx) [0..<?n]"
  have tmp: "?tmp = map snd (filter (\<lambda>(idx, s). Size s < newSize)
      (map (\<lambda>idx. (idx, extend_set p2p parts newSize current idx)) idxs))"
    by (simp add: expand_def Let_def idxs_def)
  have idx: "idx < ?n \<and> idx \<notin> set (ParentIds current)" if "idx \<in> set idxs" for idx
    using that by (simp add: idxs_def skip_part_def)
  show ?thesis
  proof (cases "open_parts parts current")
    case 0
    have "idxs = []"
    proof (rule ccontr)
      assume "idxs \<noteq> []"
      then have "hd idxs < ?n \<and> hd idxs \<notin> set (ParentIds current)" by (intro idx) simp
      with open_parts_extend [of "hd idxs" parts current p2p newSize] 0 show False by simp
    qed
    with tmp show ?thesis by (simp add: work_def)
  next
    case (Suc k)
    have each: "open_parts parts s = k" if "s \<in> set ?tmp" for s
    proof -
      from that obtain i where "i \<in> set idxs" "s = extend_set p2p parts newSize current i"
        unfolding tmp by auto
      with idx [of i] open_parts_extend [of i parts current p2p newSize] Suc show ?thesis by simp
    qed
    have len: "length ?tmp \<le> ?n"
    proof -
      have "length ?tmp \<le> length idxs" unfolding tmp by (metis length_filter_le length_map)
      also have "\<dots> \<le> ?n" unfolding idxs_def by (metis diff_zero length_filter_le length_upt)
      finally show ?thesis .
    qed
    have "work parts ?tmp = (\<Sum>s\<leftarrow>?tmp. Suc ?n ^ k)"
      unfolding work_def by (rule arg_cong [where f = sum_list]) (simp add: each)
    also have "\<dots> = length ?tmp * Suc ?n ^ k" by (simp add: sum_list_triv)
    also have "\<dots> \<le> ?n * Suc ?n ^ k" using len by (rule mult_right_mono) simp
    also have "\<dots> < Suc ?n ^ Suc k" by simp
    finally show ?thesis using Suc by simp
  qed
qed

function candidate_loop ::
  "weights \<Rightarrow> int list \<Rightarrow> DevicePartitions list \<Rightarrow> int \<Rightarrow> DeviceSet list \<Rightarrow> DeviceSet list" where
  "candidate_loop p2p required parts newSize [] = []"
| "candidate_loop p2p required parts newSize (current # queue) =
     (if length (ParentIds current) = length parts then candidate_loop p2p required parts newSize queue
      else fst (expand p2p required parts newSize current)
        @ candidate_loop p2p required parts newSize (queue @ snd (expand p2p required parts newSize current)))"
  by pat_completeness auto
termination
proof (relation "measure (\<lambda>(p2p, required, parts, newSize, queue). work parts queue)", goal_cases)
  case (2 p2p required parts newSize current queue)
  then show ?case by (simp add: work_def)
next
  case (3 p2p required parts newSize current queue)
  then show ?case
    using work_expand [of parts p2p required newSize current] by (simp add: work_append work_def del: power_Suc)
qed simp

definition getCandidateDeviceSubsets ::
  "(Device list \<Rightarrow> Device list) \<Rightarrow> (DevicePartitions list \<Rightarrow> DevicePartitions list)
     \<Rightarrow> (string \<times> DevicePartitions) list \<Rightarrow> Device list \<Rightarrow> Device list \<Rightarrow> int \<Rightarrow> weights
     \<Rightarrow> (string, Device list \<times> DeviceSet list) result" where
  "getCandidateDeviceSubsets sortAvail sortParts allDevPartitions available required size1 p2p =
     (if size1 \<le> 0 then Inl ''subset size should be positive integer''
      else if int (length available) < size1 then Inl ''subset size is more than available devices''
      else (let available' = sortAvail available;
                devPartitions = filterPartitions sortParts allDevPartitions available' required;
                newSize = size1 - int (length required)
            in case first_sets p2p (map NodeId required) newSize 0 devPartitions of
                 (final, temp) \<Rightarrow>
                   Inr (available', final @ candidate_loop p2p (map NodeId required) devPartitions newSize temp)))"

section \<open>The policy\<close>

record BestEffortPolicy =
  BE_devices :: "Device list"
  devicesMap :: "(string \<times> Device) list"
  devicePartitions :: "(string \<times> DevicePartitions) list"
  p2pWeights :: weights
  spread :: bool

definition NewBestEffortPolicy :: BestEffortPolicy where
  "NewBestEffortPolicy = \<lparr>BE_devices = [], devicesMap = [], devicePartitions = [], p2pWeights = [], spread = False\<rparr>"

definition NewSpreadPolicy :: BestEffortPolicy where
  "NewSpreadPolicy = NewBestEffortPolicy\<lparr>spread := True\<rparr>"

definition NewPolicy :: "string \<Rightarrow> (string, BestEffortPolicy) result" where
  "NewPolicy name =
     (if name \<in> {[], ''besteffort'', ''binpack''} then Inr NewBestEffortPolicy
      else if name = ''spread'' then Inr NewSpreadPolicy
      else Inl name)"

definition getDevicesFromIds :: "BestEffortPolicy \<Rightarrow> string list \<Rightarrow> Device list" where
  "getDevicesFromIds b ids = List.map_filter (map_of (devicesMap b)) ids"

definition Init ::
  "files \<Rightarrow> (string \<Rightarrow> string list) \<Rightarrow> BestEffortPolicy \<Rightarrow> Device list \<Rightarrow> string
     \<Rightarrow> BestEffortPolicy \<times> (string, unit) result" where
  "Init fs glob b devs topoDir =
     (case fetchAllPairWeights fs glob devs (p2pWeights b) topoDir of
        Inl e \<Rightarrow> (b, Inl e)
      | Inr w \<Rightarrow>
          (b\<lparr>p2pWeights := w, BE_devices := devs,
             devicesMap := fold (\<lambda>d. assoc_update (Dev_Id d) d) devs (devicesMap b),
             devicePartitions := groupPartitionsByDevId devs\<rparr>, Inr ()))"

definition MaxInt32 :: int where "MaxInt32 = 2147483647"
definition MinInt32 :: int where "MinInt32 = -2147483648"

fun best_set :: "bool \<Rightarrow> DeviceSet list \<Rightarrow> int \<Rightarrow> DeviceSet option \<Rightarrow> DeviceSet option" where
  "best_set spr [] bestScore candidate = candidate"
| "best_set spr (s # ss) bestScore candidate =
     (if (\<not> spr \<and> TotalWeight s < bestScore) \<or> (spr \<and> TotalWeight s > bestScore)
      then best_set spr ss (TotalWeight s) (Some s) else best_set spr ss bestScore candidate)"

text \<open>The loop that turns a candidate back into device ids.\<close>

fun pick_devices :: "(int \<Rightarrow> int) \<Rightarrow> string list \<Rightarrow> Device list \<Rightarrow> string list" where
  "pick_devices need requiredIds [] = []"
| "pick_devices need requiredIds (d # available) =
     (if need (NodeId d) > 0 \<and> Dev_Id d \<notin> set requiredIds
      then Dev_Id d # pick_devices (need(NodeId d := need (NodeId d) - 1)) requiredIds available
      else pick_devices need requiredIds available)"

text \<open>The only GPU: its splits are taken in the order kubelet lists them.\<close>

fun fill_up :: "nat \<Rightarrow> string list \<Rightarrow> string list \<Rightarrow> string list \<Rightarrow> string list" where
  "fill_up n requiredIds [] out = out"
| "fill_up n requiredIds (i # ids) out =
     (if length out = n then out
      else if i \<notin> set requiredIds then fill_up n requiredIds ids (out @ [i])
      else fill_up n requiredIds ids out)"

definition node_need :: "DeviceSet \<Rightarrow> Device list \<Rightarrow> int \<Rightarrow> int" where
  "node_need candidate required =
     fold (\<lambda>d need. need(NodeId d := need (NodeId d) - 1)) required
       (fold (\<lambda>i need. need(i := need i + 1)) (Ids candidate) (\<lambda>_. 0))"

definition AllocatePreferred ::
  "(Device list \<Rightarrow> Device list) \<Rightarrow> (DevicePartitions list \<Rightarrow> DevicePartitions list) \<Rightarrow> BestEffortPolicy
     \<Rightarrow> string list \<Rightarrow> string list \<Rightarrow> int \<Rightarrow> (string, string list) result" where
  "AllocatePreferred sortAvail sortParts b availableIds requiredIds size1 =
     (if size1 \<le> 0 then Inl ''allocation size can not be negative''
      else if int (length availableIds) < size1 then Inl ''available devices count less than allocation size''
      else if int (length requiredIds) > size1 then Inl ''must_include devices size is more than allocation size''
      else if length requiredIds > length availableIds
        then Inl ''must_include length should be less than or equal to available device size''
      else if BE_devices b = [] then Inl ''init method must be called before Allocate''
      else if int (length availableIds) = size1 then Inr availableIds
      else if int (length requiredIds) = size1 then Inr requiredIds
      else if \<not> setContainsAll availableIds requiredIds then Inl ''no candidate subset found with matching criteria''
      else if p2pWeights b = [] then Inr (fill_up (nat size1) requiredIds availableIds requiredIds)
      else (let required = getDevicesFromIds b requiredIds in
        case getCandidateDeviceSubsets sortAvail sortParts (devicePartitions b) (getDevicesFromIds b availableIds)
               required size1 (p2pWeights b) of
          Inl e \<Rightarrow> Inl e
        | Inr (available, allSubsets) \<Rightarrow>
            (case best_set (spread b) allSubsets (if spread b then MinInt32 else MaxInt32) None of
               None \<Rightarrow> Inl ''no candidate subset found with matching criteria''
             | Some candidate \<Rightarrow> Inr (requiredIds @ pick_devices (node_need candidate required) requiredIds available))))"

end
