(* ===== verification/AllocatorSets.thy ===== *)
theory AllocatorSets
  imports Allocator
begin

text \<open>
  The candidate sets of the allocator policy. \<open>candidate_ok\<close> is what every candidate satisfies: it
  holds the required nodes and as many further ones as are missing, no node more often than it has
  free devices, and its weight is the total over its pairs. The work list keeps it
  (\<open>candidates_ok\<close>) and never comes out empty when there are enough devices (\<open>candidates_exist\<close>).
\<close>

section \<open>Total weight of a set\<close>

definition link :: "weights \<Rightarrow> int \<Rightarrow> int \<Rightarrow> int" where
  "link p2p a b = (if a < b then get_weight p2p a b else get_weight p2p b a)"

fun total :: "weights \<Rightarrow> int list \<Rightarrow> int" where
  "total p2p [] = 0"
| "total p2p (i # ids) = (\<Sum>d\<leftarrow>ids. link p2p d i) + total p2p ids"

lemma link_sym: "link p2p a b = link p2p b a"
  by (simp add: link_def)

lemma total_append:
  "total p2p (xs @ ys) = total p2p xs + total p2p ys + (\<Sum>x\<leftarrow>xs. \<Sum>y\<leftarrow>ys. link p2p y x)"
  by (induction xs) (simp_all add: algebra_simps)

lemma total_snoc: "total p2p (ids @ [i]) = total p2p ids + (\<Sum>d\<leftarrow>ids. link p2p d i)"
  by (simp add: total_append link_sym)

text \<open>The order in which a set was built does not matter.\<close>

lemma total_perm: "mset xs = mset ys \<Longrightarrow> total p2p xs = total p2p ys"
proof (induction xs arbitrary: ys)
  case (Cons x xs)
  then have "x \<in> set ys" by (metis list.set_intros(1) mset_eq_setD)
  then obtain us vs where ys: "ys = us @ x # vs" by (auto simp: in_set_conv_decomp)
  with Cons.prems have m: "mset xs = mset (us @ vs)" by simp
  have "(\<Sum>d\<leftarrow>xs. link p2p d x) = (\<Sum>d\<leftarrow>us @ vs. link p2p d x)"
    by (metis m mset_map sum_mset_sum_list)
  moreover have "(\<Sum>d\<leftarrow>us. link p2p x d) = (\<Sum>d\<leftarrow>us. link p2p d x)" by (simp add: link_sym [of p2p x])
  ultimately show ?case
    using Cons.IH [OF m] by (simp add: ys total_append sum_list_addf algebra_simps)
qed simp

lemma add_weight: "TotalWeight (addDeviceToSubsetAndUpdateWeight p2p idx s i)
    = TotalWeight s + (\<Sum>d\<leftarrow>Ids s. link p2p d i)"
proof -
  have "foldl (\<lambda>w d. w + link p2p d i) a ids = a + (\<Sum>d\<leftarrow>ids. link p2p d i)" for a ids
    by (induction ids arbitrary: a) (simp_all add: algebra_simps)
  then show ?thesis by (simp add: addDeviceToSubsetAndUpdateWeight_def link_def)
qed

text \<open>Sets are sound: the stored size and weight are those of the ids.\<close>

definition sound :: "weights \<Rightarrow> DeviceSet \<Rightarrow> bool" where
  "sound p2p s \<longleftrightarrow> Size s = int (length (Ids s)) \<and> TotalWeight s = total p2p (Ids s)"

lemma sound_add: "sound p2p s \<Longrightarrow> sound p2p (addDeviceToSubsetAndUpdateWeight p2p idx s i)"
  by (simp add: sound_def add_weight total_snoc)

lemma with_required_ok:
  "sound p2p s \<Longrightarrow> sound p2p (with_required p2p idx s ids) \<and> Ids (with_required p2p idx s ids) = Ids s @ ids"
  unfolding with_required_def
  by (induction ids arbitrary: s) (simp_all add: sound_add)

lemma add_until_ok:
  assumes "sound p2p s"
  shows "sound p2p (add_until p2p idx newSize s ids)
    \<and> (\<exists>k \<le> length ids. Ids (add_until p2p idx newSize s ids) = Ids s @ take k ids
         \<and> (Size (add_until p2p idx newSize s ids) = newSize \<or> k = length ids))"
  using assms
proof (induction ids arbitrary: s)
  case (Cons i ids)
  let ?s = "addDeviceToSubsetAndUpdateWeight p2p idx s i"
  show ?case
  proof (cases "Size ?s = newSize")
    case True
    with Cons.prems show ?thesis
      by (auto simp: Let_def sound_add simp del: add_device_sel(4) intro!: exI [of _ "Suc 0"])
  next
    case False
    from Cons.IH [OF sound_add [OF Cons.prems]] obtain k where
      "sound p2p (add_until p2p idx newSize ?s ids)" "k \<le> length ids"
      "Ids (add_until p2p idx newSize ?s ids) = Ids ?s @ take k ids"
      "Size (add_until p2p idx newSize ?s ids) = newSize \<or> k = length ids" by blast
    with False show ?thesis
      by (auto simp: Let_def simp del: add_device_sel(4) intro!: exI [of _ "Suc k"])
  qed
qed simp

text \<open>With room for all of them, all ids are added.\<close>

lemma add_until_all:
  "sound p2p s \<Longrightarrow> Size s + int (length ids) < newSize \<Longrightarrow>
   Ids (add_until p2p idx newSize s ids) = Ids s @ ids"
proof (induction ids arbitrary: s)
  case (Cons i ids)
  then show ?case by (simp add: Let_def sound_def) (simp add: sound_add Cons.IH sound_def add_weight total_snoc)
qed simp

lemma add_until_LastIdx:
  "LastIdx s = idx \<or> ids \<noteq> [] \<Longrightarrow> LastIdx (add_until p2p idx newSize s ids) = idx"
  by (induction ids arbitrary: s) (simp_all add: Let_def)

text \<open>With enough ids, the set reaches the size.\<close>

lemma add_until_full:
  "sound p2p s \<Longrightarrow> Size s < newSize \<Longrightarrow> newSize \<le> Size s + int (length ids) \<Longrightarrow>
   Size (add_until p2p idx newSize s ids) = newSize"
proof (induction ids arbitrary: s)
  case (Cons i ids)
  then show ?case
    using Cons.IH [of "addDeviceToSubsetAndUpdateWeight p2p idx s i"]
    by (auto simp: Let_def sound_add sound_def add_weight total_snoc)
qed simp

section \<open>What a candidate holds\<close>

definition ids_at :: "DevicePartitions list \<Rightarrow> nat \<Rightarrow> int list" where
  "ids_at parts i = DP_Ids (parts ! i)"

definition pool :: "DevicePartitions list \<Rightarrow> int multiset" where
  "pool parts = mset (concat (map DP_Ids parts))"

definition wf_set :: "weights \<Rightarrow> DevicePartitions list \<Rightarrow> DeviceSet \<Rightarrow> bool" where
  "wf_set p2p parts s \<longleftrightarrow> sound p2p s \<and> distinct (ParentIds s) \<and> set (ParentIds s) \<subseteq> {..<length parts}
     \<and> mset (Ids s) \<subseteq># (\<Sum>i\<leftarrow>ParentIds s. mset (ids_at parts i))"

definition candidate_ok :: "weights \<Rightarrow> int list \<Rightarrow> DevicePartitions list \<Rightarrow> int \<Rightarrow> DeviceSet \<Rightarrow> bool" where
  "candidate_ok p2p required parts newSize s \<longleftrightarrow> TotalWeight s = total p2p (Ids s)
     \<and> (\<exists>chosen. mset (Ids s) = chosen + mset required \<and> int (size chosen) = newSize \<and> chosen \<subseteq># pool parts)"

lemma pool_sum: "pool parts = (\<Sum>i<length parts. mset (ids_at parts i))"
proof -
  have "map (\<lambda>i. mset (ids_at parts i)) [0..<length parts] = map (\<lambda>q. mset (DP_Ids q)) parts"
    by (rule nth_equalityI) (simp_all add: ids_at_def)
  then have "(\<Sum>q\<leftarrow>parts. mset (DP_Ids q)) = (\<Sum>i\<leftarrow>[0..<length parts]. mset (ids_at parts i))" by simp
  also have "\<dots> = (\<Sum>i<length parts. mset (ids_at parts i))"
    by (simp add: sum_list_distinct_conv_sum_set atLeast0LessThan)
  finally show ?thesis by (simp add: pool_def mset_concat o_def)
qed

lemma parents_sub_pool:
  assumes "distinct ps" "set ps \<subseteq> {..<length parts}"
  shows "(\<Sum>i\<leftarrow>ps. mset (ids_at parts i)) \<subseteq># pool parts"
proof -
  have "pool parts = (\<Sum>i \<in> {..<length parts} - set ps. mset (ids_at parts i)) + (\<Sum>i \<in> set ps. mset (ids_at parts i))"
    unfolding pool_sum by (rule sum.subset_diff [OF assms(2)]) simp
  moreover have "(\<Sum>i\<leftarrow>ps. mset (ids_at parts i)) = (\<Sum>i \<in> set ps. mset (ids_at parts i))"
    using assms(1) by (rule sum_list_distinct_conv_sum_set)
  ultimately show ?thesis by simp
qed

section \<open>Every candidate is sound\<close>

lemma take_sub: "mset (take k xs) \<subseteq># mset xs"
  by (metis append_take_drop_id mset_append mset_subset_eq_add_left)

lemma add_until_wf:
  assumes "sound p2p s" "Size s < newSize" "distinct (ParentIds s)" "set (ParentIds s) \<subseteq> {..<length parts}"
    and "mset (Ids s) \<subseteq># base"
    and "base + mset ids \<subseteq># (\<Sum>i\<leftarrow>ParentIds s. mset (ids_at parts i))"
  shows "wf_set p2p parts (add_until p2p idx newSize s ids)"
proof -
  from add_until_ok [OF assms(1)] obtain k where
    k: "sound p2p (add_until p2p idx newSize s ids)" "Ids (add_until p2p idx newSize s ids) = Ids s @ take k ids" by blast
  have "mset (Ids s @ take k ids) \<subseteq># base + mset ids"
    using subset_mset.add_mono [OF assms(5) take_sub] by simp
  then have "mset (Ids s @ take k ids) \<subseteq># (\<Sum>i\<leftarrow>ParentIds s. mset (ids_at parts i))"
    using assms(6) subset_mset.order_trans by blast
  with k assms(3,4) show ?thesis by (simp add: wf_set_def)
qed

lemma first_set_wf:
  assumes "idx < length parts" "part = parts ! idx" "DP_Ids part \<noteq> []" "1 \<le> newSize"
  shows "wf_set p2p parts (first_set p2p newSize idx part)"
proof -
  let ?s = "NewDeviceSet [hd (DP_Ids part)] [idx] 0 idx"
  have s: "sound p2p ?s" by (simp add: sound_def)
  have ids: "{#hd (DP_Ids part)#} + mset (tl (DP_Ids part)) = mset (ids_at parts idx)"
    using assms(2,3) by (cases "DP_Ids part") (auto simp: ids_at_def)
  show ?thesis
  proof (cases "newSize = 1")
    case True
    have "{#hd (DP_Ids part)#} \<subseteq># mset (ids_at parts idx)" using ids by (metis mset_subset_eq_add_left)
    with True s assms(1) show ?thesis by (simp add: first_set_def wf_set_def)
  next
    case False
    have "wf_set p2p parts (add_until p2p idx newSize ?s (tl (DP_Ids part)))"
      by (rule add_until_wf [where base = "{#hd (DP_Ids part)#}"]) (use s assms(1,4) False ids in auto)
    with False show ?thesis by (simp add: first_set_def)
  qed
qed

lemma extend_set_wf:
  assumes "wf_set p2p parts s" "idx < length parts" "idx \<notin> set (ParentIds s)" "Size s < newSize"
  shows "wf_set p2p parts (extend_set p2p parts newSize s idx)"
proof -
  have w: "sound p2p s" "distinct (ParentIds s)" "set (ParentIds s) \<subseteq> {..<length parts}"
    "mset (Ids s) \<subseteq># (\<Sum>i\<leftarrow>ParentIds s. mset (ids_at parts i))"
    using assms(1) by (auto simp: wf_set_def)
  show ?thesis
    unfolding extend_set_def
    by (rule add_until_wf [where base = "\<Sum>i\<leftarrow>ParentIds s. mset (ids_at parts i)"])
      (use w assms(2,3,4) in \<open>auto simp: sound_def ids_at_def\<close>)
qed

lemma wf_complete:
  assumes "wf_set p2p parts s" "Size s = newSize"
  shows "candidate_ok p2p required parts newSize (with_required p2p idx s required)"
proof -
  have w: "sound p2p s" "mset (Ids s) \<subseteq># pool parts"
    using assms(1) parents_sub_pool [of "ParentIds s" parts] subset_mset.order_trans
    by (auto simp: wf_set_def)
  from with_required_ok [OF w(1)] show ?thesis
    using assms(2) w by (auto simp: candidate_ok_def sound_def intro!: exI [of _ "mset (Ids s)"])
qed

lemma first_sets_ok:
  assumes "first_sets p2p required newSize idx parts' = (final, temp)" "parts' = drop idx parts"
    and "\<forall>q \<in> set parts. DP_Ids q \<noteq> []" "1 \<le> newSize"
  shows "(\<forall>s \<in> set final. candidate_ok p2p required parts newSize s)
    \<and> (\<forall>s \<in> set temp. wf_set p2p parts s \<and> Size s < newSize)"
  using assms
proof (induction p2p required newSize idx parts' arbitrary: final temp rule: first_sets.induct)
  case (2 p2p required newSize idx part parts')
  let ?s = "first_set p2p newSize idx part"
  have idx: "idx < length parts" "part = parts ! idx" "parts' = drop (Suc idx) parts"
    using "2.prems"(2) by (metis drop_all leI list.distinct(1), metis drop_all leI list.distinct(1) nth_via_drop,
        metis drop_Suc list.sel(3) tl_drop)
  have part: "DP_Ids part \<noteq> []" using idx "2.prems"(3) by simp
  have wf: "wf_set p2p parts ?s" using first_set_wf [OF idx(1,2) part "2.prems"(4)] .
  have size1: "Size ?s \<le> newSize"
  proof -
    have "Size (add_until p2p idx newSize s ids) \<le> newSize" if "sound p2p s" "Size s \<le> newSize" "ids \<noteq> [] \<longrightarrow> Size s < newSize" for s ids
      using that
    proof (induction ids arbitrary: s)
      case (Cons i ids)
      then show ?case by (auto simp: Let_def sound_def add_weight total_snoc)
    qed simp
    then show ?thesis using "2.prems"(4) by (auto simp: first_set_def Let_def sound_def)
  qed
  obtain f t where r: "first_sets p2p required newSize (Suc idx) parts' = (f, t)" by fastforce
  from "2.IH" [OF refl r idx(3) "2.prems"(3,4)]
  have ih: "(\<forall>s \<in> set f. candidate_ok p2p required parts newSize s) \<and> (\<forall>s \<in> set t. wf_set p2p parts s \<and> Size s < newSize)"
    by simp
  show ?case
  proof (cases "Size ?s = newSize")
    case True
    with "2.prems"(1) r ih wf_complete [OF wf True] show ?thesis by (auto simp: Let_def)
  next
    case False
    with "2.prems"(1) r ih wf size1 show ?thesis by (auto simp: Let_def)
  qed
qed simp

text \<open>The two results of a step, each as one comprehension over the GPUs that are tried.\<close>

lemma expand_eq:
  "fst (expand p2p required parts newSize s) =
     map (\<lambda>i. with_required p2p i (extend_set p2p parts newSize s i) required)
       (filter (\<lambda>i. Size (extend_set p2p parts newSize s i) = newSize)
         (filter (\<lambda>i. \<not> skip_part parts newSize s i) [0..<length parts]))"
  "snd (expand p2p required parts newSize s) =
     map (extend_set p2p parts newSize s)
       (filter (\<lambda>i. Size (extend_set p2p parts newSize s i) < newSize)
         (filter (\<lambda>i. \<not> skip_part parts newSize s i) [0..<length parts]))"
  by (simp_all add: expand_def Let_def filter_map o_def)

lemma expand_ok:
  assumes "wf_set p2p parts s" "Size s < newSize"
  shows "(\<forall>c \<in> set (fst (expand p2p required parts newSize s)). candidate_ok p2p required parts newSize c)
    \<and> (\<forall>t \<in> set (snd (expand p2p required parts newSize s)). wf_set p2p parts t \<and> Size t < newSize)"
proof -
  have wf: "wf_set p2p parts (extend_set p2p parts newSize s i)" if "i < length parts" "\<not> skip_part parts newSize s i" for i
    using extend_set_wf [OF assms(1) that(1) _ assms(2)] that(2) by (simp add: skip_part_def)
  have "candidate_ok p2p required parts newSize (with_required p2p i (extend_set p2p parts newSize s i) required)"
    if "i < length parts" "\<not> skip_part parts newSize s i" "Size (extend_set p2p parts newSize s i) = newSize" for i
    using wf_complete [OF wf [OF that(1,2)] that(3)] .
  with wf show ?thesis by (auto simp: expand_eq)
qed

lemma candidate_loop_ok:
  assumes "\<forall>s \<in> set queue. wf_set p2p parts s \<and> Size s < newSize"
  shows "\<forall>c \<in> set (candidate_loop p2p required parts newSize queue). candidate_ok p2p required parts newSize c"
  using assms
proof (induction p2p required parts newSize queue rule: candidate_loop.induct)
  case (2 p2p required parts newSize current queue)
  show ?case
  proof (cases "length (ParentIds current) = length parts")
    case False
    have e: "(\<forall>c \<in> set (fst (expand p2p required parts newSize current)). candidate_ok p2p required parts newSize c)
      \<and> (\<forall>t \<in> set (snd (expand p2p required parts newSize current)). wf_set p2p parts t \<and> Size t < newSize)"
      by (rule expand_ok) (use "2.prems" in auto)
    with "2.IH"(2) [OF False] "2.prems" show ?thesis
      using False by (auto simp del: split_paired_All)
  qed (use 2 in simp)
qed simp

section \<open>With enough devices there is a candidate\<close>

text \<open>The sets that take the first GPUs whole, one after the other, are never skipped.\<close>

definition whole_prefix :: "weights \<Rightarrow> DevicePartitions list \<Rightarrow> DeviceSet \<Rightarrow> bool" where
  "whole_prefix p2p parts s \<longleftrightarrow> sound p2p s \<and> (\<exists>j < length parts. ParentIds s = [0..<Suc j] \<and> LastIdx s = j
     \<and> Ids s = concat (map (ids_at parts) [0..<Suc j]))"

lemma pool_concat: "pool parts = mset (concat (map (ids_at parts) [0..<length parts]))"
proof -
  have "map (ids_at parts) [0..<length parts] = map DP_Ids parts"
    by (rule nth_equalityI) (simp_all add: ids_at_def)
  then show ?thesis by (simp add: pool_def)
qed

lemma first_set_whole:
  assumes "0 < length parts" "DP_Ids (parts ! 0) \<noteq> []" "1 \<le> newSize"
  shows "Size (first_set p2p newSize 0 (parts ! 0)) = newSize \<or> whole_prefix p2p parts (first_set p2p newSize 0 (parts ! 0))"
proof -
  let ?ids = "DP_Ids (parts ! 0)"
  let ?s = "NewDeviceSet [hd ?ids] [0] 0 0"
  let ?r = "first_set p2p newSize 0 (parts ! 0)"
  have s: "sound p2p ?s" by (simp add: sound_def)
  show ?thesis
  proof (cases "newSize = 1")
    case True
    then show ?thesis by (simp add: first_set_def)
  next
    case False
    then have r: "?r = add_until p2p 0 newSize ?s (tl ?ids)" by (simp add: first_set_def)
    show ?thesis
    proof (cases "newSize \<le> int (length ?ids)")
      case True
      have "Size ?r = newSize"
        unfolding r by (rule add_until_full [OF s]) (use True False assms in \<open>auto simp: Suc_le_eq\<close>)
      then show ?thesis ..
    next
      case nf: False
      have "Size ?s + int (length (tl ?ids)) < newSize"
        using nf assms(2) by (cases "DP_Ids (parts ! 0)") auto
      then have "Ids ?r = [hd ?ids] @ tl ?ids"
        unfolding r by (subst add_until_all [OF s]) auto
      then have "Ids ?r = ids_at parts 0" using assms(2) by (simp add: ids_at_def)
      moreover have "LastIdx ?r = 0" "ParentIds ?r = [0]" unfolding r by (simp_all add: add_until_LastIdx)
      moreover have "sound p2p ?r" unfolding r using add_until_ok [OF s] by blast
      ultimately show ?thesis using assms(1) by (auto simp: whole_prefix_def)
    qed
  qed
qed

lemma extend_whole:
  assumes "whole_prefix p2p parts s" "Size s < newSize" "newSize \<le> int (size (pool parts))"
    and "\<forall>q \<in> set parts. DP_Ids q \<noteq> []"
  shows "\<exists>i < length parts. \<not> skip_part parts newSize s i
    \<and> (Size (extend_set p2p parts newSize s i) = newSize \<or> whole_prefix p2p parts (extend_set p2p parts newSize s i))"
proof -
  obtain j where j: "j < length parts" "ParentIds s = [0..<Suc j]" "LastIdx s = j"
    "Ids s = concat (map (ids_at parts) [0..<Suc j])" "sound p2p s"
    using assms(1) by (auto simp: whole_prefix_def)
  have "Suc j \<noteq> length parts"
  proof
    assume "Suc j = length parts"
    then have "size (pool parts) = length (Ids s)" unfolding pool_concat j(4) by (simp flip: size_mset)
    with assms(2,3) j(5) show False by (simp add: sound_def)
  qed
  with j(1) have i: "Suc j < length parts" by simp
  let ?ids = "ids_at parts (Suc j)"
  let ?s = "NewDeviceSet (Ids s) (ParentIds s @ [Suc j]) (TotalWeight s) (LastIdx s)"
  have s: "sound p2p ?s" using j(5) by (simp add: sound_def)
  have ids: "?ids \<noteq> []" using assms(4) i by (simp add: ids_at_def)
  have r: "extend_set p2p parts newSize s (Suc j) = add_until p2p (Suc j) newSize ?s ?ids"
    by (simp add: extend_set_def ids_at_def)
  have "Size (extend_set p2p parts newSize s (Suc j)) = newSize
      \<or> whole_prefix p2p parts (extend_set p2p parts newSize s (Suc j))"
  proof (cases "newSize \<le> Size ?s + int (length ?ids)")
    case True
    have "Size ?s < newSize" using assms(2) j(5) by (simp add: sound_def)
    then show ?thesis using add_until_full [OF s _ True] r by simp
  next
    case False
    have "Ids (extend_set p2p parts newSize s (Suc j)) = Ids s @ ?ids"
      unfolding r by (subst add_until_all [OF s]) (use False in auto)
    then show ?thesis
      using i j(2,4) add_until_ok [OF s, of "Suc j" newSize ?ids] ids
      by (auto simp: whole_prefix_def r add_until_LastIdx intro!: exI [of _ "Suc j"])
  qed
  moreover have "\<not> skip_part parts newSize s (Suc j)" using j(2,3) by (simp add: skip_part_def)
  ultimately show ?thesis using i by blast
qed

lemma candidate_loop_exists:
  assumes "s \<in> set queue" "whole_prefix p2p parts s" "Size s < newSize"
    and "\<forall>t \<in> set queue. wf_set p2p parts t \<and> Size t < newSize"
    and "newSize \<le> int (size (pool parts))" "\<forall>q \<in> set parts. DP_Ids q \<noteq> []"
  shows "candidate_loop p2p required parts newSize queue \<noteq> []"
  using assms
proof (induction p2p required parts newSize queue arbitrary: s rule: candidate_loop.induct)
  case (2 p2p required parts newSize current queue)
  obtain i where i: "i < length parts" "\<not> skip_part parts newSize s i"
    "Size (extend_set p2p parts newSize s i) = newSize \<or> whole_prefix p2p parts (extend_set p2p parts newSize s i)"
    using extend_whole [OF "2.prems"(2,3,5,6)] by blast
  have not_all: "length (ParentIds s) \<noteq> length parts"
  proof
    assume l: "length (ParentIds s) = length parts"
    from "2.prems"(2) have "\<exists>j < length parts. ParentIds s = [0..<Suc j]" by (auto simp: whole_prefix_def)
    with l have "set (ParentIds s) = {..<length parts}" by (auto simp del: upt_Suc)
    with i(1,2) show False by (simp add: skip_part_def)
  qed
  have exp: "\<forall>t \<in> set (snd (expand p2p required parts newSize current)). wf_set p2p parts t \<and> Size t < newSize"
    using expand_ok [of p2p parts current newSize required] "2.prems"(4) by simp
  show ?case
  proof (cases "s = current")
    case True
    have neq: "length (ParentIds current) \<noteq> length parts" using not_all True by simp
    show ?thesis
    proof (cases "Size (extend_set p2p parts newSize s i) = newSize")
      case fin: True
      then have "fst (expand p2p required parts newSize current) \<noteq> []"
        using i(1,2) True by (auto simp: expand_eq filter_empty_conv)
      with neq show ?thesis by simp
    next
      case False
      let ?t = "extend_set p2p parts newSize s i"
      have wf: "wf_set p2p parts s" "Size s < newSize" using "2.prems"(1,4) by auto
      have "Size ?t < newSize"
      proof -
        have "Size (add_until p2p idx newSize t ids) \<le> newSize" if "sound p2p t" "Size t < newSize" for idx t ids
          using that
        proof (induction ids arbitrary: t)
          case (Cons i ids)
          then show ?case by (auto simp: Let_def sound_def add_weight total_snoc)
        qed simp
        moreover have "sound p2p s" using wf(1) by (simp add: wf_set_def)
        ultimately have "Size ?t \<le> newSize" using wf(2) by (simp add: extend_set_def sound_def)
        with False show ?thesis by simp
      qed
      then have "?t \<in> set (snd (expand p2p required parts newSize current))"
        using i(1,2) True by (simp add: expand_eq)
      moreover have "whole_prefix p2p parts ?t" using i(3) False by blast
      ultimately have "candidate_loop p2p required parts newSize
          (queue @ snd (expand p2p required parts newSize current)) \<noteq> []"
        using "2.IH"(2) [OF neq, of ?t] \<open>Size ?t < newSize\<close> exp "2.prems"(4,5,6) by auto
      with neq show ?thesis by simp
    qed
  next
    case False
    then have s: "s \<in> set queue" using "2.prems"(1) by simp
    show ?thesis
    proof (cases "length (ParentIds current) = length parts")
      case True
      with "2.IH"(1) [OF True s "2.prems"(2,3)] "2.prems"(4,5,6) show ?thesis by simp
    next
      case neq: False
      have "candidate_loop p2p required parts newSize
          (queue @ snd (expand p2p required parts newSize current)) \<noteq> []"
        using "2.IH"(2) [OF neq, of s] s exp "2.prems" by auto
      with neq show ?thesis by simp
    qed
  qed
qed simp

text \<open>Both facts for the whole search.\<close>

definition search :: "weights \<Rightarrow> int list \<Rightarrow> DevicePartitions list \<Rightarrow> int \<Rightarrow> DeviceSet list" where
  "search p2p required parts newSize =
     (case first_sets p2p required newSize 0 parts of
        (final, temp) \<Rightarrow> final @ candidate_loop p2p required parts newSize temp)"

lemma candidates_ok:
  assumes "\<forall>q \<in> set parts. DP_Ids q \<noteq> []" "1 \<le> newSize" "s \<in> set (search p2p required parts newSize)"
  shows "candidate_ok p2p required parts newSize s"
proof -
  obtain final temp where f: "first_sets p2p required newSize 0 parts = (final, temp)" by fastforce
  from first_sets_ok [OF f _ assms(1,2)] candidate_loop_ok [of temp p2p parts newSize required] assms(3) f
  show ?thesis by (auto simp: search_def)
qed

lemma candidates_exist:
  assumes "\<forall>q \<in> set parts. DP_Ids q \<noteq> []" "1 \<le> newSize" "newSize \<le> int (size (pool parts))"
  shows "search p2p required parts newSize \<noteq> []"
proof -
  obtain final temp where f: "first_sets p2p required newSize 0 parts = (final, temp)" by fastforce
  have ok: "\<forall>t \<in> set temp. wf_set p2p parts t \<and> Size t < newSize"
    using first_sets_ok [OF f _ assms(1,2)] by simp
  have "parts \<noteq> []" using assms(2,3) by (auto simp: pool_def)
  then obtain part parts' where parts: "parts = part # parts'" by (cases parts) auto
  let ?s = "first_set p2p newSize 0 part"
  have "Size ?s = newSize \<or> whole_prefix p2p parts ?s"
    using first_set_whole [of parts newSize p2p] assms parts by simp
  moreover have "final \<noteq> [] \<or> ?s \<in> set temp"
    using f parts by (auto simp: Let_def split: prod.splits if_splits)
  moreover have "Size ?s = newSize \<Longrightarrow> final \<noteq> []"
    using f parts by (auto simp: Let_def split: prod.splits)
  ultimately have "final \<noteq> [] \<or> (?s \<in> set temp \<and> whole_prefix p2p parts ?s)" by blast
  with candidate_loop_exists [OF _ _ _ ok assms(3,1), of ?s required] ok
  have "final \<noteq> [] \<or> candidate_loop p2p required parts newSize temp \<noteq> []" by blast
  then show ?thesis by (auto simp: search_def f)
qed

end
