(* ===== verification/AllocatorPolicy.thy ===== *)
theory AllocatorPolicy
  imports AllocatorSets
begin

text \<open>
  The policy as kubelet meets it: after \<open>Init\<close>, \<open>Allocate\<close> of the best-effort and of the spread
  policy answers every request kubelet may make with a set of the right size, and the answer is the
  best of the candidates.
\<close>

section \<open>Weights after Init\<close>

definition weights_in :: "weights \<Rightarrow> bool" where
  "weights_in p2p \<longleftrightarrow> (\<forall>a b. 0 \<le> get_weight p2p a b \<and> get_weight p2p a b \<le> 90)"

lemma get_set_weight: "get_weight (set_weight a b w p2p) x y = (if x = a \<and> y = b then w else get_weight p2p x y)"
  by (auto simp: get_weight_def set_weight_def map_of_assoc_update split: option.split)

lemma pair_weight_in: "30 \<le> calculatePairWeight x y t \<and> calculatePairWeight x y t \<le> 90"
  by (simp add: calculatePairWeight_def)

lemma set_weight_in: "weights_in p2p \<Longrightarrow> weights_in (set_weight a b (calculatePairWeight x y t) p2p)"
  using pair_weight_in [of x y t] by (auto simp: weights_in_def get_set_weight)

lemma fold_in: "(\<And>x p. weights_in p \<Longrightarrow> weights_in (f x p)) \<Longrightarrow> weights_in p \<Longrightarrow> weights_in (fold f xs p)"
  by (induction xs arbitrary: p) auto

lemma link_weight_in: "weights_in p2p \<Longrightarrow> weights_in (link_weight fs devices t p2p)"
  by (auto simp: link_weight_def Let_def set_weight_in split: sum.split option.split prod.split)

lemma node_weights_in: "weights_in p2p \<Longrightarrow> weights_in (node_weights fs glob devices path p2p)"
  by (auto simp: node_weights_def scanAndPopulatePeerWeights_def link_weight_in fold_in split: sum.split)

lemma host_weights_in: "weights_in p2p \<Longrightarrow> weights_in (host_weights devices p2p)"
proof (induction devices p2p rule: host_weights.induct)
  case (2 a devices p2p)
  have "weights_in p \<Longrightarrow> weights_in (host_weight a b p)" for b p
    by (simp add: host_weight_def Let_def set_weight_in)
  with 2 show ?case by (simp add: fold_in)
qed simp

lemma fetch_in:
  "weights_in p2p \<Longrightarrow> fetchAllPairWeights fs glob devices p2p dir = Inr w \<Longrightarrow> weights_in w"
  by (auto simp: fetchAllPairWeights_def intro!: host_weights_in fold_in node_weights_in split: if_splits)

lemma total_bounds:
  assumes "weights_in p2p"
  shows "0 \<le> total p2p ids \<and> 2 * total p2p ids \<le> 90 * (int (length ids) * int (length ids))"
proof (induction ids)
  case (Cons i ids)
  have each: "0 \<le> link p2p d i \<and> link p2p d i \<le> 90" for d
    using assms by (simp add: weights_in_def link_def)
  have "0 \<le> (\<Sum>d\<leftarrow>ids. link p2p d i) \<and> (\<Sum>d\<leftarrow>ids. link p2p d i) \<le> 90 * int (length ids)"
    using each by (induction ids) (auto simp: algebra_simps add_mono)
  with Cons show ?case by (simp add: algebra_simps)
qed simp

section \<open>What is left of each GPU\<close>

lemma keep_ids_count:
  "keep_ids r ids = (kept, r') \<Longrightarrow>
   int (count (mset kept) n) = min (max 0 (r n)) (int (count (mset ids) n)) \<and> r' n = r n - int (count (mset kept) n)"
  by (induction r ids arbitrary: kept r' rule: keep_ids.induct)
    (fastforce split: if_splits prod.splits)+

lemma min_chain: "0 \<le> a \<Longrightarrow> 0 \<le> b \<Longrightarrow>
    min (max 0 r) a + min (max 0 (r - min (max 0 r) a)) b = min (max 0 r) (a + b)" for r a b :: int
  by (simp add: min_def max_def)

lemma sort_Nil: "sort xs = [] \<longleftrightarrow> xs = []"
  by (metis length_0_conv length_sort)

lemma keep_partitions_count:
  "int (count (pool (keep_partitions r qs)) n) = min (max 0 (r n)) (int (count (pool qs) n))"
proof (induction r qs rule: keep_partitions.induct)
  case (2 r q qs)
  obtain kept r' where k: "keep_ids r (DP_Ids q) = (kept, r')" by fastforce
  note c = keep_ids_count [OF k, of n]
  have ih: "int (count (pool (keep_partitions r' qs)) n) = min (max 0 (r' n)) (int (count (pool qs) n))"
    using "2.IH" k by (cases "length kept > 0") auto
  have pool: "pool (keep_partitions r (q # qs)) = mset kept + pool (keep_partitions r' qs)"
    using k by (auto simp: pool_def)
  show ?case using c ih unfolding pool by (simp add: pool_def min_chain)
qed (simp add: pool_def)

lemma keep_partitions_nonempty: "\<forall>q \<in> set (keep_partitions r qs). DP_Ids q \<noteq> []"
proof (induction r qs rule: keep_partitions.induct)
  case (2 r q qs)
  obtain kept r' where k: "keep_ids r (DP_Ids q) = (kept, r')" by fastforce
  with "2.IH" show ?case by (cases "kept = []") (auto simp: sort_Nil)
qed simp

lemma fold_count:
  "fold (\<lambda>x r. r(f x := r (f x) + c)) xs r n = r n + c * int (count (mset (map f xs)) n)" for c :: int
  by (induction xs arbitrary: r) (auto simp: algebra_simps)

lemma remaining_ids_eq:
  "remaining_ids available required n =
     int (count (mset (map NodeId available)) n) - int (count (mset (map NodeId required)) n)"
  using fold_count [of NodeId 1 available "\<lambda>_. 0" n] fold_count [of NodeId "-1" required _ n]
  by (simp add: remaining_ids_def)

lemma node_need_eq:
  "node_need candidate required n = int (count (mset (Ids candidate)) n) - int (count (mset (map NodeId required)) n)"
  using fold_count [of "\<lambda>i. i" 1 "Ids candidate" "\<lambda>_. 0" n] fold_count [of NodeId "-1" required _ n]
  by (simp add: node_need_def)

text \<open>A \<open>sort.Slice\<close> reorders; nothing else about it is used.\<close>

definition reorders :: "('a list \<Rightarrow> 'a list) \<Rightarrow> bool" where
  "reorders f \<longleftrightarrow> (\<forall>xs. mset (f xs) = mset xs)"

lemma pool_perm: "mset qs = mset qs' \<Longrightarrow> pool qs = pool qs'"
  by (metis mset_concat mset_map pool_def sum_mset_sum_list)

section \<open>Devices by id\<close>

lemma group_pool:
  "distinct (map fst m) \<Longrightarrow>
   distinct (map fst (fold add_partition devs m))
     \<and> pool (map snd (fold add_partition devs m)) = pool (map snd m) + mset (map NodeId devs)"
proof (induction devs arbitrary: m)
  case (Cons d devs)
  have upd: "pool (map snd (assoc_update k q m)) =
      pool (map snd m) + {#i#}" if "DP_Ids q = (case map_of m k of None \<Rightarrow> [] | Some q' \<Rightarrow> DP_Ids q') @ [i]"
    "distinct (map fst m)" for k q i and m :: "(string \<times> DevicePartitions) list"
    using that
  proof (induction m)
    case (Cons e m)
    then show ?case
      by (cases e) (auto simp: pool_def map_of_eq_None_iff [symmetric] split: option.splits)
  qed (simp add: pool_def)
  have "pool (map snd (add_partition d m)) = pool (map snd m) + {#NodeId d#}"
    unfolding add_partition_def Let_def
    by (rule upd) (auto simp: Cons.prems split: option.split)
  moreover have "distinct (map fst (add_partition d m))"
    using Cons.prems by (simp add: add_partition_def Let_def distinct_update)
  ultimately show ?case using Cons.IH [of "add_partition d m"] by simp
qed simp

lemma devicesMap_of:
  "distinct (map Dev_Id devs) \<Longrightarrow>
   map_of (fold (\<lambda>d. assoc_update (Dev_Id d) d) devs m) i =
     (case find (\<lambda>d. Dev_Id d = i) devs of Some d \<Rightarrow> Some d | None \<Rightarrow> map_of m i)"
proof (induction devs arbitrary: m)
  case (Cons d devs)
  have "find (\<lambda>x. Dev_Id x = Dev_Id d) devs = None"
    using Cons.prems by (force simp: find_None_iff image_iff)
  with Cons show ?case by (auto simp: map_of_assoc_update split: option.split)
qed simp

text \<open>A policy that \<open>Init\<close> has prepared for \<open>devs\<close>.\<close>

definition ready :: "BestEffortPolicy \<Rightarrow> Device list \<Rightarrow> bool" where
  "ready b devs \<longleftrightarrow> devs \<noteq> [] \<and> BE_devices b = devs \<and> distinct (map Dev_Id devs) \<and> weights_in (p2pWeights b)
     \<and> (\<forall>i. map_of (devicesMap b) i = find (\<lambda>d. Dev_Id d = i) devs)
     \<and> pool (map snd (devicePartitions b)) = mset (map NodeId devs)"

lemma Init_ready:
  assumes "Init fs glob b0 devs topo = (b, Inr ())" "b0 \<in> {NewBestEffortPolicy, NewSpreadPolicy}" "distinct (map Dev_Id devs)"
  shows "ready b devs \<and> spread b = spread b0"
proof -
  have e: "p2pWeights b0 = []" "devicesMap b0 = []"
    using assms(2) by (auto simp: NewBestEffortPolicy_def NewSpreadPolicy_def)
  then obtain w where w: "fetchAllPairWeights fs glob devs [] topo = Inr w"
    and b: "b = b0\<lparr>p2pWeights := w, BE_devices := devs, devicesMap := fold (\<lambda>d. assoc_update (Dev_Id d) d) devs [],
             devicePartitions := groupPartitionsByDevId devs\<rparr>"
    using assms(1) by (auto simp: Init_def split: sum.splits)
  have "weights_in []" by (simp add: weights_in_def get_weight_def)
  with w have "weights_in w" "devs \<noteq> []"
    using fetch_in by (blast, auto simp: fetchAllPairWeights_def)
  then show ?thesis
    using b assms(3) group_pool [of "[]" devs] devicesMap_of [OF assms(3), of "[]"]
    by (auto simp: ready_def groupPartitionsByDevId_def pool_def split: option.split)
qed

lemma devices_ids:
  assumes "ready b devs" "set ids \<subseteq> Dev_Id ` set devs"
  shows "map Dev_Id (getDevicesFromIds b ids) = ids" "set (getDevicesFromIds b ids) \<subseteq> set devs"
proof -
  have "map Dev_Id (getDevicesFromIds b ids) = ids \<and> set (getDevicesFromIds b ids) \<subseteq> set devs"
    using assms(2)
  proof (induction ids)
    case (Cons i ids)
    then obtain d where "find (\<lambda>d. Dev_Id d = i) devs = Some d"
      by (cases "find (\<lambda>d. Dev_Id d = i) devs") (auto simp: find_None_iff)
    then have "map_of (devicesMap b) i = Some d" "Dev_Id d = i" "d \<in> set devs"
      using assms(1) by (auto simp: ready_def find_Some_iff)
    with Cons show ?case by (simp add: getDevicesFromIds_def List.map_filter_simps)
  qed (simp add: getDevicesFromIds_def List.map_filter_simps)
  then show "map Dev_Id (getDevicesFromIds b ids) = ids" "set (getDevicesFromIds b ids) \<subseteq> set devs" by auto
qed

section \<open>From a candidate back to devices\<close>

lemma pick_devices_spec:
  assumes "\<And>n. need n = int (count c n)"
    and "c \<subseteq># mset (map NodeId (filter (\<lambda>d. Dev_Id d \<notin> set requiredIds) available))"
  shows "\<exists>ds. pick_devices need requiredIds available = map Dev_Id ds \<and> mset ds \<subseteq># mset available
    \<and> (\<forall>d \<in> set ds. Dev_Id d \<notin> set requiredIds) \<and> mset (map NodeId ds) = c"
  using assms
proof (induction need requiredIds available arbitrary: c rule: pick_devices.induct)
  case (1 need requiredIds)
  then show ?case by simp
next
  case (2 need requiredIds d available)
  let ?rest = "mset (map NodeId (filter (\<lambda>d. Dev_Id d \<notin> set requiredIds) available))"
  show ?case
  proof (cases "need (NodeId d) > 0 \<and> Dev_Id d \<notin> set requiredIds")
    case True
    then have n: "NodeId d \<in># c" using "2.prems"(1) by (simp flip: count_greater_zero_iff)
    let ?c = "c - {#NodeId d#}"
    have "?c \<subseteq># ?rest" using "2.prems"(2) True by (simp add: subset_eq_diff_conv add.commute)
    moreover have "(need(NodeId d := need (NodeId d) - 1)) n = int (count ?c n)" for n
      using "2.prems"(1) True by (auto simp: of_nat_diff)
    ultimately obtain ds where "pick_devices (need(NodeId d := need (NodeId d) - 1)) requiredIds available = map Dev_Id ds"
      "mset ds \<subseteq># mset available" "\<forall>d \<in> set ds. Dev_Id d \<notin> set requiredIds" "mset (map NodeId ds) = ?c"
      using "2.IH"(1) [OF True] by blast
    with True n show ?thesis by (intro exI [of _ "d # ds"]) simp
  next
    case False
    have "c \<subseteq># ?rest"
    proof (cases "Dev_Id d \<in> set requiredIds")
      case True
      with "2.prems"(2) show ?thesis by simp
    next
      case req: False
      with False have "count c (NodeId d) = 0" using "2.prems"(1) [of "NodeId d"] by (simp add: not_in_iff)
      show ?thesis
        unfolding subseteq_mset_def
      proof
        fix n
        have "count c n \<le> count (add_mset (NodeId d) ?rest) n"
          using "2.prems"(2) req by (intro mset_subset_eq_count) simp
        then show "count c n \<le> count ?rest n"
          using \<open>count c (NodeId d) = 0\<close> by (cases "n = NodeId d") simp_all
      qed
    qed
    from "2.IH"(2) [OF False "2.prems"(1) this] obtain ds where
      "pick_devices need requiredIds available = map Dev_Id ds" "mset ds \<subseteq># mset available"
      "\<forall>d \<in> set ds. Dev_Id d \<notin> set requiredIds" "mset (map NodeId ds) = c" by blast
    with False show ?thesis by (intro exI [of _ ds]) (auto intro: subset_mset.order_trans)
  qed
qed

lemma fill_up_spec:
  assumes "distinct out" "distinct ids" "set out \<inter> (set ids - set req) = {}" "length out \<le> n"
    and "n \<le> length out + length (filter (\<lambda>i. i \<notin> set req) ids)"
  shows "distinct (fill_up n req ids out) \<and> length (fill_up n req ids out) = n
    \<and> set out \<subseteq> set (fill_up n req ids out) \<and> set (fill_up n req ids out) \<subseteq> set out \<union> set ids"
  using assms
proof (induction n req ids out rule: fill_up.induct)
  case (2 n req i ids out)
  then show ?case by (cases "length out = n"; cases "i \<in> set req") auto
qed simp

section \<open>The best candidate\<close>

definition better :: "bool \<Rightarrow> int \<Rightarrow> int \<Rightarrow> bool" where
  "better spr x y \<longleftrightarrow> (if spr then x > y else x < y)"

lemma best_set_None:
  "best_set spr ss score None = None \<Longrightarrow> \<forall>s \<in> set ss. \<not> better spr (TotalWeight s) score"
proof -
  have keep: "best_set spr ss score (Some c) \<noteq> None" for ss score c
    by (induction ss arbitrary: score c) auto
  show "best_set spr ss score None = None \<Longrightarrow> \<forall>s \<in> set ss. \<not> better spr (TotalWeight s) score"
    by (induction ss) (auto simp: better_def keep split: if_splits)
qed

lemma best_set_Some:
  assumes "best_set spr ss score cand = Some c" "\<And>x. cand = Some x \<Longrightarrow> TotalWeight x = score"
  shows "(cand = Some c \<or> c \<in> set ss) \<and> (\<forall>s \<in> set ss. \<not> better spr (TotalWeight s) (TotalWeight c))
    \<and> (cand \<noteq> None \<longrightarrow> \<not> better spr score (TotalWeight c))"
  using assms
proof (induction ss arbitrary: score cand)
  case (Cons s ss)
  show ?case
  proof (cases "better spr (TotalWeight s) score")
    case True
    with Cons.prems(1) have "best_set spr ss (TotalWeight s) (Some s) = Some c"
      by (auto simp: better_def split: if_splits)
    from Cons.IH [OF this] True show ?thesis by (auto simp: better_def split: if_splits)
  next
    case False
    with Cons.prems(1) have b: "best_set spr ss score cand = Some c"
      by (auto simp: better_def split: if_splits)
    from Cons.IH [OF b Cons.prems(2)] have ih: "(cand = Some c \<or> c \<in> set ss)
      \<and> (\<forall>s \<in> set ss. \<not> better spr (TotalWeight s) (TotalWeight c)) \<and> (cand \<noteq> None \<longrightarrow> \<not> better spr score (TotalWeight c))" .
    have "\<not> better spr (TotalWeight s) (TotalWeight c)"
    proof (cases cand)
      case (Some x)
      with ih False show ?thesis by (auto simp: better_def split: if_splits)
    next
      case None
      have mono: "best_set spr ss score None = Some c \<Longrightarrow> better spr (TotalWeight c) score" for ss score
      proof (induction ss)
        case (Cons s ss)
        have "best_set spr ss sc (Some x) = Some c \<Longrightarrow> TotalWeight x = sc \<Longrightarrow> \<not> better spr sc (TotalWeight c)" for sc x
          by (induction ss arbitrary: sc x) (fastforce simp: better_def split: if_splits)+
        with Cons show ?case by (fastforce simp: better_def split: if_splits)
      qed simp
      from mono [of ss score] b None False show ?thesis by (auto simp: better_def split: if_splits)
    qed
    with ih show ?thesis by auto
  qed
qed (simp add: better_def)

section \<open>A run of the policy\<close>

lemma candidates_search:
  "0 < n \<Longrightarrow> n \<le> int (length available) \<Longrightarrow>
   getCandidateDeviceSubsets sortAvail sortParts parts available required n p2p =
     Inr (sortAvail available, search p2p (map NodeId required)
       (filterPartitions sortParts parts (sortAvail available) required) (n - int (length required)))"
  by (simp add: getCandidateDeviceSubsets_def search_def Let_def split: prod.split)

text \<open>What is requested of a prepared policy.\<close>

definition proper_request :: "Device list \<Rightarrow> string list \<Rightarrow> string list \<Rightarrow> int \<Rightarrow> bool" where
  "proper_request devs availableIds requiredIds n \<longleftrightarrow> distinct availableIds \<and> set availableIds \<subseteq> Dev_Id ` set devs
     \<and> distinct requiredIds \<and> set requiredIds \<subseteq> set availableIds
     \<and> 0 < n \<and> n \<le> int (length availableIds) \<and> int (length requiredIds) \<le> n"

text \<open>The available devices that are not required.\<close>

definition free_devices :: "BestEffortPolicy \<Rightarrow> string list \<Rightarrow> string list \<Rightarrow> Device list" where
  "free_devices b availableIds requiredIds =
     filter (\<lambda>d. Dev_Id d \<notin> set requiredIds) (getDevicesFromIds b availableIds)"

lemma distinct_sub: "distinct xs \<Longrightarrow> mset ys \<subseteq># mset xs \<Longrightarrow> distinct ys"
proof -
  assume d: "distinct xs" and s: "mset ys \<subseteq># mset xs"
  have "count (mset ys) a = (if a \<in> set ys then 1 else 0)" for a
  proof (cases "a \<in> set ys")
    case True
    then have "0 < count (mset ys) a" by (simp add: count_greater_zero_iff)
    moreover have "a \<in> set xs" using True mset_subset_eqD [OF s, of a] by simp
    then have "count (mset ys) a \<le> 1"
      using mset_subset_eq_count [OF s, of a] d by (simp add: distinct_count_atmost_1 split: if_splits)
    ultimately have "count (mset ys) a = 1" by linarith
    then show ?thesis using True by simp
  qed (simp add: count_eq_zero_iff)
  then show "distinct ys" by (simp add: distinct_count_atmost_1)
qed

lemma required_free:
  assumes "ready b devs" "proper_request devs availableIds requiredIds n"
  defines "av \<equiv> getDevicesFromIds b availableIds" and "rq \<equiv> getDevicesFromIds b requiredIds"
  shows "mset av = mset rq + mset (free_devices b availableIds requiredIds)" "mset av \<subseteq># mset devs"
    "map Dev_Id av = availableIds" "map Dev_Id rq = requiredIds"
proof -
  have req: "set requiredIds \<subseteq> Dev_Id ` set devs" using assms(2) by (auto simp: proper_request_def)
  have d: "distinct (map Dev_Id devs)" using assms(1) by (simp add: ready_def)
  note a = devices_ids [OF assms(1), of availableIds] and r = devices_ids [OF assms(1) req]
  show ids: "map Dev_Id av = availableIds" "map Dev_Id rq = requiredIds"
    using a r assms(2) by (auto simp: av_def rq_def proper_request_def)
  have sub: "set av \<subseteq> set devs" "set rq \<subseteq> set devs"
    using a r assms(2) by (auto simp: av_def rq_def proper_request_def)
  have dist: "distinct av" "distinct rq"
    using ids assms(2) by (auto simp: proper_request_def dest: distinct_map [THEN iffD1])
  have same: "x = y" if "x \<in> set devs" "y \<in> set devs" "Dev_Id x = Dev_Id y" for x y
    using d that by (auto simp: distinct_map inj_on_def)
  show "mset av \<subseteq># mset devs"
    using subset_imp_msubset_mset_set [OF sub(1)] dist(1) d by (simp add: mset_set_set distinct_map)
  have "set (filter (\<lambda>d. Dev_Id d \<in> set requiredIds) av) = set rq"
  proof (intro equalityI subsetI)
    fix x assume "x \<in> set (filter (\<lambda>d. Dev_Id d \<in> set requiredIds) av)"
    then have x: "x \<in> set devs" "Dev_Id x \<in> Dev_Id ` set rq" using sub(1) ids(2) by (auto simp flip: set_map)
    then obtain y where "y \<in> set rq" "Dev_Id y = Dev_Id x" by auto
    with same [of x y] x sub(2) show "x \<in> set rq" by auto
  next
    fix x assume x: "x \<in> set rq"
    then have i: "Dev_Id x \<in> set requiredIds" using ids(2) by (metis image_eqI set_map)
    then have "Dev_Id x \<in> Dev_Id ` set av" using assms(2) ids(1) by (auto simp: proper_request_def simp flip: set_map)
    then obtain y where "y \<in> set av" "Dev_Id y = Dev_Id x" by auto
    with same [of x y] x sub i show "x \<in> set (filter (\<lambda>d. Dev_Id d \<in> set requiredIds) av)" by auto
  qed
  then have "mset (filter (\<lambda>d. Dev_Id d \<in> set requiredIds) av) = mset rq"
    using dist by (simp add: set_eq_iff_mset_eq_distinct del: set_filter mset_filter)
  moreover have "mset av = mset (filter (\<lambda>d. Dev_Id d \<in> set requiredIds) av) + mset (filter (\<lambda>d. Dev_Id d \<notin> set requiredIds) av)"
    by (simp flip: multiset_partition)
  ultimately show "mset av = mset rq + mset (free_devices b availableIds requiredIds)"
    by (simp only: free_devices_def av_def)
qed

lemma policy_pool:
  assumes "ready b devs" "proper_request devs availableIds requiredIds n" "reorders sortAvail" "reorders sortParts"
  shows "pool (filterPartitions sortParts (devicePartitions b) (sortAvail (getDevicesFromIds b availableIds)) (getDevicesFromIds b requiredIds))
    = mset (map NodeId (free_devices b availableIds requiredIds))"
proof (rule multiset_eqI)
  fix k
  let ?av = "getDevicesFromIds b availableIds" and ?rq = "getDevicesFromIds b requiredIds"
  let ?free = "free_devices b availableIds requiredIds"
  let ?kept = "keep_partitions (remaining_ids (sortAvail ?av) ?rq) (map snd (devicePartitions b))"
  note f = required_free [OF assms(1,2)]
  have "mset (map NodeId (sortAvail ?av)) = mset (map NodeId ?rq) + mset (map NodeId ?free)"
    using f(1) assms(3) by (simp add: reorders_def)
  then have r: "remaining_ids (sortAvail ?av) ?rq k = int (count (mset (map NodeId ?free)) k)"
    by (simp add: remaining_ids_eq)
  have "mset ?free \<subseteq># mset devs"
    using f(1,2) by (metis mset_subset_eq_add_right subset_mset.order_trans)
  then have "mset (map NodeId ?free) \<subseteq># mset (map NodeId devs)"
    unfolding mset_map by (rule image_mset_subseteq_mono)
  then have le: "count (mset (map NodeId ?free)) k \<le> count (mset (map NodeId devs)) k"
    by (rule mset_subset_eq_count)
  have "pool (sortParts ?kept) = pool ?kept"
    using assms(4) by (intro pool_perm) (simp add: reorders_def)
  moreover have "int (count (pool ?kept) k) = int (count (mset (map NodeId ?free)) k)"
    using keep_partitions_count [of "remaining_ids (sortAvail ?av) ?rq" "map snd (devicePartitions b)" k]
      r le assms(1) by (simp add: ready_def)
  ultimately show "count (pool (filterPartitions sortParts (devicePartitions b) (sortAvail ?av) ?rq)) k
      = count (mset (map NodeId ?free)) k"
    by (simp add: filterPartitions_def)
qed

lemma policy_parts_nonempty:
  "reorders sortParts \<Longrightarrow> \<forall>q \<in> set (filterPartitions sortParts parts av rq). DP_Ids q \<noteq> []"
  using keep_partitions_nonempty by (metis filterPartitions_def mset_eq_setD reorders_def)

definition candidates ::
  "(Device list \<Rightarrow> Device list) \<Rightarrow> (DevicePartitions list \<Rightarrow> DevicePartitions list) \<Rightarrow> BestEffortPolicy
     \<Rightarrow> string list \<Rightarrow> string list \<Rightarrow> int \<Rightarrow> DeviceSet list" where
  "candidates sortAvail sortParts b availableIds requiredIds n =
     search (p2pWeights b) (map NodeId (getDevicesFromIds b requiredIds))
       (filterPartitions sortParts (devicePartitions b) (sortAvail (getDevicesFromIds b availableIds)) (getDevicesFromIds b requiredIds))
       (n - int (length requiredIds))"

lemma policy_candidates:
  assumes "ready b devs" "proper_request devs availableIds requiredIds n" "reorders sortAvail" "reorders sortParts"
    and "int (length requiredIds) < n" "n \<le> 6000"
  shows "candidates sortAvail sortParts b availableIds requiredIds n \<noteq> []"
    and "s \<in> set (candidates sortAvail sortParts b availableIds requiredIds n) \<Longrightarrow>
      candidate_ok (p2pWeights b) (map NodeId (getDevicesFromIds b requiredIds))
       (filterPartitions sortParts (devicePartitions b) (sortAvail (getDevicesFromIds b availableIds)) (getDevicesFromIds b requiredIds))
       (n - int (length requiredIds)) s \<and> MinInt32 < TotalWeight s \<and> TotalWeight s < MaxInt32"
proof -
  let ?av = "getDevicesFromIds b availableIds" and ?rq = "getDevicesFromIds b requiredIds"
  let ?parts = "filterPartitions sortParts (devicePartitions b) (sortAvail ?av) ?rq"
  note f = required_free [OF assms(1,2)]
  have len: "length ?av = length availableIds" "length ?rq = length requiredIds"
    using f(3,4) by (metis length_map)+
  have "size (mset ?av) = size (mset ?rq) + length (free_devices b availableIds requiredIds)"
    using f(1) by (metis size_mset size_union)
  then have "n - int (length requiredIds) \<le> int (size (pool ?parts))"
    using policy_pool [OF assms(1-4)] len assms(2) by (simp add: proper_request_def)
  then show "candidates sortAvail sortParts b availableIds requiredIds n \<noteq> []"
    unfolding candidates_def using assms(5) policy_parts_nonempty [OF assms(4)] by (intro candidates_exist) auto
  assume "s \<in> set (candidates sortAvail sortParts b availableIds requiredIds n)"
  then have ok: "candidate_ok (p2pWeights b) (map NodeId ?rq) ?parts (n - int (length requiredIds)) s"
    unfolding candidates_def using assms(5) policy_parts_nonempty [OF assms(4)] by (intro candidates_ok) auto
  then obtain chosen where c: "mset (Ids s) = chosen + mset (map NodeId ?rq)" "int (size chosen) = n - int (length requiredIds)"
    "TotalWeight s = total (p2pWeights b) (Ids s)" by (auto simp: candidate_ok_def)
  have "int (size (mset (Ids s))) = int (size chosen) + int (length ?rq)" unfolding c(1) by simp
  then have "int (length (Ids s)) = n" using c(2) len by simp
  moreover have "n * n \<le> 6000 * 6000" using assms(5,6) by (intro mult_mono) auto
  ultimately have "0 \<le> TotalWeight s \<and> 2 * TotalWeight s \<le> 90 * (6000 * 6000)"
    using total_bounds [of "p2pWeights b" "Ids s"] assms(1) c(3) by (auto simp: ready_def)
  with ok show "candidate_ok (p2pWeights b) (map NodeId ?rq) ?parts (n - int (length requiredIds)) s
      \<and> MinInt32 < TotalWeight s \<and> TotalWeight s < MaxInt32"
    by (simp add: MinInt32_def MaxInt32_def)
qed

text \<open>The general case: neither all available nor only the required ids.\<close>

lemma policy_run:
  assumes "ready b devs" "proper_request devs availableIds requiredIds n" "reorders sortAvail" "reorders sortParts"
    and "int (length requiredIds) < n" "n < int (length availableIds)" "n \<le> 6000" "p2pWeights b \<noteq> []"
  shows "\<exists>ds cand. AllocatePreferred sortAvail sortParts b availableIds requiredIds n = Inr (requiredIds @ map Dev_Id ds)
    \<and> cand \<in> set (candidates sortAvail sortParts b availableIds requiredIds n)
    \<and> (\<forall>s \<in> set (candidates sortAvail sortParts b availableIds requiredIds n).
         \<not> better (spread b) (TotalWeight s) (TotalWeight cand))
    \<and> TotalWeight cand = total (p2pWeights b) (map NodeId (getDevicesFromIds b requiredIds @ ds))
    \<and> int (length ds) = n - int (length requiredIds) \<and> distinct (requiredIds @ map Dev_Id ds)
    \<and> set (map Dev_Id ds) \<subseteq> set availableIds \<and> set ds \<subseteq> set devs"
proof -
  let ?av = "getDevicesFromIds b availableIds" and ?rq = "getDevicesFromIds b requiredIds"
  let ?parts = "filterPartitions sortParts (devicePartitions b) (sortAvail ?av) ?rq"
  let ?cands = "candidates sortAvail sortParts b availableIds requiredIds n"
  let ?init = "if spread b then MinInt32 else MaxInt32"
  note f = required_free [OF assms(1,2)]
  note cs = policy_candidates [OF assms(1-5,7)]
  have len: "length ?av = length availableIds" "length ?rq = length requiredIds" using f(3,4) by (metis length_map)+
  obtain cand where best: "best_set (spread b) ?cands ?init None = Some cand"
  proof (cases "best_set (spread b) ?cands ?init None")
    case None
    obtain s where s: "s \<in> set ?cands" using cs(1) by (meson list.set_sel(1))
    with best_set_None [OF None] cs(2) [OF s] show ?thesis by (auto simp: better_def split: if_splits)
  qed
  from best_set_Some [OF best] have cand: "cand \<in> set ?cands"
    "\<forall>s \<in> set ?cands. \<not> better (spread b) (TotalWeight s) (TotalWeight cand)" by auto
  obtain chosen where ch: "mset (Ids cand) = chosen + mset (map NodeId ?rq)" "int (size chosen) = n - int (length requiredIds)"
    "chosen \<subseteq># pool ?parts" "TotalWeight cand = total (p2pWeights b) (Ids cand)"
    using cs(2) [OF cand(1)] by (auto simp: candidate_ok_def)
  have "mset (map NodeId (filter (\<lambda>d. Dev_Id d \<notin> set requiredIds) (sortAvail ?av)))
      = mset (map NodeId (free_devices b availableIds requiredIds))"
    using assms(3) by (simp add: free_devices_def reorders_def)
  then have "chosen \<subseteq># mset (map NodeId (filter (\<lambda>d. Dev_Id d \<notin> set requiredIds) (sortAvail ?av)))"
    using ch(3) policy_pool [OF assms(1-4)] by simp
  moreover have "node_need cand ?rq k = int (count chosen k)" for k
    by (simp add: node_need_eq ch(1))
  ultimately obtain ds where ds: "pick_devices (node_need cand ?rq) requiredIds (sortAvail ?av) = map Dev_Id ds"
    "mset ds \<subseteq># mset (sortAvail ?av)" "\<forall>d \<in> set ds. Dev_Id d \<notin> set requiredIds" "mset (map NodeId ds) = chosen"
    using pick_devices_spec by blast
  have sub: "mset ds \<subseteq># mset ?av" using ds(2) assms(3) by (simp add: reorders_def)
  have "set requiredIds \<subseteq> set availableIds" "distinct requiredIds" "distinct availableIds"
    using assms(2) by (auto simp: proper_request_def)
  then have contains: "setContainsAll availableIds requiredIds"
    by (auto simp: list_all_iff list_ex_iff) (metis card_mono distinct_card finite_set leD)
  have run: "AllocatePreferred sortAvail sortParts b availableIds requiredIds n = Inr (requiredIds @ map Dev_Id ds)"
    using assms(1,2,5,6,8) contains best ds(1) len
    by (simp add: AllocatePreferred_def ready_def proper_request_def candidates_search candidates_def Let_def
        del: setContainsAll.simps)
  have dist: "distinct (map Dev_Id ds)"
  proof -
    have "mset (map Dev_Id ds) \<subseteq># mset availableIds" using sub f(3) by (metis image_mset_subseteq_mono mset_map)
    then show ?thesis using \<open>distinct availableIds\<close> distinct_sub by blast
  qed
  have "size (mset (map NodeId ds)) = size chosen" using ds(4) by simp
  then have l: "int (length ds) = n - int (length requiredIds)" using ch(2) by simp
  have "mset (Ids cand) = mset (map NodeId (?rq @ ds))" using ch(1) ds(4) by simp
  then have w: "TotalWeight cand = total (p2pWeights b) (map NodeId (?rq @ ds))" using ch(4) total_perm by metis
  have "set ds \<subseteq> set ?av" using sub by (metis mset_subset_eqD set_mset_mset subsetI)
  moreover have "set (map Dev_Id ?av) = set availableIds" using f(3) by simp
  moreover have "set ?av \<subseteq> set devs" using f(2) by (metis set_mset_mono set_mset_mset)
  ultimately have "set (map Dev_Id ds) \<subseteq> set availableIds" "set ds \<subseteq> set devs" by auto
  then show ?thesis
    using run cand w l dist ds(3) \<open>distinct requiredIds\<close> by (intro exI [of _ ds] exI [of _ cand]) auto
qed

section \<open>Properties\<close>

lemma policy_serves:
  assumes b: "ready b devs" and "reorders sortAvail" and "reorders sortParts"
    and "proper_request devs availableIds requiredIds n" and "n \<le> 6000"
  shows "\<exists>out. AllocatePreferred sortAvail sortParts b availableIds requiredIds n = Inr out
    \<and> distinct out \<and> int (length out) = n \<and> set requiredIds \<subseteq> set out \<and> set out \<subseteq> set availableIds"
proof -
  have r: "distinct availableIds" "distinct requiredIds" "set requiredIds \<subseteq> set availableIds"
    "0 < n" "n \<le> int (length availableIds)" "int (length requiredIds) \<le> n"
    using assms(4) by (auto simp: proper_request_def)
  have card: "length requiredIds \<le> length availableIds" using r by (metis card_mono distinct_card finite_set)
  have all: "set requiredIds = set availableIds" if "length requiredIds = length availableIds"
    using r that by (metis card_subset_eq distinct_card finite_set)
  consider "int (length availableIds) = n" | "int (length requiredIds) = n"
    | "int (length requiredIds) < n" "n < int (length availableIds)" "p2pWeights b = []"
    | "int (length requiredIds) < n" "n < int (length availableIds)" "p2pWeights b \<noteq> []"
    using r by linarith
  then show ?thesis
  proof cases
    case 1
    then have "AllocatePreferred sortAvail sortParts b availableIds requiredIds n = Inr availableIds"
      using b r card by (auto simp: AllocatePreferred_def ready_def)
    then show ?thesis using r 1 by auto
  next
    case 2
    then have "AllocatePreferred sortAvail sortParts b availableIds requiredIds n =
        Inr (if length availableIds = length requiredIds then availableIds else requiredIds)"
      using b r card by (auto simp: AllocatePreferred_def ready_def)
    then show ?thesis using r 2 all by auto
  next
    case 3
    have "distinct (filter (\<lambda>i. i \<notin> set requiredIds) availableIds)" using r by simp
    then have "length (filter (\<lambda>i. i \<notin> set requiredIds) availableIds) = card (set availableIds - set requiredIds)"
      by (metis distinct_card set_diff_eq set_filter)
    also have "\<dots> = length availableIds - length requiredIds"
      using r by (simp add: card_Diff_subset distinct_card)
    finally have "distinct (fill_up (nat n) requiredIds availableIds requiredIds)
        \<and> length (fill_up (nat n) requiredIds availableIds requiredIds) = nat n
        \<and> set requiredIds \<subseteq> set (fill_up (nat n) requiredIds availableIds requiredIds)
        \<and> set (fill_up (nat n) requiredIds availableIds requiredIds) \<subseteq> set requiredIds \<union> set availableIds"
      using r 3 card by (intro fill_up_spec) auto
    moreover have "setContainsAll availableIds requiredIds"
      using r(3) card by (auto simp: list_all_iff list_ex_iff)
    ultimately show ?thesis
      using 3 b r by (auto simp: AllocatePreferred_def ready_def)
  next
    case 4
    from policy_run [OF b assms(4,2,3) 4(1,2) assms(5) 4(3)] obtain ds :: "Device list" where
      ds: "AllocatePreferred sortAvail sortParts b availableIds requiredIds n = Inr (requiredIds @ map Dev_Id ds)"
      "int (length ds) = n - int (length requiredIds)" "distinct (requiredIds @ map Dev_Id ds)"
      "set (map Dev_Id ds) \<subseteq> set availableIds" by blast
    then show ?thesis using r(3) by (intro exI [of _ "requiredIds @ map Dev_Id ds"]) auto
  qed
qed

text \<open>C15: a preferred allocation is always found. After \<open>Init\<close> on devices with distinct ids, every
  proper request of kubelet (available devices the plugin knows, must-include ids among them, a size
  between the two and at most 6000) is answered, by the best-effort and by the spread policy, whatever
  order \<open>sort.Slice\<close> leaves equals in, with exactly the requested number of distinct available ids that
  include the required ones.\<close>

theorem preferred_served:
  assumes "Init fs glob b0 devs topo = (b, Inr ())" and "b0 \<in> {NewBestEffortPolicy, NewSpreadPolicy}"
    and "distinct (map Dev_Id devs)" and "reorders sortAvail" and "reorders sortParts"
    and "proper_request devs availableIds requiredIds n" and "n \<le> 6000"
  shows "\<exists>out. AllocatePreferred sortAvail sortParts b availableIds requiredIds n = Inr out
    \<and> distinct out \<and> int (length out) = n \<and> set requiredIds \<subseteq> set out \<and> set out \<subseteq> set availableIds"
  by (rule policy_serves [OF conjunct1 assms(4-7)]) (use Init_ready [OF assms(1,2,3)] in blast)

definition sample_device :: "string \<Rightarrow> int \<Rightarrow> int \<Rightarrow> Device" where
  "sample_device ident node numa = \<lparr>Dev_Id = ident, NodeId = node, NumaNode = numa, DevId = ident, Card = 0,
     RenderD = 128, ComputePartitionType = [], MemoryPartitionType = []\<rparr>"

definition sample_devices :: "Device list" where
  "sample_devices = [sample_device ''A'' 1 0, sample_device ''B'' 2 1, sample_device ''C'' 3 0]"

definition sample_policy :: BestEffortPolicy where
  "sample_policy = fst (Init (\<lambda>_. None) (\<lambda>_. []) NewBestEffortPolicy sample_devices [])"

lemma sample_Init: "Init (\<lambda>_. None) (\<lambda>_. []) NewBestEffortPolicy sample_devices [] = (sample_policy, Inr ())"
  by (simp add: sample_policy_def Init_def fetchAllPairWeights_def sample_devices_def)

lemma sample_weights: "p2pWeights sample_policy = [(1, [(2, 90), (3, 80)]), (2, [(3, 90)])]"
  by (simp add: sample_policy_def Init_def fetchAllPairWeights_def sample_devices_def sample_device_def
      host_weight_def Let_def has_weight_def set_weight_def calculatePairWeight_def NewBestEffortPolicy_def)

lemma sample_ids: "distinct (map Dev_Id sample_devices)" "Dev_Id ` set sample_devices = {''A'', ''B'', ''C''}"
  by (simp_all add: sample_devices_def sample_device_def)

lemma reorders_sort: "reorders (sort_key f)"
  by (simp add: reorders_def)

theorem preferred_served_witness:
  "\<exists>out. AllocatePreferred (sort_key NodeId) (sort_key (\<lambda>q. length (DP_Ids q))) sample_policy [''A'', ''B'', ''C''] [''C''] 2 = Inr out
    \<and> length out = 2 \<and> ''C'' \<in> set out"
proof -
  have "proper_request sample_devices [''A'', ''B'', ''C''] [''C''] 2"
    by (simp add: proper_request_def sample_ids)
  from preferred_served [OF sample_Init _ sample_ids(1) reorders_sort [of NodeId]
      reorders_sort [of "\<lambda>q. length (DP_Ids q)"] this] show ?thesis by force
qed

text \<open>C16: the preferred allocation is the best candidate. When there is a choice, the total pair weight
  of the devices returned, required ones included, is that of one of the candidate sets and no candidate
  has a smaller one (a larger one under the spread policy).\<close>

theorem preferred_is_best:
  assumes "Init fs glob b0 devs topo = (b, Inr ())" and "b0 \<in> {NewBestEffortPolicy, NewSpreadPolicy}"
    and "distinct (map Dev_Id devs)" and "reorders sortAvail" and "reorders sortParts"
    and "proper_request devs availableIds requiredIds n" and "n \<le> 6000"
    and "int (length requiredIds) < n" and "n < int (length availableIds)" and "p2pWeights b \<noteq> []"
    and "AllocatePreferred sortAvail sortParts b availableIds requiredIds n = Inr out"
  shows "\<exists>ds :: Device list. map Dev_Id ds = out \<and> set ds \<subseteq> set devs
    \<and> total (p2pWeights b) (map NodeId ds) \<in> TotalWeight ` set (candidates sortAvail sortParts b availableIds requiredIds n)
    \<and> (\<forall>s \<in> set (candidates sortAvail sortParts b availableIds requiredIds n).
         if spread b0 then TotalWeight s \<le> total (p2pWeights b) (map NodeId ds)
         else total (p2pWeights b) (map NodeId ds) \<le> TotalWeight s)"
proof -
  have b: "ready b devs" "spread b = spread b0" using Init_ready [OF assms(1,2,3)] by blast+
  from policy_run [OF b(1) assms(6,4,5,8,9,7,10)] obtain ds :: "Device list" and cand where
    ds: "AllocatePreferred sortAvail sortParts b availableIds requiredIds n = Inr (requiredIds @ map Dev_Id ds)"
    "cand \<in> set (candidates sortAvail sortParts b availableIds requiredIds n)"
    "\<forall>s \<in> set (candidates sortAvail sortParts b availableIds requiredIds n).
       \<not> better (spread b) (TotalWeight s) (TotalWeight cand)"
    "TotalWeight cand = total (p2pWeights b) (map NodeId (getDevicesFromIds b requiredIds @ ds))" "set ds \<subseteq> set devs"
    by blast
  have req: "set requiredIds \<subseteq> Dev_Id ` set devs" using assms(6) by (auto simp: proper_request_def)
  have out: "out = map Dev_Id (getDevicesFromIds b requiredIds @ ds)"
    using assms(11) ds(1) devices_ids(1) [OF b(1) req] by simp
  have "\<forall>s \<in> set (candidates sortAvail sortParts b availableIds requiredIds n).
      if spread b0 then TotalWeight s \<le> TotalWeight cand else TotalWeight cand \<le> TotalWeight s"
    using ds(3) by (auto simp: better_def b(2))
  moreover have "TotalWeight cand \<in> TotalWeight ` set (candidates sortAvail sortParts b availableIds requiredIds n)"
    using ds(2) by simp
  moreover have "set (getDevicesFromIds b requiredIds @ ds) \<subseteq> set devs"
    using devices_ids(2) [OF b(1) req] ds(5) by simp
  ultimately show ?thesis
    using out unfolding ds(4) by (intro exI [of _ "getDevicesFromIds b requiredIds @ ds"]) simp
qed

lemma sample_policy_fields:
  "devicesMap sample_policy = [(''A'', sample_device ''A'' 1 0), (''B'', sample_device ''B'' 2 1), (''C'', sample_device ''C'' 3 0)]"
  "BE_devices sample_policy \<noteq> []" "spread sample_policy = False"
  "\<exists>q1 q2 q3. map snd (devicePartitions sample_policy) = [q1, q2, q3] \<and> DP_Ids q1 = [1] \<and> DP_Ids q2 = [2] \<and> DP_Ids q3 = [3]"
  by (simp_all add: sample_policy_def Init_def fetchAllPairWeights_def sample_devices_def sample_device_def
      NewBestEffortPolicy_def groupPartitionsByDevId_def add_partition_def Let_def)

lemmas policy_eval = AllocatePreferred_def sample_weights sample_policy_fields(1-3) getDevicesFromIds_def List.map_filter_simps
  getCandidateDeviceSubsets_def sample_device_def filterPartitions_def remaining_ids_def Let_def
  first_set_def NewDeviceSet_def upt_rec expand_def skip_part_def extend_set_def addDeviceToSubsetAndUpdateWeight_def
  get_weight_def open_parts_def with_required_def MaxInt32_def node_need_def

lemma sample_Allocate_close:
  "AllocatePreferred (sort_key NodeId) (sort_key (\<lambda>q. length (DP_Ids q))) sample_policy [''A'', ''B'', ''C''] [] 2 = Inr [''A'', ''C'']"
proof -
  obtain q1 q2 q3 where "map snd (devicePartitions sample_policy) = [q1, q2, q3]"
    "DP_Ids q1 = [1]" "DP_Ids q2 = [2]" "DP_Ids q3 = [3]"
    using sample_policy_fields(4) by (elim exE conjE) (rule that)
  then show ?thesis by (simp add: policy_eval)
qed


theorem preferred_is_best_witness:
  "\<exists>ds :: Device list. map Dev_Id ds = [''A'', ''C'']
    \<and> (\<forall>s \<in> set (candidates (sort_key NodeId) (sort_key (\<lambda>q. length (DP_Ids q))) sample_policy [''A'', ''B'', ''C''] [] 2).
         total (p2pWeights sample_policy) (map NodeId ds) \<le> TotalWeight s)"
proof -
  have req: "proper_request sample_devices [''A'', ''B'', ''C''] [] 2"
    by (simp add: proper_request_def sample_ids)
  have "\<exists>ds :: Device list. map Dev_Id ds = [''A'', ''C''] \<and> set ds \<subseteq> set sample_devices
    \<and> total (p2pWeights sample_policy) (map NodeId ds) \<in> TotalWeight ` set (candidates (sort_key NodeId) (sort_key (\<lambda>q. length (DP_Ids q))) sample_policy [''A'', ''B'', ''C''] [] 2)
    \<and> (\<forall>s \<in> set (candidates (sort_key NodeId) (sort_key (\<lambda>q. length (DP_Ids q))) sample_policy [''A'', ''B'', ''C''] [] 2).
         if spread NewBestEffortPolicy then TotalWeight s \<le> total (p2pWeights sample_policy) (map NodeId ds)
         else total (p2pWeights sample_policy) (map NodeId ds) \<le> TotalWeight s)"
    by (rule preferred_is_best [OF sample_Init _ sample_ids(1) reorders_sort reorders_sort req])
      (simp_all add: sample_weights sample_Allocate_close)
  moreover have "\<not> spread NewBestEffortPolicy" by (simp add: NewBestEffortPolicy_def)
  ultimately show ?thesis by (simp only: if_False) (elim exE conjE, rule exI, rule conjI; assumption)
qed

text \<open>A must-include id of another plugin: it is counted in the result but not in the size the candidates
  are built for, so three ids are returned for a request of two.\<close>

theorem foreign_must_include:
  "AllocatePreferred (sort_key NodeId) (sort_key (\<lambda>q. length (DP_Ids q))) sample_policy
     [''X'', ''A'', ''B'', ''C''] [''X''] 2 = Inr [''X'', ''A'', ''C'']"
proof -
  obtain q1 q2 q3 where "map snd (devicePartitions sample_policy) = [q1, q2, q3]"
    "DP_Ids q1 = [1]" "DP_Ids q2 = [2]" "DP_Ids q3 = [3]"
    using sample_policy_fields(4) by (elim exE conjE) (rule that)
  then show ?thesis by (simp add: policy_eval)
qed

end
