(* ===== verification/JsonValue.thy ===== *)
theory JsonValue
  imports Json DeviceIds
begin

text \<open>
  JSON values of any shape, as \<open>encoding/json\<close> writes and reads them, for the register annotation of a
  node: \<open>json.Marshal\<close> of a list of \<open>utils.DeviceInfo\<close> (\<open>internal/pkg/utils/types.go\<close>), and
  \<open>json.Unmarshal\<close> of a text into such a list. A number keeps its text; the reader checks a text for JSON
  syntax first and then for the types of the fields. The names of fields are compared without case, for
  ASCII letters. The nesting limit of the reader, 10000, and the range of numbers inside the free-form
  \<open>custominfo\<close> are not modelled.
\<close>

datatype json = JNull | JBool bool | JNum string | JStr string | JArr "json list" | JObj "(string \<times> json) list"

section \<open>Writing\<close>

fun json_text :: "json \<Rightarrow> string" where
  "json_text JNull = ''null''"
| "json_text (JBool b) = (if b then ''true'' else ''false'')"
| "json_text (JNum n) = n"
| "json_text (JStr s) = json_quote s"
| "json_text (JArr vs) = ''['' @ Join (map json_text vs) '','' @ '']''"
| "json_text (JObj ms) = ''{'' @ Join (map (\<lambda>(k, v). json_quote k @ '':'' @ json_text v) ms) '','' @ ''}''"

section \<open>Reading\<close>

definition json_int :: "string \<Rightarrow> (string \<times> string) option" where
  "json_int s =
     (case s of
        [] \<Rightarrow> None
      | c # t \<Rightarrow>
          if c = CHR ''0'' then Some ([c], t)
          else if is_digit c then Some (takeWhile is_digit s, dropWhile is_digit s)
          else None)"

definition json_digits :: "string \<Rightarrow> (string \<times> string) option" where
  "json_digits s = (if takeWhile is_digit s = [] then None else Some (takeWhile is_digit s, dropWhile is_digit s))"

definition json_frac :: "string \<Rightarrow> (string \<times> string) option" where
  "json_frac s =
     (case s of
        c # t \<Rightarrow> if c = CHR ''.'' then map_option (apfst ((#) c)) (json_digits t) else Some ([], s)
      | [] \<Rightarrow> Some ([], s))"

definition json_exp :: "string \<Rightarrow> (string \<times> string) option" where
  "json_exp s =
     (case s of
        c # t \<Rightarrow>
          if c = CHR ''e'' \<or> c = CHR ''E'' then
            (case t of
               d # u \<Rightarrow> if d = CHR ''+'' \<or> d = CHR ''-'' then map_option (apfst (\<lambda>x. c # d # x)) (json_digits u)
                        else map_option (apfst ((#) c)) (json_digits t)
             | [] \<Rightarrow> None)
          else Some ([], s)
      | [] \<Rightarrow> Some ([], s))"

definition json_number :: "string \<Rightarrow> (string \<times> string) option" where
  "json_number s =
     (let neg = (case s of c # t \<Rightarrow> c = CHR ''-'' | [] \<Rightarrow> False); t = (if neg then tl s else s) in
      case json_int t of
        None \<Rightarrow> None
      | Some (i, r) \<Rightarrow>
          (case json_frac r of
             None \<Rightarrow> None
           | Some (f, r') \<Rightarrow>
               (case json_exp r' of
                  None \<Rightarrow> None
                | Some (e, r'') \<Rightarrow> Some ((if neg then ''-'' else []) @ i @ f @ e, r''))))"

text \<open>A value at the start of a text without leading white space.\<close>

definition json_scalar :: "string \<Rightarrow> (json \<times> string) option" where
  "json_scalar s =
     (if HasPrefix s ''null'' then Some (JNull, drop 4 s)
      else if HasPrefix s ''true'' then Some (JBool True, drop 4 s)
      else if HasPrefix s ''false'' then Some (JBool False, drop 5 s)
      else case s of
             c # t \<Rightarrow> if c = CHR 0x22 then map_option (apfst JStr) (json_chars t)
                      else map_option (apfst JNum) (json_number s)
           | [] \<Rightarrow> None)"

text \<open>Values, elements after \<open>[\<close> and members after \<open>{\<close>; \<open>n\<close> bounds the number of calls, see \<open>json_parse\<close>.\<close>

fun parse_value :: "nat \<Rightarrow> string \<Rightarrow> (json \<times> string) option"
  and parse_elems :: "nat \<Rightarrow> string \<Rightarrow> json list \<Rightarrow> (json \<times> string) option"
  and parse_members :: "nat \<Rightarrow> string \<Rightarrow> (string \<times> json) list \<Rightarrow> (json \<times> string) option" where
  "parse_value 0 s = None"
| "parse_value (Suc n) s =
     (case skip_ws s of
        [] \<Rightarrow> None
      | c # t \<Rightarrow>
          if c = CHR ''['' then
            (case skip_ws t of
               d # u \<Rightarrow> if d = CHR '']'' then Some (JArr [], u) else parse_elems n t []
             | [] \<Rightarrow> None)
          else if c = CHR ''{'' then
            (case skip_ws t of
               d # u \<Rightarrow> if d = CHR ''}'' then Some (JObj [], u) else parse_members n t []
             | [] \<Rightarrow> None)
          else json_scalar (c # t))"
| "parse_elems 0 s acc = None"
| "parse_elems (Suc n) s acc =
     (case parse_value n s of
        None \<Rightarrow> None
      | Some (v, r) \<Rightarrow>
          (case skip_ws r of
             [] \<Rightarrow> None
           | d # u \<Rightarrow> if d = CHR '','' then parse_elems n u (acc @ [v])
                      else if d = CHR '']'' then Some (JArr (acc @ [v]), u) else None))"
| "parse_members 0 s acc = None"
| "parse_members (Suc n) s acc =
     (case skip_ws s of
        [] \<Rightarrow> None
      | c # t \<Rightarrow>
          if c \<noteq> CHR 0x22 then None
          else (case json_chars t of
                  None \<Rightarrow> None
                | Some (k, r) \<Rightarrow>
                    (case skip_ws r of
                       [] \<Rightarrow> None
                     | d # u \<Rightarrow>
                         if d \<noteq> CHR '':'' then None
                         else (case parse_value n u of
                                 None \<Rightarrow> None
                               | Some (v, r') \<Rightarrow>
                                   (case skip_ws r' of
                                      [] \<Rightarrow> None
                                    | e # w \<Rightarrow> if e = CHR '','' then parse_members n w (acc @ [(k, v)])
                                               else if e = CHR ''}'' then Some (JObj (acc @ [(k, v)]), w) else None)))))"

text \<open>Every call but the one from elements to a value has consumed a character of the text.\<close>

definition json_parse :: "string \<Rightarrow> json option" where
  "json_parse s =
     (case parse_value (2 * length s + 2) s of
        None \<Rightarrow> None | Some (v, r) \<Rightarrow> if skip_ws r = [] then Some v else None)"

section \<open>Lists of devices\<close>

definition str_field :: "string \<Rightarrow> string \<Rightarrow> (string \<times> json) list" where
  "str_field k s = (if s = [] then [] else [(k, JStr s)])"

definition num_field :: "string \<Rightarrow> int \<Rightarrow> (string \<times> json) list" where
  "num_field k n = (if n = 0 then [] else [(k, JNum (Itoa n))])"

fun profile_json :: "PartitionProfile \<Rightarrow> json" where
  "profile_json pr = JObj [(''ProfileIndex'', JNum (Itoa (ProfileIndex pr))), (''Type'', JStr (PP_Type pr)),
     (''MemoryCaps'', JStr (MemoryCaps pr)), (''NumPartitions'', JNum (Itoa (NumPartitions pr))),
     (''XCCPerPartition'', JNum (Itoa (XCCPerPartition pr)))]"

fun custom_json :: "custom_value \<Rightarrow> json" where
  "custom_json (CString s) = JStr s"
| "custom_json (CInt n) = JNum (Itoa n)"
| "custom_json (CStrings ss) = JArr (map JStr ss)"
| "custom_json (CProfiles ps) = JArr (map profile_json ps)"

definition device_json :: "DeviceInfo \<Rightarrow> json" where
  "device_json d = JObj (str_field ''id'' (DI_ID d) @ num_field ''index'' (DI_Index d) @ num_field ''count'' (DI_Count d)
     @ num_field ''devmem'' (DI_Devmem d) @ num_field ''devcore'' (DI_Devcore d) @ str_field ''type'' (DI_Type d)
     @ num_field ''numa'' (DI_Numa d) @ str_field ''mode'' (DI_Mode d)
     @ (if DI_Health d then [(''health'', JBool True)] else []) @ str_field ''devicevendor'' (DI_DeviceVendor d)
     @ (if DI_CustomInfo d = [] then []
        else [(''custominfo'', JObj (map (\<lambda>(k, v). (k, custom_json v)) (sort_key fst (DI_CustomInfo d))))]))"

definition marshalNodeDevices :: "DeviceInfo list \<Rightarrow> string" where
  "marshalNodeDevices devices = json_text (JArr (map device_json devices))"

text \<open>The fields of a device that is read which its readers use; \<open>None\<close> is a type error.\<close>

record read_device =
  RD_ID :: string
  RD_Index :: nat
  RD_Type :: string
  RD_Mode :: string
  RD_Custom :: "(string \<times> json) list"

definition zero_device :: read_device where
  "zero_device = \<lparr>RD_ID = [], RD_Index = 0, RD_Type = [], RD_Mode = [], RD_Custom = []\<rparr>"

definition decode_string :: "json \<Rightarrow> string \<Rightarrow> string option" where
  "decode_string v old = (case v of JStr s \<Rightarrow> Some s | JNull \<Rightarrow> Some old | _ \<Rightarrow> None)"

definition decode_number :: "(string \<Rightarrow> ('e, 'n) result) \<Rightarrow> json \<Rightarrow> 'n \<Rightarrow> 'n option" where
  "decode_number parse v old =
     (case v of JNum n \<Rightarrow> (case parse n of Inl _ \<Rightarrow> None | Inr i \<Rightarrow> Some i) | JNull \<Rightarrow> Some old | _ \<Rightarrow> None)"

definition decode_field :: "string \<Rightarrow> json \<Rightarrow> read_device \<Rightarrow> read_device option" where
  "decode_field key v d =
     (let k = ToLower key in
      if k = ''id'' then map_option (\<lambda>s. d\<lparr>RD_ID := s\<rparr>) (decode_string v (RD_ID d))
      else if k = ''index'' then map_option (\<lambda>i. d\<lparr>RD_Index := i\<rparr>) (decode_number ParseUint10 v (RD_Index d))
      else if k = ''type'' then map_option (\<lambda>s. d\<lparr>RD_Type := s\<rparr>) (decode_string v (RD_Type d))
      else if k = ''mode'' then map_option (\<lambda>s. d\<lparr>RD_Mode := s\<rparr>) (decode_string v (RD_Mode d))
      else if k = ''devicevendor'' then map_option (\<lambda>_. d) (decode_string v [])
      else if k = ''numa'' then map_option (\<lambda>_. d) (decode_number Atoi v 0)
      else if k = ''count'' \<or> k = ''devmem'' \<or> k = ''devcore'' then map_option (\<lambda>_. d) (decode_number (ParseInt10 32) v 0)
      else if k = ''health'' then (case v of JBool _ \<Rightarrow> Some d | JNull \<Rightarrow> Some d | _ \<Rightarrow> None)
      else if k = ''custominfo'' then
        (case v of
           JObj ms \<Rightarrow> Some (d\<lparr>RD_Custom := fold (\<lambda>(x, y). assoc_update x y) ms (RD_Custom d)\<rparr>)
         | JNull \<Rightarrow> Some (d\<lparr>RD_Custom := []\<rparr>)
         | _ \<Rightarrow> None)
      else Some d)"

fun decode_fields :: "(string \<times> json) list \<Rightarrow> read_device \<Rightarrow> read_device option" where
  "decode_fields [] d = Some d"
| "decode_fields ((k, v) # ms) d = Option.bind (decode_field k v d) (decode_fields ms)"

text \<open>Into a \<open>*DeviceInfo\<close>: \<open>null\<close> is a nil pointer, \<open>Some None\<close>.\<close>

definition decode_device :: "json \<Rightarrow> read_device option option" where
  "decode_device v =
     (case v of
        JNull \<Rightarrow> Some None
      | JObj ms \<Rightarrow> map_option Some (decode_fields ms zero_device)
      | _ \<Rightarrow> None)"

fun decode_all :: "json list \<Rightarrow> read_device option list option" where
  "decode_all [] = Some []"
| "decode_all (v # vs) = Option.bind (decode_device v) (\<lambda>d. map_option ((#) d) (decode_all vs))"

definition unmarshalDevices :: "string \<Rightarrow> read_device option list option" where
  "unmarshalDevices text1 =
     (case json_parse text1 of
        None \<Rightarrow> None
      | Some v \<Rightarrow> (case v of JNull \<Rightarrow> Some [] | JArr vs \<Rightarrow> decode_all vs | _ \<Rightarrow> None))"

section \<open>The number of calls\<close>

lemma json_chars_shorter: "json_chars t = Some (x, r) \<Longrightarrow> length r < length t"
proof (induction t arbitrary: x r rule: json_chars.induct)
  case (2 c t)
  then show ?case
    by (auto split: if_splits option.splits prod.splits)
      (metis less_Suc_eq_le less_trans_Suc le_less_trans less_SucI order_less_le_trans)
qed simp

lemma json_digits_le: "json_digits s = Some (x, r) \<Longrightarrow> length r \<le> length s"
  by (auto simp: json_digits_def length_dropWhile_le split: if_splits)

lemma json_int_shorter: "json_int s = Some (x, r) \<Longrightarrow> length r < length s"
  by (auto simp: json_int_def length_dropWhile_le le_imp_less_Suc split: list.splits if_splits)

lemma json_frac_le: "json_frac s = Some (x, r) \<Longrightarrow> length r \<le> length s"
  by (auto simp: json_frac_def split: list.splits if_splits dest!: json_digits_le)

lemma json_exp_le: "json_exp s = Some (x, r) \<Longrightarrow> length r \<le> length s"
  by (auto simp: json_exp_def split: list.splits if_splits dest!: json_digits_le)

lemma json_number_shorter:
  assumes "json_number s = Some (x, r)"
  shows "length r < length s"
proof -
  let ?t = "if (case s of c # t \<Rightarrow> c = CHR ''-'' | [] \<Rightarrow> False) then tl s else s"
  from assms obtain i r1 f r2 e where "json_int ?t = Some (i, r1)" "json_frac r1 = Some (f, r2)" "json_exp r2 = Some (e, r)"
    by (auto simp: json_number_def Let_def split: option.splits prod.splits)
  then have "length r < length ?t" by (meson json_int_shorter json_frac_le json_exp_le le_less_trans)
  moreover have "length ?t \<le> length s" by (auto split: list.splits)
  ultimately show ?thesis by linarith
qed

lemma json_scalar_shorter: "json_scalar s = Some (v, r) \<Longrightarrow> length r < length s"
  by (auto simp: json_scalar_def HasPrefix_iff split: if_splits list.splits
      dest!: json_chars_shorter json_number_shorter)

lemma skip_ws_le: "length (skip_ws s) \<le> length s"
  by (simp add: skip_ws_def length_dropWhile_le)

lemma skip_ws_tail: "skip_ws s = c # t \<Longrightarrow> length t < length s"
  using skip_ws_le [of s] by simp

lemma parse_shorter:
  "parse_value n s = Some (v, r) \<Longrightarrow> length r < length s"
  "parse_elems n s acc1 = Some (v, r) \<Longrightarrow> length r < length s"
  "parse_members n s acc2 = Some (v, r) \<Longrightarrow> length r < length s"
proof (induction n s and n s acc1 and n s acc2 arbitrary: v r and v r and v r
    rule: parse_value_parse_elems_parse_members.induct)
  case (2 n s)
  show ?case
  proof (cases "skip_ws s")
    case (Cons c t)
    note l = skip_ws_tail [OF Cons]
    show ?thesis
    proof (cases "skip_ws t")
      case Nil
      then show ?thesis using 2(3) l Cons by (auto split: if_splits dest!: json_scalar_shorter)
    next
      case (Cons d u)
      then show ?thesis using 2 l \<open>skip_ws s = c # t\<close> skip_ws_tail [OF Cons]
        by (auto split: if_splits dest!: json_scalar_shorter) (meson less_trans)+
    qed
  qed (use 2 in simp)
next
  case (4 n s acc)
  from 4(3) obtain v1 r1 d u where pv: "parse_value n s = Some (v1, r1)" "skip_ws r1 = d # u"
    by (auto split: option.splits prod.splits list.splits)
  have "length r1 < length s" by (rule 4(1) [OF pv(1)])
  then show ?case using 4 pv skip_ws_tail [OF pv(2)]
    by (auto split: if_splits) (meson less_trans)+
next
  case (6 n s acc)
  from 6(3) obtain t k r1 u v1 r2 e w where p: "skip_ws s = CHR 0x22 # t" "json_chars t = Some (k, r1)"
    "skip_ws r1 = CHR '':'' # u" "parse_value n u = Some (v1, r2)" "skip_ws r2 = e # w"
    by (auto split: option.splits prod.splits list.splits if_splits)
  have "length r2 < length u" using 6(1) p by simp
  then have "length w < length s"
    using skip_ws_tail [OF p(1)] json_chars_shorter [OF p(2)] skip_ws_tail [OF p(3)] skip_ws_tail [OF p(5)] by linarith
  then show ?case using 6 p by (auto split: if_splits) (meson less_trans)
qed simp_all

text \<open>More calls do not change the answer.\<close>

lemma parse_enough:
  "(2 * length s < n \<longrightarrow> 2 * length s < m \<longrightarrow> parse_value n s = parse_value m s)
   \<and> (2 * length s + 1 < n \<longrightarrow> 2 * length s + 1 < m \<longrightarrow> (\<forall>acc. parse_elems n s acc = parse_elems m s acc))
   \<and> (2 * length s < n \<longrightarrow> 2 * length s < m \<longrightarrow> (\<forall>acc. parse_members n s acc = parse_members m s acc))"
proof (induction "length s" arbitrary: s n m rule: less_induct)
  case less
  have val_eq: "parse_value n s = parse_value m s" if "2 * length s < n" "2 * length s < m" for n m
  proof -
    obtain n' m' where nm: "n = Suc n'" "m = Suc m'" using \<open>2 * length s < n\<close> \<open>2 * length s < m\<close> by (cases n; cases m) auto
    show ?thesis
    proof (cases "skip_ws s")
      case (Cons c t)
      have l: "length t < length s" by (rule skip_ws_tail [OF Cons])
      then have "parse_elems n' t acc = parse_elems m' t acc" "parse_members n' t acc' = parse_members m' t acc'" for acc acc'
        using less [OF l, of n' m'] that nm by auto
      then show ?thesis by (simp add: nm Cons split: list.split)
    qed (simp add: nm)
  qed
  have elems: "parse_elems n s acc = parse_elems m s acc" if b: "2 * length s + 1 < n" "2 * length s + 1 < m" for n m acc
  proof -
    obtain n' m' where nm: "n = Suc n'" "m = Suc m'" using b by (cases n; cases m) auto
    have v: "parse_value n' s = parse_value m' s" using b nm by (intro val_eq) auto
    have rest: "parse_elems n' u acc' = parse_elems m' u acc'"
      if "parse_value m' s = Some (w, r)" "skip_ws r = d # u" for w r d u acc'
    proof -
      have "length u < length r" "length r < length s" using that parse_shorter(1) skip_ws_tail by blast+
      then show ?thesis using less [of u n' m'] b nm by auto
    qed
    show ?thesis unfolding nm by (auto simp: v split: option.split prod.split list.split dest: rest)
  qed
  have members: "parse_members n s acc = parse_members m s acc" if b: "2 * length s < n" "2 * length s < m" for n m acc
  proof -
    obtain n' m' where nm: "n = Suc n'" "m = Suc m'" using b by (cases n; cases m) auto
    have v: "parse_value n' u = parse_value m' u"
      if "skip_ws s = c # t" "json_chars t = Some (k, r)" "skip_ws r = d # u" for c t k r d u
    proof -
      have "length u < length s"
        using skip_ws_tail [OF that(1)] json_chars_shorter [OF that(2)] skip_ws_tail [OF that(3)] by linarith
      then show ?thesis using less [of u n' m'] b nm by auto
    qed
    have rest: "parse_members n' w acc' = parse_members m' w acc'"
      if "skip_ws s = c # t" "json_chars t = Some (k, r)" "skip_ws r = d # u" "parse_value m' u = Some (x, r')"
        "skip_ws r' = e # w" for c t k r d u x r' e w acc'
    proof -
      have "length w < length s"
        using skip_ws_tail [OF that(1)] json_chars_shorter [OF that(2)] skip_ws_tail [OF that(3)]
          parse_shorter(1) [OF that(4)] skip_ws_tail [OF that(5)] by linarith
      then show ?thesis using less [of w n' m'] b nm by auto
    qed
    show ?thesis unfolding nm by (auto simp: v split: option.split prod.split list.split dest: rest)
  qed
  show ?case using val_eq elems members by blast
qed

section \<open>Reading back\<close>

definition num_text :: "string \<Rightarrow> bool" where
  "num_text n \<longleftrightarrow> (\<exists>i. n = Itoa i)"

text \<open>Values whose strings need no escape and whose numbers are decimal integers.\<close>

fun plain_json :: "json \<Rightarrow> bool" where
  "plain_json JNull = True"
| "plain_json (JBool b) = True"
| "plain_json (JNum n) = num_text n"
| "plain_json (JStr s) = json_plain s"
| "plain_json (JArr vs) = list_all plain_json vs"
| "plain_json (JObj ms) = list_all (\<lambda>(k, v). json_plain k \<and> plain_json v) ms"

definition ends :: "string \<Rightarrow> bool" where
  "ends r \<longleftrightarrow> (case r of [] \<Rightarrow> True | c # _ \<Rightarrow> c = CHR '','' \<or> c = CHR '']'' \<or> c = CHR ''}'')"

lemma ends_not_number: "ends r \<Longrightarrow> takeWhile is_digit r = [] \<and> dropWhile is_digit r = r \<and> json_frac r = Some ([], r) \<and> json_exp r = Some ([], r)"
  by (auto simp: ends_def json_frac_def json_exp_def is_digit_def split: list.splits)

lemma digits_of_zero_first: "hd (digits_of n) = CHR ''0'' \<Longrightarrow> n = 0"
proof (induction n rule: digits_of.induct)
  case (1 n)
  show ?case
  proof (cases "n < 10")
    case True
    then have "digit_val (digit_char n) = 0" using 1(2) by (simp add: digits_of.simps [of n] digit_val_def)
    with True show ?thesis by simp
  next
    case False
    then have "hd (digits_of n) = hd (digits_of (n div 10))" by (simp add: digits_of.simps [of n])
    then have "n div 10 = 0" using 1 False by simp
    with False show ?thesis by simp
  qed
qed

lemma json_int_digits:
  assumes "ends r"
  shows "json_int (digits_of n @ r) = Some (digits_of n, r)"
proof -
  obtain c t where ct: "digits_of n = c # t" using digits_of_not_Nil by (cases "digits_of n") auto
  have digits: "list_all is_digit (c # t)" using digits_of_digits [of n] ct by simp
  have "t = []" if "c = CHR ''0''"
  proof -
    have "n = 0" by (rule digits_of_zero_first) (simp add: ct that)
    then show ?thesis using ct by (simp add: digits_of.simps)
  qed
  moreover have "takeWhile is_digit (c # t @ r) = c # t" "dropWhile is_digit (c # t @ r) = r"
    using digits ends_not_number [OF assms] by (auto simp: list_all_iff takeWhile_append dropWhile_append)
  ultimately show ?thesis using digits by (auto simp: json_int_def ct)
qed

lemma digits_of_Cons: "\<exists>c t. digits_of n = c # t \<and> is_digit c \<and> c \<noteq> CHR ''-''"
  using digits_of_not_Nil [of n] digits_of_hd_digit [of n] by (cases "digits_of n") auto

lemma json_number_Itoa: "ends r \<Longrightarrow> json_number (Itoa i @ r) = Some (Itoa i, r)"
proof -
  assume r: "ends r"
  have plain: "json_number (digits_of n @ r) = Some (digits_of n, r)" for n
  proof -
    obtain c t where ct: "digits_of n = c # t" "c \<noteq> CHR ''-''" using digits_of_Cons by blast
    then show ?thesis using json_int_digits [OF r, of n] ends_not_number [OF r] by (simp add: json_number_def)
  qed
  moreover have "json_number (CHR ''-'' # digits_of n @ r) = Some (CHR ''-'' # digits_of n, r)" for n
    using json_int_digits [OF r, of n] ends_not_number [OF r] by (simp add: json_number_def)
  ultimately show ?thesis by (simp add: Itoa_def)
qed

lemma Itoa_first: "\<exists>c t. Itoa i = c # t \<and> (is_digit c \<or> c = CHR ''-'')"
  using digits_of_Cons [of "nat i"] by (auto simp: Itoa_def)

lemma json_text_first:
  assumes "plain_json v"
  shows "\<exists>c t. json_text v = c # t \<and> \<not> is_json_space c \<and> c \<noteq> CHR '']''"
proof (cases v)
  case (JNum n)
  then obtain i where "n = Itoa i" using assms by (auto simp: num_text_def)
  then show ?thesis using Itoa_first [of i] JNum by (auto simp: is_json_space_def is_digit_def)
qed (auto simp: is_json_space_def json_quote_def)

lemma skip_ws_first: "\<not> is_json_space c \<Longrightarrow> skip_ws (c # t) = c # t"
  by (simp add: skip_ws_def)

lemma skip_ws_ends: "ends r \<Longrightarrow> skip_ws r = r"
  by (auto simp: ends_def skip_ws_def is_json_space_def split: list.splits)

lemma parse_scalar_text:
  assumes "s = c # t" "\<not> is_json_space c" "c \<noteq> CHR ''[''" "c \<noteq> CHR ''{''" "0 < n"
  shows "parse_value n s = json_scalar s"
  using assms by (cases n) (simp_all add: skip_ws_first)

lemma json_scalar_Itoa: "ends r \<Longrightarrow> json_scalar (Itoa i @ r) = Some (JNum (Itoa i), r)"
proof -
  assume r: "ends r"
  obtain c t where ct: "Itoa i = c # t" "is_digit c \<or> c = CHR ''-''" using Itoa_first by blast
  have "c \<noteq> CHR ''n''" "c \<noteq> CHR ''t''" "c \<noteq> CHR ''f''" "c \<noteq> CHR 0x22" using ct(2) by (auto simp: is_digit_def)
  then have "json_scalar (c # t @ r) = map_option (apfst JNum) (json_number (c # t @ r))"
    by (simp add: json_scalar_def HasPrefix_def)
  then show ?thesis using json_number_Itoa [OF r, of i] ct(1) by simp
qed

definition reads :: "json \<Rightarrow> bool" where
  "reads v \<longleftrightarrow> (\<forall>n r. 2 * length (json_text v) < n \<longrightarrow> ends r \<longrightarrow> parse_value n (json_text v @ r) = Some (v, r))"

lemma readsD: "reads v \<Longrightarrow> 2 * length (json_text v) < n \<Longrightarrow> ends r \<Longrightarrow> parse_value n (json_text v @ r) = Some (v, r)"
  by (simp add: reads_def)

lemma ends_simps [simp]: "ends []" "ends (CHR '','' # r)" "ends (CHR '']'' # r)" "ends (CHR ''}'' # r)"
  by (simp_all add: ends_def)

lemma parse_elems_text:
  assumes "vs \<noteq> []" "\<forall>v \<in> set vs. reads v" "2 * length (Join (map json_text vs) '','') + 1 < n"
  shows "parse_elems n (Join (map json_text vs) '','' @ CHR '']'' # r) acc = Some (JArr (acc @ vs), r)"
  using assms
proof (induction vs arbitrary: n acc)
  case (Cons v vs)
  obtain m where n: "n = Suc m" using Cons.prems(3) by (cases n) auto
  show ?case
  proof (cases "vs = []")
    case True
    then show ?thesis using Cons.prems readsD [of v m "CHR '']'' # r"] by (simp add: n skip_ws_ends)
  next
    case False
    let ?rest = "Join (map json_text vs) '','' @ CHR '']'' # r"
    have "parse_value m (json_text v @ '','' @ ?rest) = Some (v, '','' @ ?rest)"
      using Cons.prems n False by (intro readsD) (auto simp: Join_Cons)
    moreover have "parse_elems m ?rest (acc @ [v]) = Some (JArr ((acc @ [v]) @ vs), r)"
      using Cons.prems n False by (intro Cons.IH) (auto simp: Join_Cons)
    ultimately show ?thesis using False by (simp add: n Join_Cons)
  qed
qed simp

abbreviation member_text :: "string \<times> json \<Rightarrow> string" where
  "member_text \<equiv> \<lambda>(k, v). json_quote k @ '':'' @ json_text v"

lemma parse_members_text:
  assumes "ms \<noteq> []" "\<forall>(k, v) \<in> set ms. json_plain k \<and> reads v"
    "2 * length (Join (map member_text ms) '','') < n"
  shows "parse_members n (Join (map member_text ms) '','' @ CHR ''}'' # r) acc = Some (JObj (acc @ ms), r)"
  using assms
proof (induction ms arbitrary: n acc)
  case (Cons p ms)
  obtain k v where p: "p = (k, v)" by (cases p)
  obtain m where n: "n = Suc m" using Cons.prems(3) by (cases n) auto
  have k: "json_plain k" and v: "reads v" using Cons.prems p by auto
  have key: "parse_members (Suc m) (member_text p @ s) acc =
      (case parse_value m (json_text v @ s) of None \<Rightarrow> None
       | Some (v, r') \<Rightarrow> (case skip_ws r' of [] \<Rightarrow> None
           | e # w \<Rightarrow> if e = CHR '','' then parse_members m w (acc @ [(k, v)])
                      else if e = CHR ''}'' then Some (JObj (acc @ [(k, v)]), w) else None))" for s
    by (simp add: p json_quote_def json_escape_plain k json_chars_plain)
  show ?case
  proof (cases "ms = []")
    case True
    then have "parse_value m (json_text v @ CHR ''}'' # r) = Some (v, CHR ''}'' # r)"
      using Cons.prems n p v by (intro readsD) auto
    then show ?thesis using key [of "CHR ''}'' # r"] True by (simp add: n p del: parse_members.simps)
  next
    case False
    let ?rest = "Join (map member_text ms) '','' @ CHR ''}'' # r"
    have "parse_value m (json_text v @ '','' @ ?rest) = Some (v, '','' @ ?rest)"
      using Cons.prems n False p v by (intro readsD) (auto simp: Join_Cons)
    moreover have "parse_members m ?rest (acc @ [(k, v)]) = Some (JObj ((acc @ [(k, v)]) @ ms), r)"
      using Cons.prems n False p by (intro Cons.IH) (auto simp: Join_Cons)
    ultimately show ?thesis using key [of "'','' @ ?rest"] False by (simp add: n p Join_Cons del: parse_members.simps)
  qed
qed simp

lemma parse_array_enter:
  "t = c # u \<Longrightarrow> \<not> is_json_space c \<Longrightarrow> c \<noteq> CHR '']'' \<Longrightarrow> parse_value (Suc m) (CHR ''['' # t) = parse_elems m t []"
  by (simp add: skip_ws_def is_json_space_def)

lemma parse_object_enter: "t = CHR 0x22 # u \<Longrightarrow> parse_value (Suc m) (CHR ''{'' # t) = parse_members m t []"
  by (simp add: skip_ws_def is_json_space_def)

lemma parse_empty:
  "0 < n \<Longrightarrow> parse_value n (CHR ''['' # CHR '']'' # r) = Some (JArr [], r)"
  "0 < n \<Longrightarrow> parse_value n (CHR ''{'' # CHR ''}'' # r) = Some (JObj [], r)"
  by (cases n; simp add: skip_ws_def is_json_space_def)+

text \<open>What is written is read back.\<close>

lemma plain_reads: "plain_json v \<Longrightarrow> reads v"
proof (induction v)
  case (JNum n)
  then obtain i where i: "n = Itoa i" by (auto simp: num_text_def)
  obtain c t where ct: "Itoa i = c # t" "is_digit c \<or> c = CHR ''-''" using Itoa_first by blast
  then have "parse_value m (Itoa i @ r) = json_scalar (Itoa i @ r)" if "0 < m" for m r
    using that by (intro parse_scalar_text [of _ c "t @ r"]) (auto simp: is_json_space_def is_digit_def)
  then show ?case by (simp add: reads_def i json_scalar_Itoa)
next
  case (JStr s)
  then show ?case
    by (auto simp: reads_def json_quote_def json_escape_plain json_chars_plain is_json_space_def json_scalar_def HasPrefix_def
        parse_scalar_text [of "CHR 0x22 # t" _ _ n for t n])
next
  case (JArr vs)
  have all: "\<forall>v \<in> set vs. reads v" using JArr by (auto simp: list_all_iff)
  show ?case
  proof (cases "vs = []")
    case False
    then obtain v ws where vs: "vs = v # ws" by (cases vs) auto
    obtain c t where ct: "json_text v = c # t" "\<not> is_json_space c" "c \<noteq> CHR '']''"
      using json_text_first [of v] JArr.prems vs by auto
    have "\<exists>t. Join (map json_text vs) '','' @ CHR '']'' # r = c # t" for r
      using vs ct by (cases ws) auto
    then have enter: "parse_value (Suc m) (CHR ''['' # Join (map json_text vs) '','' @ CHR '']'' # r)
        = parse_elems m (Join (map json_text vs) '','' @ CHR '']'' # r) []" for m r
      using parse_array_enter ct(2,3) by metis
    have "parse_value n (json_text (JArr vs) @ r) = Some (JArr vs, r)" if b: "2 * length (json_text (JArr vs)) < n" for n r
    proof -
      obtain m where m: "n = Suc m" using b by (cases n) auto
      show ?thesis using b parse_elems_text [OF False all, of m r "[]"] by (simp add: m enter del: parse_value.simps)
    qed
    then show ?thesis by (simp add: reads_def)
  qed (simp add: reads_def parse_empty)
next
  case (JObj ms)
  have all: "\<forall>(k, v) \<in> set ms. json_plain k \<and> reads v" using JObj by (fastforce simp: list_all_iff)
  show ?case
  proof (cases "ms = []")
    case False
    have "\<exists>t. Join (map member_text ms) '','' @ CHR ''}'' # r = CHR 0x22 # t" for r
      using False by (cases ms; cases "tl ms") (auto simp: json_quote_def)
    then have enter: "parse_value (Suc m) (CHR ''{'' # Join (map member_text ms) '','' @ CHR ''}'' # r)
        = parse_members m (Join (map member_text ms) '','' @ CHR ''}'' # r) []" for m r
      using parse_object_enter by metis
    have "parse_value n (json_text (JObj ms) @ r) = Some (JObj ms, r)" if b: "2 * length (json_text (JObj ms)) < n" for n r
    proof -
      obtain m where m: "n = Suc m" using b by (cases n) auto
      show ?thesis using b parse_members_text [OF False all, of m r "[]"] enter [of m r] by (simp add: m del: parse_value.simps)
    qed
    then show ?thesis by (simp add: reads_def)
  qed (simp add: reads_def parse_empty)
qed (auto simp: reads_def parse_scalar_text is_json_space_def json_scalar_def HasPrefix_def)

theorem json_parse_text: "plain_json v \<Longrightarrow> json_parse (json_text v) = Some v"
  using readsD [OF plain_reads, of v "2 * length (json_text v) + 2" "[]"] by (simp add: json_parse_def)

section \<open>Lists of devices read back\<close>

definition custom_plain :: "custom_value \<Rightarrow> bool" where
  "custom_plain c \<longleftrightarrow> plain_json (custom_json c)"

text \<open>A device whose fields fit their Go types and whose strings need no escape.\<close>

definition device_fits :: "DeviceInfo \<Rightarrow> bool" where
  "device_fits d \<longleftrightarrow>
     0 \<le> DI_Index d \<and> DI_Index d < 2 ^ 64 \<and> - (2 ^ 63) \<le> DI_Numa d \<and> DI_Numa d < 2 ^ 63
     \<and> int32_range (DI_Count d) \<and> int32_range (DI_Devmem d) \<and> int32_range (DI_Devcore d)
     \<and> json_plain (DI_ID d) \<and> json_plain (DI_Type d) \<and> json_plain (DI_Mode d) \<and> json_plain (DI_DeviceVendor d)
     \<and> distinct (map fst (DI_CustomInfo d)) \<and> (\<forall>(k, c) \<in> set (DI_CustomInfo d). json_plain k \<and> custom_plain c)"

definition read_of :: "DeviceInfo \<Rightarrow> read_device" where
  "read_of d = \<lparr>RD_ID = DI_ID d, RD_Index = nat (DI_Index d), RD_Type = DI_Type d, RD_Mode = DI_Mode d,
     RD_Custom = map (\<lambda>(k, v). (k, custom_json v)) (sort_key fst (DI_CustomInfo d))\<rparr>"

lemma decode_fields_append:
  "decode_fields (xs @ ys) d = Option.bind (decode_fields xs d) (decode_fields ys)"
  by (induction xs d rule: decode_fields.induct) (auto split: bind_split)

lemmas lower_eval = ToLower_def lower_char_def

lemma decode_str_fields:
  "decode_fields (str_field ''id'' s) d = Some (d\<lparr>RD_ID := if s = [] then RD_ID d else s\<rparr>)"
  "decode_fields (str_field ''type'' s) d = Some (d\<lparr>RD_Type := if s = [] then RD_Type d else s\<rparr>)"
  "decode_fields (str_field ''mode'' s) d = Some (d\<lparr>RD_Mode := if s = [] then RD_Mode d else s\<rparr>)"
  "decode_fields (str_field ''devicevendor'' s) d = Some d"
  by (simp_all add: str_field_def decode_field_def decode_string_def lower_eval)

lemma decode_int32_fields:
  assumes "int32_range n"
  shows "decode_fields (num_field ''count'' n) d = Some d" "decode_fields (num_field ''devmem'' n) d = Some d"
    "decode_fields (num_field ''devcore'' n) d = Some d"
  using ParseInt10_32_Itoa [OF assms] by (simp_all add: num_field_def decode_field_def decode_number_def lower_eval)

lemma decode_numa_field:
  "- (2 ^ 63) \<le> n \<Longrightarrow> n < 2 ^ 63 \<Longrightarrow> decode_fields (num_field ''numa'' n) d = Some d"
  by (simp add: num_field_def decode_field_def decode_number_def lower_eval Atoi_def ParseInt10_Itoa)

lemma decode_index_field:
  assumes "0 \<le> n" "n < 2 ^ 64"
  shows "decode_fields (num_field ''index'' n) d = Some (d\<lparr>RD_Index := if n = 0 then RD_Index d else nat n\<rparr>)"
proof -
  have "ParseUint10 (Itoa n) = Inr (nat n)"
    using assms by (simp add: Itoa_def ParseUint10_def nat_less_iff)
  then show ?thesis by (simp add: num_field_def decode_field_def decode_number_def lower_eval)
qed

lemma decode_health_field: "decode_fields (if h then [(''health'', JBool True)] else []) d = Some d"
  by (simp add: decode_field_def lower_eval)

lemma fold_update_distinct:
  "distinct (map fst (m @ ms)) \<Longrightarrow> fold (\<lambda>(k, v). assoc_update k v) ms m = m @ ms"
proof (induction ms arbitrary: m)
  case (Cons p ms)
  obtain k v where p: "p = (k, v)" by (cases p)
  then have "assoc_update k v m = m @ [(k, v)]" using Cons.prems by (intro update_new) auto
  then show ?case using Cons.IH [of "m @ [(k, v)]"] Cons.prems p by simp
qed simp

lemma decode_custom_field:
  assumes "distinct (map fst ms)" "RD_Custom d = []"
  shows "decode_fields (if ms = [] then [] else [(''custominfo'', JObj (map (\<lambda>(k, v). (k, custom_json v)) (sort_key fst ms)))]) d
    = Some (d\<lparr>RD_Custom := map (\<lambda>(k, v). (k, custom_json v)) (sort_key fst ms)\<rparr>)"
proof -
  let ?ms = "map (\<lambda>(k, v). (k, custom_json v)) (sort_key fst ms)"
  have "fst \<circ> (\<lambda>(k :: string, v). (k, custom_json v)) = fst" by auto
  then have "distinct (map fst ?ms)" using assms(1) by (simp add: distinct_map_fst_sort_key)
  then have "fold (\<lambda>(k, v). assoc_update k v) ?ms [] = ?ms" using fold_update_distinct [of "[]" ?ms] by simp
  then show ?thesis using assms(2) by (simp add: decode_field_def lower_eval)
qed

lemma decode_device_json:
  assumes "device_fits d"
  shows "decode_device (device_json d) = Some (Some (read_of d))"
proof -
  note f = assms [unfolded device_fits_def]
  show ?thesis using f
    by (simp add: decode_device_def device_json_def decode_fields_append decode_str_fields decode_int32_fields
        decode_numa_field decode_index_field decode_health_field decode_custom_field zero_device_def read_of_def)
qed

lemma plain_num [simp]: "num_text (Itoa i)"
  by (auto simp: num_text_def)

lemma plain_device_json:
  assumes "device_fits d"
  shows "plain_json (device_json d)"
proof -
  have "json_plain ''id''" "json_plain ''index''" "json_plain ''count''" "json_plain ''devmem''" "json_plain ''devcore''"
    "json_plain ''type''" "json_plain ''numa''" "json_plain ''mode''" "json_plain ''health''" "json_plain ''devicevendor''"
    "json_plain ''custominfo''"
    by (simp_all add: json_plain_Cons)
  with assms show ?thesis
    by (auto simp: device_json_def device_fits_def str_field_def num_field_def list_all_iff custom_plain_def)
qed

theorem devices_roundtrip:
  assumes "\<forall>d \<in> set ds. device_fits d"
  shows "unmarshalDevices (marshalNodeDevices ds) = Some (map (\<lambda>d. Some (read_of d)) ds)"
proof -
  have "json_parse (marshalNodeDevices ds) = Some (JArr (map device_json ds))"
    unfolding marshalNodeDevices_def using assms
    by (intro json_parse_text) (auto simp: list_all_iff plain_device_json)
  moreover have "decode_all (map device_json ds) = Some (map (\<lambda>d. Some (read_of d)) ds)"
    using assms by (induction ds) (simp_all add: decode_device_json)
  ultimately show ?thesis by (simp add: unmarshalDevices_def)
qed

end
