(* ===== verification/Registrar.thy ===== *)
theory Registrar
  imports JsonValue Health Registration Kube
begin

text \<open>
  One pass of the registration: \<open>RegisterInAnnotation\<close>, \<open>reportHealthChanges\<close> and
  \<open>ClearRegistration\<close> in \<open>internal/pkg/plugin/plugin.go\<close>, and the Events of
  \<open>health_events.go\<close> that reach the API server. The API server is the parameter \<open>registrar\<close>; the
  UID of the node and the times of an Event are not part of the model.
\<close>

section \<open>Events on the node (health_events.go)\<close>

record node_event =
  NE_Namespace :: string
  NE_GenerateName :: string
  NE_Node :: string
  NE_Event :: healthEvent
  NE_Component :: string
  NE_Host :: string

record 'w registrar =
  rApi :: "'w api"
  createEvent :: "node_event \<Rightarrow> ('w, api_error, unit) io"

definition registerAnnosKey :: string where "registerAnnosKey = ''hami.io/node-amd-register''"
definition reasonModeChangedInUse :: string where "reasonModeChangedInUse = ''AMDGPUModeChangedInUse''"

definition node_event_of :: "Node \<Rightarrow> healthEvent \<Rightarrow> node_event" where
  "node_event_of node ev =
     \<lparr>NE_Namespace = ''default'', NE_GenerateName = NName node @ ''.'', NE_Node = NName node, NE_Event = ev,
      NE_Component = ''amd-device-plugin'', NE_Host = NName node\<rparr>"

definition emitNodeEvent :: "'w registrar \<Rightarrow> Node \<Rightarrow> healthEvent \<Rightarrow> ('w, 'e, unit) io" where
  "emitNodeEvent reg node ev = try_io (createEvent reg (node_event_of node ev)) (\<lambda>_. return_io ())"

fun emit_all :: "'w registrar \<Rightarrow> Node \<Rightarrow> healthEvent list \<Rightarrow> ('w, 'e, unit) io" where
  "emit_all reg node [] = return_io ()"
| "emit_all reg node (ev # evs) = bind_io (emitNodeEvent reg node ev) (\<lambda>_. emit_all reg node evs)"

text \<open>A list that does not decode reports nothing; a \<open>null\<close> element is a device without id and mode.\<close>

definition recorded_modes :: "read_device option list \<Rightarrow> (string \<times> string) list" where
  "recorded_modes ds =
     fold (\<lambda>d m. case d of None \<Rightarrow> assoc_update [] [] m | Some r \<Rightarrow> assoc_update (RD_ID r) (RD_Mode r) m) ds []"

definition modeChanges :: "string \<Rightarrow> DeviceInfo list \<Rightarrow> DeviceInfo list" where
  "modeChanges previous current =
     (case unmarshalDevices previous of
        None \<Rightarrow> []
      | Some recorded \<Rightarrow>
          filter (\<lambda>d. case map_of (recorded_modes recorded) (DI_ID d) of None \<Rightarrow> False | Some mode \<Rightarrow> mode \<noteq> DI_Mode d) current)"

definition podsHolding :: "Pod list \<Rightarrow> string \<Rightarrow> string list" where
  "podsHolding pods ident =
     map (\<lambda>p. PNamespace p @ ''/'' @ PName p)
       (filter (\<lambda>p. \<not> IsPodInTerminatedState p \<and> Contains (str_of (map_of (PAnnotations p) DeviceAllocation)) ident) pods)"

definition modeName :: "string \<Rightarrow> string" where
  "modeName mode = (if mode = [] then ''cu'' else ''partition ('' @ mode @ '')'')"

definition mode_event :: "DeviceInfo \<Rightarrow> string list \<Rightarrow> healthEvent" where
  "mode_event d holders =
     \<lparr>EV_Type = ''Warning'', EV_Reason = reasonModeChangedInUse,
      EV_Message = ''GPU '' @ Itoa (DI_Index d) @ '' ('' @ DI_ID d @ '') switched to '' @ modeName (DI_Mode d) @ '' mode while ''
        @ Itoa (int (length holders)) @ '' Pod(s) still use it: '' @ Join holders '', ''
        @ ''. Drain the node before changing the operating mode''\<rparr>"

definition mode_events :: "Pod list \<Rightarrow> DeviceInfo list \<Rightarrow> healthEvent list" where
  "mode_events pods changed =
     List.map_filter (\<lambda>d. if podsHolding pods (DI_ID d) = [] then None
                          else Some (mode_event d (podsHolding pods (DI_ID d)))) changed"

definition warnModeChangeInUse :: "'w registrar \<Rightarrow> Node \<Rightarrow> DeviceInfo list \<Rightarrow> ('w, 'e, unit) io" where
  "warnModeChangeInUse reg node devices =
     (let changed = modeChanges (str_of (map_of (NAnnotations node) registerAnnosKey)) devices in
      if changed = [] then return_io ()
      else try_io (listPods (rApi reg) (NName node)) (\<lambda>r.
             case r of Inl _ \<Rightarrow> return_io () | Inr pods \<Rightarrow> emit_all reg node (mode_events pods changed)))"

section \<open>The registration pass (plugin.go)\<close>

definition reportHealthChanges ::
  "'w registrar \<Rightarrow> Node \<Rightarrow> DeviceInfo list \<Rightarrow> gpu_states option \<Rightarrow> ('w, 'e, gpu_states) io" where
  "reportHealthChanges reg node devices states =
     (case healthTransitions states devices of
        (events, next1) \<Rightarrow> bind_io (emit_all reg node events) (\<lambda>_. return_io next1))"

text \<open>The part of the pass after \<open>getAPIDevices\<close>; the result is the states the pass remembers.\<close>

definition register_devices ::
  "'w registrar \<Rightarrow> bool \<Rightarrow> string \<Rightarrow> DeviceInfo list \<Rightarrow> gpu_states option \<Rightarrow> ('w, kube_error, gpu_states) io" where
  "register_devices reg reportNodeCapacity nodeName devices states =
     bind_io (GetNode (rApi reg) nodeName) (\<lambda>node.
     try_io (if reportNodeCapacity then PatchNodeStatusCapacity (rApi reg) node (healthyCapacity devices)
             else ClearNodeStatusCapacity (rApi reg) node [''amd.com/gpumem'', ''amd.com/gpucores'']) (\<lambda>_.
     bind_io (warnModeChangeInUse reg node devices) (\<lambda>_.
     bind_io (PatchNodeAnnotations (rApi reg) node [(registerAnnosKey, marshalNodeDevices devices)]) (\<lambda>_.
     reportHealthChanges reg node devices states))))"

text \<open>What the plugin keeps between passes, and what one pass reads of the node.\<close>

record reg_state =
  RS_plugin :: plugin
  RS_lastCapacity :: capacities
  RS_gpuStates :: "gpu_states option"

record node_view =
  V_files :: files
  V_glob :: "string \<Rightarrow> string list"
  V_lookups :: lookups
  V_capacity :: "string \<Rightarrow> (drm_error, DeviceCapacity) result"
  V_unhealthy :: "string list"
  V_gpus :: gpu_map

definition RegisterInAnnotation ::
  "'w registrar \<Rightarrow> bool \<Rightarrow> string \<Rightarrow> node_view \<Rightarrow> reg_state \<Rightarrow> 'w \<Rightarrow> (kube_error, unit) result \<times> reg_state \<times> 'w" where
  "RegisterInAnnotation reg reportNodeCapacity nodeName view st w =
     (case getAPIDevices (RS_plugin st) (RS_lastCapacity st) (V_files view) (V_glob view) (V_lookups view)
             (V_capacity view) (V_unhealthy view) (V_gpus view) of
        (devices, p, remembered) \<Rightarrow>
          (case register_devices reg reportNodeCapacity nodeName devices (RS_gpuStates st) w of
             (Inl e, w') \<Rightarrow> (Inl e, \<lparr>RS_plugin = p, RS_lastCapacity = remembered, RS_gpuStates = RS_gpuStates st\<rparr>, w')
           | (Inr states, w') \<Rightarrow> (Inr (), \<lparr>RS_plugin = p, RS_lastCapacity = remembered, RS_gpuStates = Some states\<rparr>, w')))"

text \<open>\<open>WatchAndRegister\<close>: the pass is repeated, with the seconds it sleeps before each.\<close>

fun WatchAndRegister ::
  "'w registrar \<Rightarrow> bool \<Rightarrow> string \<Rightarrow> node_view list \<Rightarrow> nat \<Rightarrow> reg_state \<Rightarrow> 'w
     \<Rightarrow> (nat \<times> DeviceInfo list \<times> bool) list \<times> reg_state \<times> 'w" where
  "WatchAndRegister reg cap nodeName [] wait st w = ([], st, w)"
| "WatchAndRegister reg cap nodeName (v # vs) wait st w =
     (case RegisterInAnnotation reg cap nodeName v st w of
        (r, st', w') \<Rightarrow>
          (let ok = (case r of Inl _ \<Rightarrow> False | Inr _ \<Rightarrow> True) in
           case WatchAndRegister reg cap nodeName vs (if ok then 30 else 5) st' w' of
             (log1, st'', w'') \<Rightarrow> ((wait, deviceCache (RS_plugin st'), ok) # log1, st'', w'')))"

definition ClearRegistration :: "'w registrar \<Rightarrow> string \<Rightarrow> ('w, kube_error, unit) io" where
  "ClearRegistration reg nodeName =
     bind_io (GetNode (rApi reg) nodeName) (\<lambda>node.
       if map_of (NAnnotations node) registerAnnosKey = None then return_io ()
       else PatchNodeAnnotations (rApi reg) node [(registerAnnosKey, marshalNodeDevices [])])"

section \<open>A log of the Events\<close>

definition unwatched :: "('w, 'e, 'a) io \<Rightarrow> ('w \<times> node_event list, 'e, 'a) io" where
  "unwatched m = (\<lambda>(w, l). case m w of (r, w') \<Rightarrow> (r, (w', l)))"

definition watched :: "'w registrar \<Rightarrow> ('w \<times> node_event list) registrar" where
  "watched reg =
     \<lparr>rApi = \<lparr>getNode = (\<lambda>n. unwatched (getNode (rApi reg) n)),
              listPods = (\<lambda>n. unwatched (listPods (rApi reg) n)),
              getPod = (\<lambda>ns n. unwatched (getPod (rApi reg) ns n)),
              patchPod = (\<lambda>ns n an la. unwatched (patchPod (rApi reg) ns n an la)),
              patchNode = (\<lambda>n rv an. unwatched (patchNode (rApi reg) n rv an)),
              patchStatus = (\<lambda>n rs. unwatched (patchStatus (rApi reg) n rs))\<rparr>,
      createEvent = (\<lambda>ev (w, l). case createEvent reg ev w of (r, w') \<Rightarrow> (r, (w', l @ [ev])))\<rparr>"

text \<open>\<open>events m P\<close>: a run of \<open>m\<close> adds Events to the log that, with the result, satisfy \<open>P\<close>.\<close>

definition events :: "('w \<times> node_event list, 'e, 'a) io \<Rightarrow> (('e, 'a) result \<Rightarrow> node_event list \<Rightarrow> bool) \<Rightarrow> bool" where
  "events m P \<longleftrightarrow> (\<forall>w l. \<exists>r w' new. m (w, l) = (r, (w', l @ new)) \<and> P r new)"

lemma eventsE:
  assumes "events m P"
  obtains r w' new where "m (w, l) = (r, (w', l @ new))" "P r new"
  using assms unfolding events_def by meson

lemma events_conseq: "events m P \<Longrightarrow> (\<And>r new. P r new \<Longrightarrow> Q r new) \<Longrightarrow> events m Q"
  unfolding events_def by meson

lemma events_return: "P (Inr x) [] \<Longrightarrow> events (return_io x) P"
  by (simp add: events_def)

lemma events_throw: "P (Inl e) [] \<Longrightarrow> events (throw_io e) P"
  by (simp add: events_def)

lemma events_lift: "P (case r of Inl e \<Rightarrow> Inl (f e) | Inr x \<Rightarrow> Inr x) [] \<Longrightarrow> events (lift_io f r) P"
  by (cases r) (simp_all add: events_return events_throw)

lemma events_quiet: "events (unwatched m) (\<lambda>r new. new = [])"
  by (auto simp: events_def unwatched_def split: prod.split)

lemma events_try:
  assumes "events m P" "\<And>r a. P r a \<Longrightarrow> events (f r) (\<lambda>r' b. Q r' (a @ b))"
  shows "events (try_io m f) Q"
  unfolding events_def
proof (intro allI)
  fix w l
  obtain r w1 a where m: "m (w, l) = (r, (w1, l @ a))" "P r a" by (rule eventsE [OF assms(1)])
  obtain r' w2 b where f: "f r (w1, l @ a) = (r', (w2, (l @ a) @ b))" "Q r' (a @ b)"
    by (rule eventsE [OF assms(2) [OF m(2)]])
  show "\<exists>r w' new. try_io m f (w, l) = (r, (w', l @ new)) \<and> Q r new"
    using m f by (simp add: try_io_def)
qed

lemma events_bind:
  assumes "events m P" "\<And>x a. P (Inr x) a \<Longrightarrow> events (f x) (\<lambda>r' b. Q r' (a @ b))"
    and "\<And>e a. P (Inl e) a \<Longrightarrow> Q (Inl e) a"
  shows "events (bind_io m f) Q"
proof -
  have "bind_io m f = try_io m (\<lambda>r. case r of Inl e \<Rightarrow> throw_io e | Inr x \<Rightarrow> f x)"
    by (auto simp: bind_io_def try_io_def fun_eq_iff split: sum.split prod.split)
  moreover have "events (case r of Inl e \<Rightarrow> throw_io e | Inr x \<Rightarrow> f x) (\<lambda>r' b. Q r' (a @ b))" if "P r a" for r a
    using that assms(2,3) by (cases r) (auto intro: events_throw)
  ultimately show ?thesis using events_try [OF assms(1)] by metis
qed

lemma events_call:
  "events (try_io (getNode (rApi (watched reg)) n) (lift_io f)) (\<lambda>r new. new = [])"
  "events (try_io (patchNode (rApi (watched reg)) n rv an) (lift_io g)) (\<lambda>r new. new = [])"
  "events (try_io (patchStatus (rApi (watched reg)) n rs) (lift_io g)) (\<lambda>r new. new = [])"
  by (auto simp: watched_def intro!: events_try [OF events_quiet] events_lift)

lemma events_calls:
  "events (GetNode (rApi (watched reg)) n) (\<lambda>r new. new = [])"
  "events (PatchNodeAnnotations (rApi (watched reg)) node an) (\<lambda>r new. new = [])"
  "events (PatchNodeStatusCapacity (rApi (watched reg)) node rs) (\<lambda>r new. new = [])"
  "events (ClearNodeStatusCapacity (rApi (watched reg)) node names) (\<lambda>r new. new = [])"
  by (simp_all add: GetNode_def PatchNodeAnnotations_def PatchNodeStatusCapacity_def ClearNodeStatusCapacity_def Let_def
      events_call events_return events_throw)

lemma events_cap:
  "events (if cap then PatchNodeStatusCapacity (rApi (watched reg)) node rs
           else ClearNodeStatusCapacity (rApi (watched reg)) node names) (\<lambda>r new. new = [])"
  by (simp add: events_calls)

lemma events_emit: "events (emitNodeEvent (watched reg) node ev) (\<lambda>r new. r = Inr () \<and> new = [node_event_of node ev])"
  by (auto simp: events_def emitNodeEvent_def try_io_def watched_def split: prod.split)

lemma events_emit_all:
  "events (emit_all (watched reg) node evs) (\<lambda>r new. r = Inr () \<and> new = map (node_event_of node) evs)"
proof (induction evs)
  case (Cons ev evs)
  then show ?case
    by (auto intro!: events_bind [OF events_emit] elim!: events_conseq)
qed (simp add: events_def)

lemma events_warn:
  "events (warnModeChangeInUse (watched reg) node devices)
     (\<lambda>r new. r = Inr () \<and> (\<forall>e \<in> set new. EV_Reason (NE_Event e) = reasonModeChangedInUse))"
proof -
  have reason: "\<forall>ev \<in> set (mode_events pods changed). EV_Reason ev = reasonModeChangedInUse" for pods changed
    by (auto simp: mode_events_def mode_event_def List.map_filter_def split: if_splits)
  have "events (listPods (rApi (watched reg)) n) (\<lambda>r new. new = [])" for n
    by (simp add: watched_def events_quiet)
  then show ?thesis
    unfolding warnModeChangeInUse_def Let_def
    by (auto intro!: events_return events_try split: sum.split)
      (rule events_conseq [OF events_emit_all], use reason in \<open>auto simp: node_event_of_def\<close>)
qed

section \<open>Passes that fail\<close>

lemma gpu_transition_reasons:
  "gpu_transition i b n = (st, Some ev) \<Longrightarrow> EV_Reason ev \<in> {reasonMissing, reasonUnhealthy, reasonRecovered}"
  by (auto simp: gpu_transition_def split: option.splits if_splits)

lemma transition_reasons:
  "(i, ev) \<in> set (fst (transition_loop prev ids next1)) \<Longrightarrow> EV_Reason ev \<in> {reasonMissing, reasonUnhealthy, reasonRecovered}"
proof (induction prev ids next1 rule: transition_loop.induct)
  case (2 prev ident ids next1)
  obtain st e where t: "gpu_transition ident (map_of prev ident) (map_of next1 ident) = (st, e)" by fastforce
  let ?rest = "transition_loop prev ids (case st of None \<Rightarrow> next1 | Some s \<Rightarrow> assoc_update ident s next1)"
  have "(i, ev) \<in> set (fst ?rest) \<or> e = Some ev"
    using 2(2) t by (auto split: prod.splits option.splits)
  then show ?case using 2(1) [OF t [symmetric]] gpu_transition_reasons t by blast
qed simp

lemma health_reasons: "ev \<in> set (fst (healthTransitions states devices)) \<Longrightarrow> EV_Reason ev \<noteq> reasonModeChangedInUse"
proof -
  assume "ev \<in> set (fst (healthTransitions states devices))"
  then obtain i prev ids next1 where "(i, ev) \<in> set (fst (transition_loop prev ids next1))"
    by (cases states) (auto simp: healthTransitions_def transitions_def Let_def split: prod.splits, metis fst_conv)
  from transition_reasons [OF this] show ?thesis
    by (auto simp: reasonModeChangedInUse_def reasonMissing_def reasonUnhealthy_def reasonRecovered_def)
qed

definition health_only :: "node_event list \<Rightarrow> healthEvent list" where
  "health_only evs = filter (\<lambda>e. EV_Reason e \<noteq> reasonModeChangedInUse) (map NE_Event evs)"

lemma health_only_append [simp]: "health_only (xs @ ys) = health_only xs @ health_only ys" "health_only [] = []"
  by (simp_all add: health_only_def)

definition pass_reports :: "DeviceInfo list \<Rightarrow> gpu_states option \<Rightarrow> (kube_error, gpu_states) result \<Rightarrow> node_event list \<Rightarrow> bool" where
  "pass_reports devices states r new \<longleftrightarrow>
     (case r of
        Inl _ \<Rightarrow> health_only new = []
      | Inr next1 \<Rightarrow> (health_only new, next1) = healthTransitions states devices)"

lemma pass_reports_skip: "health_only a = [] \<Longrightarrow> pass_reports devices states r (a @ b) \<longleftrightarrow> pass_reports devices states r b"
  by (simp add: pass_reports_def split: sum.split)

lemma events_register: "events (register_devices (watched reg) cap n devices states) (pass_reports devices states)"
proof -
  have report: "events (reportHealthChanges (watched reg) node devices states) (pass_reports devices states)" for node
  proof -
    obtain evs next1 where t: "healthTransitions states devices = (evs, next1)" by fastforce
    have "health_only (map (node_event_of node) evs) = evs"
      using health_reasons [of _ states devices] t by (simp add: health_only_def node_event_of_def o_def filter_id_conv)
    then show ?thesis
      by (auto simp: reportHealthChanges_def t pass_reports_def intro!: events_bind [OF events_emit_all] events_return)
  qed
  have patch: "events (bind_io (PatchNodeAnnotations (rApi (watched reg)) node an) (\<lambda>_.
      reportHealthChanges (watched reg) node devices states)) (pass_reports devices states)" for node an
    by (rule events_bind [OF events_calls(2)]) (auto simp: report pass_reports_def [of _ _ "Inl e" for e])
  have warn: "events (bind_io (warnModeChangeInUse (watched reg) node devices) (\<lambda>_.
      bind_io (PatchNodeAnnotations (rApi (watched reg)) node an) (\<lambda>_.
      reportHealthChanges (watched reg) node devices states))) (pass_reports devices states)" for node an
  proof (rule events_bind [OF events_warn])
    fix x and a :: "node_event list"
    assume "Inr x = (Inr () :: (kube_error, unit) result) \<and> (\<forall>e \<in> set a. EV_Reason (NE_Event e) = reasonModeChangedInUse)"
    then have "health_only a = []" by (simp add: health_only_def filter_empty_conv)
    then show "events (bind_io (PatchNodeAnnotations (rApi (watched reg)) node an) (\<lambda>_.
      reportHealthChanges (watched reg) node devices states)) (\<lambda>r b. pass_reports devices states r (a @ b))"
      using patch by (simp add: pass_reports_skip)
  qed simp
  have rest: "events (try_io (if cap then PatchNodeStatusCapacity (rApi (watched reg)) node (healthyCapacity devices)
      else ClearNodeStatusCapacity (rApi (watched reg)) node names) (\<lambda>_.
      bind_io (warnModeChangeInUse (watched reg) node devices) (\<lambda>_.
      bind_io (PatchNodeAnnotations (rApi (watched reg)) node an) (\<lambda>_.
      reportHealthChanges (watched reg) node devices states)))) (pass_reports devices states)" for node names an
    by (rule events_try [OF events_cap]) (simp add: warn)
  show ?thesis
    unfolding register_devices_def
    by (rule events_bind [OF events_calls(1)]) (auto simp: rest pass_reports_def [of _ _ "Inl e" for e])
qed

lemma RegisterInAnnotation_events:
  assumes "RegisterInAnnotation (watched reg) cap n view st (w, l) = (r, st', (w', l'))"
  shows "\<exists>new. l' = l @ new
    \<and> (case r of Inl _ \<Rightarrow> health_only new = [] \<and> RS_gpuStates st' = RS_gpuStates st
       | Inr _ \<Rightarrow> \<exists>next1. (health_only new, next1) = healthTransitions (RS_gpuStates st) (deviceCache (RS_plugin st'))
           \<and> RS_gpuStates st' = Some next1)"
proof -
  obtain devices p remembered where d: "getAPIDevices (RS_plugin st) (RS_lastCapacity st) (V_files view) (V_glob view)
      (V_lookups view) (V_capacity view) (V_unhealthy view) (V_gpus view) = (devices, p, remembered)" by (metis prod_cases3)
  then have cache: "deviceCache p = devices" by (auto simp: getAPIDevices_def Let_def publish_def split: prod.splits)
  obtain r1 w1 new where run: "register_devices (watched reg) cap n devices (RS_gpuStates st) (w, l) = (r1, (w1, l @ new))"
    and ok: "pass_reports devices (RS_gpuStates st) r1 new"
    by (rule eventsE [OF events_register])
  then show ?thesis
    using assms cache by (cases r1) (auto simp: RegisterInAnnotation_def d pass_reports_def)
qed

text \<open>The device lists of the passes that succeeded, the newest first.\<close>

definition registered_lists :: "(nat \<times> DeviceInfo list \<times> bool) list \<Rightarrow> DeviceInfo list list" where
  "registered_lists passes = rev (map (fst \<circ> snd) (filter (snd \<circ> snd) passes))"

lemma watch_monitored:
  assumes "WatchAndRegister (watched reg) cap n views wait st (w, l) = (passes, st', (w', l'))"
    and "monitored hist (RS_gpuStates st) evlog" "health_only l = map snd evlog"
  shows "\<exists>evlog'. monitored (registered_lists passes @ hist) (RS_gpuStates st') evlog' \<and> health_only l' = map snd evlog'"
  using assms
proof (induction views arbitrary: wait st w l passes hist evlog)
  case Nil
  then show ?case by (auto simp: registered_lists_def)
next
  case (Cons v vs)
  obtain r st1 w1 l1 where one: "RegisterInAnnotation (watched reg) cap n v st (w, l) = (r, st1, (w1, l1))"
    by (metis prod_cases4)
  define ok where "ok = (case r of Inl _ \<Rightarrow> False | Inr _ \<Rightarrow> True)"
  obtain ps where ps: "WatchAndRegister (watched reg) cap n vs (if ok then 30 else 5) st1 (w1, l1) = (ps, st', (w', l'))"
    and passes: "passes = (wait, deviceCache (RS_plugin st1), ok) # ps"
    using Cons.prems(1) by (auto simp: one ok_def Let_def split: prod.splits)
  from RegisterInAnnotation_events [OF one] obtain new where l1: "l1 = l @ new"
    and new: "case r of Inl _ \<Rightarrow> health_only new = [] \<and> RS_gpuStates st1 = RS_gpuStates st
       | Inr _ \<Rightarrow> \<exists>next1. (health_only new, next1) = healthTransitions (RS_gpuStates st) (deviceCache (RS_plugin st1))
           \<and> RS_gpuStates st1 = Some next1" by blast
  show ?case
  proof (cases r)
    case (Inl e)
    then have "health_only l1 = map snd evlog" "monitored hist (RS_gpuStates st1) evlog"
      using new l1 Cons.prems by simp_all
    from Cons.IH [OF ps this(2,1)] show ?thesis using passes Inl by (simp add: registered_lists_def ok_def)
  next
    case (Inr u)
    let ?d = "deviceCache (RS_plugin st1)"
    from new Inr obtain next1 where t: "(health_only new, next1) = healthTransitions (RS_gpuStates st) ?d"
      and s: "RS_gpuStates st1 = Some next1" by auto
    obtain evs where tr: "transitions (RS_gpuStates st) ?d = (evs, next1)" and hn: "health_only new = map snd evs"
      using t by (auto simp: healthTransitions_def split: prod.splits)
    have m: "monitored (?d # hist) (RS_gpuStates st1) (evlog @ evs)"
      using monitored.register [OF Cons.prems(2), of ?d] by (simp add: tr s)
    have "health_only l1 = map snd (evlog @ evs)" using l1 hn Cons.prems(3) by simp
    from Cons.IH [OF ps m this] show ?thesis using passes Inr by (simp add: registered_lists_def ok_def)
  qed
qed

text \<open>C27: a failed registration loses no Event and repeats none. Whatever calls of the API server fail on
  the way, after any number of passes of the loop the remembered states and the health Events created for
  the node are those of the passes that succeeded, as if the failed ones had not happened.\<close>

theorem failed_passes_keep_events:
  assumes "WatchAndRegister (watched reg) cap nodeName views 30 st (w, []) = (passes, st', (w', evs))"
    and "RS_gpuStates st = None"
  shows "\<exists>evlog. monitored (registered_lists passes) (RS_gpuStates st') evlog \<and> health_only evs = map snd evlog"
  using watch_monitored [OF assms(1), of "[]" "[]"] assms(2) monitored.start by simp

section \<open>Switches of the operating mode\<close>

text \<open>The mode a GPU was last registered with.\<close>

definition mode_before :: "DeviceInfo list \<Rightarrow> string \<Rightarrow> string option" where
  "mode_before ds i = map_option DI_Mode (find (\<lambda>b. DI_ID b = i) (rev ds))"

lemma recorded_modes_read: "map_of (recorded_modes (map (\<lambda>d. Some (read_of d)) ds)) i = mode_before ds i"
proof (induction ds rule: rev_induct)
  case Nil
  then show ?case by (simp add: recorded_modes_def mode_before_def)
next
  case (snoc d ds)
  have "recorded_modes (map (\<lambda>d. Some (read_of d)) (ds @ [d]))
      = assoc_update (DI_ID d) (DI_Mode d) (recorded_modes (map (\<lambda>d. Some (read_of d)) ds))"
    by (simp add: recorded_modes_def read_of_def)
  with snoc show ?case by (auto simp: map_of_assoc_update mode_before_def)
qed

definition switched :: "DeviceInfo list \<Rightarrow> DeviceInfo \<Rightarrow> bool" where
  "switched before d \<longleftrightarrow> (case mode_before before (DI_ID d) of None \<Rightarrow> False | Some mode \<Rightarrow> mode \<noteq> DI_Mode d)"

lemma modeChanges_registered:
  assumes "\<forall>d \<in> set before. device_fits d"
  shows "modeChanges (marshalNodeDevices before) current = filter (switched before) current"
  by (simp add: modeChanges_def devices_roundtrip [OF assms] recorded_modes_read switched_def [abs_def])

lemma emit_all_run:
  "\<exists>w'. emit_all (watched reg) node evs (w, l) = (Inr (), (w', l @ map (node_event_of node) evs))"
  using eventsE [OF events_emit_all [of reg node evs], of w l] by metis


section \<open>Samples\<close>

text \<open>A server that cannot answer the first request for the node.\<close>

definition sample_registrar :: "Node \<Rightarrow> Pod list \<Rightarrow> bool registrar" where
  "sample_registrar node pods =
     \<lparr>rApi = \<lparr>getNode = (\<lambda>_ up. (if up then Inr node else Inl (ApiError ''timeout''), True)),
              listPods = (\<lambda>_ up. (Inr pods, up)),
              getPod = (\<lambda>_ _ up. (Inl NotFound, up)),
              patchPod = (\<lambda>_ _ _ _ up. (Inr (), up)),
              patchNode = (\<lambda>_ _ _ up. (Inr (), up)),
              patchStatus = (\<lambda>_ _ up. (Inr (), up))\<rparr>,
      createEvent = (\<lambda>_ up. (Inr (), up))\<rparr>"

definition sample_view :: node_view where
  "sample_view = \<lparr>V_files = (\<lambda>_. None), V_glob = (\<lambda>_. []),
     V_lookups = \<lparr>L_uuid = (\<lambda>_. []), L_name = (\<lambda>_. []), L_memory = (\<lambda>_. []), L_profiles = (\<lambda>_. [])\<rparr>,
     V_capacity = (\<lambda>_. Inr \<lparr>VRAMMiB = 16384, CUCount = 64\<rparr>), V_unhealthy = [], V_gpus = []\<rparr>"

abbreviation sample_reg_state :: reg_state where
  "sample_reg_state \<equiv> \<lparr>RS_plugin = sample_plugin ''cu'', RS_lastCapacity = [], RS_gpuStates = None\<rparr>"

lemma sample_devices: "getAPIDevices p [] (\<lambda>_. None) (\<lambda>_. []) L cap [] [] = ([], publish p [] [] [], [])"
  by (simp add: getAPIDevices_def register_all_def List.map_filter_def addXGMIPeers_def Let_def)

lemma sample_watch:
  "\<exists>ps st evs. WatchAndRegister (watched (sample_registrar (sample_node []) [])) True ''n1'' [sample_view, sample_view] 30
     sample_reg_state (False, []) = (ps, st, (True, evs)) \<and> map (snd \<circ> snd) ps = [False, True]"
  by (simp add: sample_view_def RegisterInAnnotation_def sample_devices register_devices_def bind_io_def try_io_def
      GetNode_def watched_def unwatched_def sample_registrar_def PatchNodeStatusCapacity_def healthyCapacity_def
      warnModeChangeInUse_def modeChanges_def unmarshalDevices_def json_parse_def sample_node_def numeral_2_eq_2 skip_ws_def
      PatchNodeAnnotations_def reportHealthChanges_def healthTransitions_def transitions_def current_states_def Let_def
      lift_io_def)

theorem failed_passes_keep_events_witness:
  "\<exists>ps st w evs evlog. WatchAndRegister (watched (sample_registrar (sample_node []) [])) True ''n1''
       [sample_view, sample_view] 30 sample_reg_state (False, []) = (ps, st, (w, evs))
     \<and> map (snd \<circ> snd) ps = [False, True] \<and> monitored (registered_lists ps) (RS_gpuStates st) evlog
     \<and> health_only evs = map snd evlog"
proof -
  obtain ps st evs where run: "WatchAndRegister (watched (sample_registrar (sample_node []) [])) True ''n1''
      [sample_view, sample_view] 30 sample_reg_state (False, []) = (ps, st, (True, evs))"
    and ok: "map (snd \<circ> snd) ps = [False, True]" by (metis sample_watch)
  from failed_passes_keep_events [OF run] ok run show ?thesis by auto
qed

definition held_pod :: Pod where
  "held_pod = sample_pod ''p'' [(DeviceAllocation, ''G,amd-gpu,1024,32:;'')]"


end
