(* ===== verification/Service.thy ===== *)
theory Service
  imports Registrar Discovery Allocator Dmem
begin

text \<open>
  The life of the plugin: the flags and the resource names of \<open>cmd/k8s-device-plugin/main.go\<close>, the
  construction of a plugin by \<open>AMDGPULister\<close>, \<open>Start\<close>, \<open>getDevices\<close>,
  \<open>GetDevicePluginOptions\<close> and \<open>ListAndWatch\<close> in \<open>internal/pkg/plugin/plugin.go\<close>, and the CDI
  spec of \<open>cdi.go\<close>. Reading the node (discovery, the API server, the environment) is a parameter.
\<close>

section \<open>Resource names (main.go)\<close>

datatype strategy = StrategySingle | StrategyMixed

definition ParseStrategy :: "string \<Rightarrow> (string, strategy) result" where
  "ParseStrategy s =
     (if s = ''single'' then Inr StrategySingle
      else if s = ''mixed'' then Inr StrategyMixed
      else Inl s)"

text \<open>\<open>None\<close> is the panic of an unchecked type assertion in \<open>UniquePartitionConfigCount\<close>.\<close>

definition resourceNames :: "strategy \<Rightarrow> gpu_map \<Rightarrow> string list option" where
  "resourceNames resourceNamingStrategy gpus =
     (case UniquePartitionConfigCount gpus [] of
        None \<Rightarrow> None
      | Some partitionCountMap \<Rightarrow>
          Some (if gpus = [] then []
                else if length partitionCountMap \<le> 1 then
                  (case resourceNamingStrategy of
                     StrategySingle \<Rightarrow> [''gpu'']
                   | StrategyMixed \<Rightarrow>
                       if partitionCountMap = [] then [''gpu'']
                       else map fst (filter (\<lambda>(partitionType, count). 0 < count) partitionCountMap))
                else
                  (case resourceNamingStrategy of
                     StrategySingle \<Rightarrow> [''gpu'']
                   | StrategyMixed \<Rightarrow> map fst (filter (\<lambda>(partitionType, count). 0 < count) partitionCountMap))))"

section \<open>Construction\<close>

record lister =
  AllocatorPolicyName :: string
  SplitCount :: int
  ReportNodeCapacity :: bool
  DeviceMemoryScaling :: rat
  CDISpecDir :: string
  DmemBackend :: bool
  HipLogLevel :: int
  MuslFailClosed :: bool

record service =
  SV_reg :: reg_state
  SV_Resource :: string
  SV_computePartition :: string
  SV_policy :: BestEffortPolicy
  SV_allocatorInitError :: bool
  SV_reportNodeCapacity :: bool

text \<open>
  The options. The heartbeat channel and the injected AMD SMI lookups are not part of the state:
  heartbeats are the wake-ups of \<open>serveDevices\<close>, the lookups a parameter of the registration.
\<close>

type_synonym plugin_option = "service \<Rightarrow> service"

definition on_plugin :: "(plugin \<Rightarrow> plugin) \<Rightarrow> plugin_option" where
  "on_plugin f s = s\<lparr>SV_reg := (SV_reg s)\<lparr>RS_plugin := f (RS_plugin (SV_reg s))\<rparr>\<rparr>"

definition WithCDISpecDir :: "string \<Rightarrow> plugin_option" where
  "WithCDISpecDir dir = on_plugin (\<lambda>p. p\<lparr>cdiSpecDir := dir\<rparr>)"

definition WithAllocator :: "BestEffortPolicy \<Rightarrow> plugin_option" where
  "WithAllocator a s = s\<lparr>SV_policy := a\<rparr>"

definition WithResource :: "string \<Rightarrow> plugin_option" where
  "WithResource res s = s\<lparr>SV_Resource := res\<rparr>"

definition WithSysfsRoot :: "string \<Rightarrow> plugin_option" where
  "WithSysfsRoot sysfs = on_plugin (\<lambda>p. p\<lparr>sysfsRoot := sysfs\<rparr>)"

definition WithDmemBackend :: "bool \<Rightarrow> plugin_option" where
  "WithDmemBackend enabled = on_plugin (\<lambda>p. p\<lparr>dmemEnabled := enabled\<rparr>)"

definition WithHipLogLevel :: "int \<Rightarrow> plugin_option" where
  "WithHipLogLevel level = on_plugin (\<lambda>p. p\<lparr>hipLogLevel := level\<rparr>)"

definition WithMuslFailClosed :: "bool \<Rightarrow> plugin_option" where
  "WithMuslFailClosed enabled s = (if \<not> enabled then s else on_plugin (\<lambda>p. p\<lparr>libcheckEnabled := True\<rparr>) s)"

definition dmemUsable :: "files \<Rightarrow> (string \<Rightarrow> bool) \<Rightarrow> bool" where
  "dmemUsable fs isDir = Usable fs isDir DefaultCgroupRoot"

text \<open>The environment variables are \<open>None\<close> when unset; \<open>splitCount\<close>, \<open>memoryScaling\<close> and
  \<open>reportNodeCapacity\<close> are package variables, here kept with the plugin.\<close>

definition fresh_service :: "int \<Rightarrow> rat \<Rightarrow> bool \<Rightarrow> service" where
  "fresh_service split scaling report =
     \<lparr>SV_reg = \<lparr>RS_plugin = \<lparr>AMDGPUs = [], deviceCache = [], operatingMode = ''cu'', cdiSpecDir = [],
                  amdSMIUUIDToTopology = [], amdSMIUUIDToROCrUUID = [], rocrUUIDToTopology = [], sortedBDFs = [],
                  bdfToROCrUUID = [], sysfsRoot = [], dmemEnabled = False, hipLogLevel = 0, dmemCgroupRoot = [],
                  libcheckEnabled = False, splitCount = split, memoryScaling = scaling\<rparr>,
                RS_lastCapacity = [], RS_gpuStates = None\<rparr>,
      SV_Resource = [], SV_computePartition = [], SV_policy = NewBestEffortPolicy, SV_allocatorInitError = False,
      SV_reportNodeCapacity = report\<rparr>"

definition NewAMDGPUPlugin :: "string option \<Rightarrow> string option \<Rightarrow> plugin_option list \<Rightarrow> service \<Rightarrow> service" where
  "NewAMDGPUPlugin operating partition1 options fresh =
     (let s1 = (if str_of operating \<noteq> [] then on_plugin (\<lambda>p. p\<lparr>operatingMode := str_of operating\<rparr>) fresh else fresh);
          s2 = (if str_of partition1 \<noteq> [] then s1\<lparr>SV_computePartition := str_of partition1\<rparr> else s1)
      in fold (\<lambda>option. option) options s2)"

definition lister_policy :: "lister \<Rightarrow> BestEffortPolicy" where
  "lister_policy l = (case NewPolicy (AllocatorPolicyName l) of Inl _ \<Rightarrow> NewBestEffortPolicy | Inr b \<Rightarrow> b)"

definition NewPlugin ::
  "lister \<Rightarrow> string option \<Rightarrow> string option \<Rightarrow> files \<Rightarrow> (string \<Rightarrow> bool) \<Rightarrow> string \<Rightarrow> service" where
  "NewPlugin l operating partition1 fs isDir resourceLastName =
     NewAMDGPUPlugin operating partition1
       [WithResource resourceLastName, WithAllocator (lister_policy l), WithCDISpecDir (CDISpecDir l),
        WithDmemBackend (DmemBackend l \<and> dmemUsable fs isDir), WithHipLogLevel (HipLogLevel l),
        WithMuslFailClosed (MuslFailClosed l)]
       (fresh_service (if SplitCount l > 0 then SplitCount l else 0)
          (if DeviceMemoryScaling l > 0 then DeviceMemoryScaling l else 1) (ReportNodeCapacity l))"

section \<open>Start\<close>

definition operatingModeAnnotation :: string where "operatingModeAnnotation = ''hami.io/amd-operating-mode''"
definition computePartitionAnnotation :: string where "computePartitionAnnotation = ''hami.io/amd-compute-partition''"

definition annotated :: "(kube_error, Node) result \<Rightarrow> string \<Rightarrow> string \<Rightarrow> string" where
  "annotated node key old =
     (case node of
        Inl _ \<Rightarrow> old
      | Inr n \<Rightarrow> if str_of (map_of (NAnnotations n) key) \<noteq> [] then str_of (map_of (NAnnotations n) key) else old)"

definition start_mode :: "(kube_error, Node) result \<Rightarrow> string \<Rightarrow> string" where
  "start_mode node old =
     (let mode = annotated node operatingModeAnnotation old in
      if mode \<noteq> ''cu'' \<and> mode \<noteq> ''partition'' then ''cu'' else mode)"

definition flip_targets :: "gpu_map \<Rightarrow> string \<Rightarrow> string list" where
  "flip_targets gpus target =
     List.map_filter (\<lambda>(key, d).
       if d_computePartitionFixed d = Some True then None
       else if str_of (d_devID d) \<noteq> [] \<and> \<not> EqualFold (str_of (d_computePartitionType d)) target
            then Some (str_of (d_devID d)) else None) gpus"

text \<open>\<open>None\<close> is the panic of an unchecked type assertion.\<close>

definition allocator_device :: "string \<Rightarrow> device_data \<Rightarrow> Device option" where
  "allocator_device kid d =
     (case (d_card d, d_renderD d, d_devID d, d_computePartitionType d, d_memoryPartitionType d, d_nodeId d, d_numaNode d) of
        (Some card1, Some renderD, Some devID, Some ct, Some mt, Some node, Some numa) \<Rightarrow>
          Some \<lparr>Dev_Id = kid, NodeId = node, NumaNode = numa, DevId = devID, Card = card1, RenderD = renderD,
                ComputePartitionType = ct, MemoryPartitionType = mt\<rparr>
      | _ \<Rightarrow> None)"

fun all_some :: "'a option list \<Rightarrow> 'a list option" where
  "all_some [] = Some []"
| "all_some (None # xs) = None"
| "all_some (Some x # xs) = map_option ((#) x) (all_some xs)"

definition getDevices :: "plugin \<Rightarrow> files \<Rightarrow> gpu_map \<Rightarrow> Device list option" where
  "getDevices p fs devices =
     all_some (concat (map (\<lambda>(key, d).
       if isSchedulableTopologyKey p key d (xcpParents devices)
       then map (\<lambda>kid. allocator_device kid d) (kubeletIDs p fs key d) else []) devices))"

text \<open>What \<open>Start\<close> reads: the GPUs before the flips, the AMD SMI library, and the node after them.\<close>

record start_view =
  SW_gpus :: gpu_map
  SW_smi :: smi
  SW_sockets :: "string \<Rightarrow> int"
  SW_view :: node_view

datatype start_error = StartPanic | StartRegister kube_error

definition start_flips :: "string \<Rightarrow> string \<Rightarrow> start_view \<Rightarrow> (string \<times> int) list \<times> string list" where
  "start_flips mode target v =
     (if mode = ''partition'' \<and> target \<noteq> []
      then SetGPUComputePartitions (SW_smi v) (SW_sockets v) (flip_targets (SW_gpus v) target) target
      else ([], []))"

text \<open>The result of the run, the flips it sent, and the plugin after it.\<close>

definition Start ::
  "'w registrar \<Rightarrow> string \<Rightarrow> start_view \<Rightarrow> service \<Rightarrow> 'w
     \<Rightarrow> (start_error, unit) result \<times> (string \<times> int) list \<times> service \<times> 'w" where
  "Start reg nodeName v s w =
     (case GetNode (rApi reg) nodeName w of
        (node, w1) \<Rightarrow>
          (let p = RS_plugin (SV_reg s);
               mode = start_mode node (operatingMode p);
               target = annotated node computePartitionAnnotation (SV_computePartition s);
               p1 = p\<lparr>operatingMode := mode\<rparr>;
               s1 = s\<lparr>SV_reg := (SV_reg s)\<lparr>RS_plugin := p1\<rparr>, SV_computePartition := target\<rparr>;
               flips = fst (start_flips mode target v);
               view = SW_view v
           in case getDevices p1 (V_files view) (V_gpus view) of
                None \<Rightarrow> (Inl StartPanic, flips, s1, w1)
              | Some devs \<Rightarrow>
                  (case Init (V_files view) (V_glob view) (SV_policy s) devs [] of
                     (policy, r) \<Rightarrow>
                       (let s2 = s1\<lparr>SV_policy := policy,
                              SV_allocatorInitError := (case r of Inl _ \<Rightarrow> True | Inr _ \<Rightarrow> SV_allocatorInitError s)\<rparr>
                        in case RegisterInAnnotation reg (SV_reportNodeCapacity s) nodeName view (SV_reg s2) w1 of
                             (Inl e, st, w2) \<Rightarrow> (Inl (StartRegister e), flips, s2\<lparr>SV_reg := st\<rparr>, w2)
                           | (Inr _, st, w2) \<Rightarrow> (Inr (), flips, s2\<lparr>SV_reg := st\<rparr>, w2)))))"

section \<open>Serving\<close>

text \<open>Whether kubelet may ask for a preferred allocation.\<close>

definition GetDevicePluginOptions :: "service \<Rightarrow> bool" where
  "GetDevicePluginOptions s = (\<not> SV_allocatorInitError s)"

section \<open>The CDI spec (cdi.go)\<close>

definition json_nl :: "nat \<Rightarrow> string" where
  "json_nl depth = CHR 0x0A # concat (replicate depth ''  '')"

text \<open>\<open>json.MarshalIndent\<close> with two spaces.\<close>

fun json_indent :: "nat \<Rightarrow> json \<Rightarrow> string" where
  "json_indent depth (JArr vs) =
     (if vs = [] then ''[]''
      else ''['' @ json_nl (Suc depth) @ Join (map (json_indent (Suc depth)) vs) ('','' @ json_nl (Suc depth))
        @ json_nl depth @ '']'')"
| "json_indent depth (JObj ms) =
     (if ms = [] then ''{}''
      else ''{'' @ json_nl (Suc depth)
        @ Join (map (\<lambda>(k, v). json_quote k @ '': '' @ json_indent (Suc depth) v) ms) ('','' @ json_nl (Suc depth))
        @ json_nl depth @ ''}'')"
| "json_indent depth v = json_text v"

definition cdi_edits :: "string list \<Rightarrow> json" where
  "cdi_edits paths = JObj [(''deviceNodes'', JArr (map (\<lambda>p. JObj [(''path'', JStr p)]) paths))]"

definition cdi_device :: "device_data \<Rightarrow> json option" where
  "cdi_device d =
     (case (d_card d, d_renderD d) of
        (Some card1, Some renderD) \<Rightarrow>
          Some (JObj [(''name'', JStr (''card'' @ Itoa card1)),
            (''containerEdits'', cdi_edits [''/dev/dri/card'' @ Itoa card1, ''/dev/dri/renderD'' @ Itoa renderD])])
      | _ \<Rightarrow> None)"

text \<open>A list that was never appended to is written as \<open>null\<close>.\<close>

definition cdi_spec :: "gpu_map \<Rightarrow> json option" where
  "cdi_spec gpus =
     map_option (\<lambda>devices. JObj [(''cdiVersion'', JStr ''0.6.0''), (''kind'', JStr ''amd.com/gpu''),
         (''devices'', if devices = [] then JNull else JArr devices), (''containerEdits'', cdi_edits [''/dev/kfd''])])
       (all_some (map (\<lambda>(key, d). cdi_device d) gpus))"

text \<open>
  The file system as far as the spec goes: the file at the target path and the temporary file, and an
  oracle that says which operation fails (a failed write leaves the first \<open>written\<close> bytes). The
  deferred \<open>Remove\<close> deletes the temporary file on every exit after its creation.
\<close>

datatype cdi_op = CMkdir | CCreate | CWrite | CClose | CChmod | CRename

definition cdi_target :: "string \<Rightarrow> string" where
  "cdi_target dir = path_Join [dir, ''amd.com-gpu.json'']"

fun publish_spec ::
  "(cdi_op \<Rightarrow> bool) \<Rightarrow> nat \<Rightarrow> string \<Rightarrow> string \<Rightarrow> string \<Rightarrow> cdi_op list \<Rightarrow> (string \<rightharpoonup> string) \<Rightarrow> bool \<times> (string \<rightharpoonup> string) list" where
  "publish_spec fails written tmp target content [] fs = (True, [fs(tmp := None)])"
| "publish_spec fails written tmp target content (oper # opers) fs =
     (if fails oper then
        (False, (case oper of
                   CMkdir \<Rightarrow> [fs]
                 | CCreate \<Rightarrow> [fs]
                 | CWrite \<Rightarrow> [fs(tmp \<mapsto> take written content), fs(tmp := None)]
                 | _ \<Rightarrow> [fs(tmp := None)]))
      else
        (let fs' = (case oper of
                      CCreate \<Rightarrow> fs(tmp \<mapsto> [])
                    | CWrite \<Rightarrow> fs(tmp \<mapsto> content)
                    | CRename \<Rightarrow> (case fs tmp of None \<Rightarrow> fs | Some x \<Rightarrow> (fs(tmp := None))(target \<mapsto> x))
                    | _ \<Rightarrow> fs)
         in apsnd ((#) fs') (publish_spec fails written tmp target content opers fs')))"

text \<open>Whether the spec was published, and the files after each operation.\<close>

definition writeCDISpec ::
  "(cdi_op \<Rightarrow> bool) \<Rightarrow> nat \<Rightarrow> string \<Rightarrow> string \<Rightarrow> gpu_map \<Rightarrow> (string \<rightharpoonup> string) \<Rightarrow> bool \<times> (string \<rightharpoonup> string) list" where
  "writeCDISpec fails written tmp dir gpus fs =
     (case cdi_spec gpus of
        None \<Rightarrow> (False, [fs])
      | Some spec \<Rightarrow>
          publish_spec fails written tmp (cdi_target dir) (json_indent 0 spec)
            [CMkdir, CCreate, CWrite, CClose, CChmod, CRename] fs)"

text \<open>C30: a container runtime never reads a partial CDI spec. Whatever operation fails, at every moment the spec
  file is either the one that was there before or the complete new one; when all succeed the directory
  ends with the new spec and nothing else changed, and after a failure it is as before.\<close>

theorem cdi_spec_whole:
  assumes "cdi_spec gpus = Some spec" "tmp \<noteq> cdi_target dir" "fs tmp = None"
    and "writeCDISpec fails written tmp dir gpus fs = (ok, states)"
  shows "(\<forall>g \<in> set states. g (cdi_target dir) = fs (cdi_target dir) \<or> g (cdi_target dir) = Some (json_indent 0 spec))
    \<and> last states = (if ok then fs(cdi_target dir \<mapsto> json_indent 0 spec) else fs)"
proof -
  have "fs(tmp := None) = fs" using assms(3) by auto
  then show ?thesis
    using assms(2,3) assms(4) [symmetric] fun_upd_twist [OF assms(2)]
    by (cases "fails CMkdir"; cases "fails CCreate"; cases "fails CWrite"; cases "fails CClose"; cases "fails CChmod";
        cases "fails CRename") (simp_all add: writeCDISpec_def assms(1) Let_def)
qed

section \<open>ListAndWatch\<close>

text \<open>The plugin that serves, the files after it, and the first list sent to kubelet; \<open>serveDevices\<close> goes on
  from there.\<close>

definition ListAndWatch ::
  "(cdi_op \<Rightarrow> bool) \<Rightarrow> nat \<Rightarrow> string \<Rightarrow> files \<Rightarrow> gpu_map \<Rightarrow> service \<Rightarrow> (string \<rightharpoonup> string)
     \<Rightarrow> (service \<times> kubelet_device list) option \<times> (string \<rightharpoonup> string)" where
  "ListAndWatch fails written tmp fs gpus s disk =
     (let p = (RS_plugin (SV_reg s))\<lparr>AMDGPUs := gpus\<rparr>;
          written1 = (if cdiSpecDir p = [] then (True, [disk]) else writeCDISpec fails written tmp (cdiSpecDir p) gpus disk);
          p1 = (if fst written1 then p else p\<lparr>cdiSpecDir := []\<rparr>);
          s1 = s\<lparr>SV_reg := (SV_reg s)\<lparr>RS_plugin := p1\<rparr>\<rparr>
      in (case IsHomogeneous gpus of
            None \<Rightarrow> None
          | Some homogeneous \<Rightarrow>
              map_option (\<lambda>devs. (s1, devs)) (kubeletDevices p1 fs gpus homogeneous (SV_Resource s)), last (snd written1)))"

theorem cdi_spec_whole_witness:
  "\<exists>spec ok states. writeCDISpec (\<lambda>oper. oper = CRename) 3 ''tmp'' ''/cdi'' [] Map.empty = (ok, states) \<and> cdi_spec [] = Some spec
    \<and> \<not> ok \<and> last states = Map.empty"
proof -
  have spec: "\<exists>spec. cdi_spec [] = Some spec" by (simp add: cdi_spec_def)
  then obtain spec where s: "cdi_spec [] = Some spec" by blast
  have tmp: "''tmp'' \<noteq> cdi_target ''/cdi''" by (simp add: cdi_target_def path_eval)
  obtain states where r: "writeCDISpec (\<lambda>oper. oper = CRename) 3 ''tmp'' ''/cdi'' [] Map.empty = (False, states)"
    by (simp add: writeCDISpec_def s Let_def)
  from cdi_spec_whole [OF s tmp _ r] r s show ?thesis by auto
qed

section \<open>What Start configures\<close>

lemma start_flips_sound:
  "set (map fst (fst (start_flips mode target v))) \<subseteq> {b. mode = ''partition'' \<and>
     (\<exists>key d. (key, d) \<in> set (SW_gpus v) \<and> d_computePartitionFixed d \<noteq> Some True
        \<and> \<not> EqualFold (str_of (d_computePartitionType d)) target \<and> b = normalizeBDF (raw_bdf (str_of (d_devID d))))}"
proof (cases "mode = ''partition'' \<and> target \<noteq> []")
  case True
  let ?bs = "flip_targets (SW_gpus v) target"
  obtain flips failures where f: "SetGPUComputePartitions (SW_smi v) (SW_sockets v) ?bs target = (flips, failures)" by fastforce
  have "set (map fst flips) \<subseteq> (\<lambda>b. normalizeBDF (raw_bdf b)) ` set ?bs"
    using f set_loop_spec [where c = "SW_smi v" and k = "SW_sockets v" and computeType = target and seen = "[]" and bdfs = ?bs]
    by (auto simp: SetGPUComputePartitions_def split: if_splits prod.splits)
  moreover have "set ?bs \<subseteq> {str_of (d_devID d) | d. \<exists>key. (key, d) \<in> set (SW_gpus v)
      \<and> d_computePartitionFixed d \<noteq> Some True \<and> \<not> EqualFold (str_of (d_computePartitionType d)) target}"
    by (auto simp: flip_targets_def List.map_filter_def split: if_splits)
  ultimately have "set (map fst flips) \<subseteq> {normalizeBDF (raw_bdf (str_of (d_devID d))) | d. \<exists>key. (key, d) \<in> set (SW_gpus v)
      \<and> d_computePartitionFixed d \<noteq> Some True \<and> \<not> EqualFold (str_of (d_computePartitionType d)) target}" by fast
  moreover have "fst (start_flips mode target v) = flips" using True f by (simp add: start_flips_def)
  ultimately show ?thesis using True by blast
qed (auto simp: start_flips_def)

lemma RegisterInAnnotation_mode:
  "RegisterInAnnotation reg cap n view st w = (r, st', w') \<Longrightarrow> operatingMode (RS_plugin st') = operatingMode (RS_plugin st)"
  by (auto simp: RegisterInAnnotation_def getAPIDevices_def Let_def publish_def split: prod.splits sum.splits)

text \<open>\<open>Start\<close> only flips what has to be flipped. Whatever the node annotation and the environment say, the
  plugin ends in one of the two operating modes, and every compute partition it flips belongs, in
  partition mode, to a GPU of the node that can change its partition and is not in the wanted one.\<close>

theorem start_flips_needed:
  "case Start reg nodeName v s w of (r, flips, s', w') \<Rightarrow>
     operatingMode (RS_plugin (SV_reg s')) \<in> {''cu'', ''partition''}
     \<and> set (map fst flips) \<subseteq> {b. operatingMode (RS_plugin (SV_reg s')) = ''partition'' \<and>
         (\<exists>key d. (key, d) \<in> set (SW_gpus v) \<and> d_computePartitionFixed d \<noteq> Some True
            \<and> \<not> EqualFold (str_of (d_computePartitionType d)) (SV_computePartition s')
            \<and> b = normalizeBDF (raw_bdf (str_of (d_devID d))))}"
proof -
  obtain r flips s' w' where run: "Start reg nodeName v s w = (r, flips, s', w')" by (metis prod_cases4)
  obtain node w1 where node: "GetNode (rApi reg) nodeName w = (node, w1)" by fastforce
  define mode where "mode = start_mode node (operatingMode (RS_plugin (SV_reg s)))"
  define target where "target = annotated node computePartitionAnnotation (SV_computePartition s)"
  have "flips = fst (start_flips mode target v) \<and> operatingMode (RS_plugin (SV_reg s')) = mode \<and> SV_computePartition s' = target"
    using run unfolding Start_def node Let_def prod.case mode_def [symmetric] target_def [symmetric]
    by (auto split: option.splits prod.splits sum.splits dest!: RegisterInAnnotation_mode)
  moreover have "mode \<in> {''cu'', ''partition''}" by (auto simp: mode_def start_mode_def Let_def)
  ultimately show ?thesis using start_flips_sound [of mode target v] run by simp
qed

end
