(* ===== verification/Offered.thy ===== *)
theory Offered
  imports Service
begin

text \<open>
  What the parts of the plugin say of the same node: the resources that \<open>main\<close> announces, the devices
  that each of them lists to kubelet, and the devices the allocator of preferred allocations is set up with.
\<close>

section \<open>Types and counts\<close>

definition entry_type :: "device_data \<Rightarrow> string" where
  "entry_type d = (if d_computePartitionFixed d = Some True then []
     else str_of (d_computePartitionType d) @ ''_'' @ str_of (d_memoryPartitionType d))"

definition typed :: "device_data \<Rightarrow> bool" where
  "typed d \<longleftrightarrow> d_computePartitionFixed d \<noteq> Some True \<and> str_of (d_computePartitionType d) \<noteq> []
     \<and> str_of (d_memoryPartitionType d) \<noteq> []"

lemma kubeletIDs_nonempty: "kubeletIDs p fs key d \<noteq> []"
  using splitCountFor_pos [of "splitCount p" fs "kfdNodesDir p" "int_of (d_nodeId d)"]
  by (simp add: kubeletIDs_def Let_def)

lemma device_entry_type:
  "device_entry p fs key d = Some (ty, devs) \<Longrightarrow> ty = entry_type d \<and> devs \<noteq> []"
  using kubeletIDs_nonempty [of p fs key d]
  by (auto simp: device_entry_def entry_type_def split: option.splits)

lemma devices_by_type_keys:
  assumes "devices_by_type p fs parents gpus m = Some m'"
  shows "fst ` set m' = fst ` set m \<union> (entry_type \<circ> snd) ` set (schedulable p parents gpus)"
  using assms
proof (induction p fs parents gpus m rule: devices_by_type.induct)
  case (1 p fs parents m)
  then show ?case by (simp add: schedulable_def)
next
  case (2 p fs parents key d gpus m)
  show ?case
  proof (cases "isSchedulableTopologyKey p key d parents")
    case False
    with 2 show ?thesis by (simp add: schedulable_def)
  next
    case True
    then obtain ty devs where e: "device_entry p fs key d = Some (ty, devs)"
      using 2(3) by (auto split: option.splits)
    note ty = device_entry_type [OF e]
    let ?m = "assoc_update ty ((case map_of m ty of None \<Rightarrow> [] | Some ds \<Rightarrow> ds) @ devs) m"
    have "devices_by_type p fs parents gpus ?m = Some m'" using 2(3) True e ty by simp
    with 2(2) [of "(ty, devs)" ty devs] True e ty
    have "fst ` set m' = fst ` set ?m \<union> (entry_type \<circ> snd) ` set (schedulable p parents gpus)" by simp
    then show ?thesis using True ty by (auto simp: keys_assoc_update schedulable_def)
  qed
qed

definition counted :: "gpu_map \<Rightarrow> string set" where
  "counted gpus = {entry_type d | key d. (key, d) \<in> set gpus \<and> typed d}"

lemma UniquePartitionConfigCount_keys:
  assumes "UniquePartitionConfigCount gpus counts = Some counts'" "distinct (map fst counts)" "\<forall>(t, c) \<in> set counts. 0 < c"
  shows "distinct (map fst counts') \<and> (\<forall>(t, c) \<in> set counts'. 0 < c) \<and> fst ` set counts' = fst ` set counts \<union> counted gpus"
  using assms
proof (induction gpus arbitrary: counts)
  case Nil
  then show ?case by (simp add: counted_def)
next
  case (Cons g gpus)
  obtain key d where g: "g = (key, d)" by (cases g)
  obtain counts1 where c1: "count_partition d counts = Some counts1" and rest: "UniquePartitionConfigCount gpus counts1 = Some counts'"
    using Cons.prems(1) by (auto simp: g bind_eq_Some_conv)
  have step: "counts1 = counts \<and> \<not> typed d \<or> (\<exists>n. counts1 = assoc_update (entry_type d) (Suc n) counts) \<and> typed d"
    using c1 by (auto simp: count_partition_def typed_def entry_type_def split: option.splits if_splits)
  have one: "distinct (map fst counts1) \<and> (\<forall>(t, c) \<in> set counts1. 0 < c)
      \<and> fst ` set counts1 = fst ` set counts \<union> (if typed d then {entry_type d} else {})"
  proof (cases "typed d")
    case True
    then obtain n where "counts1 = assoc_update (entry_type d) (Suc n) counts" using step by blast
    with True Cons.prems(2,3) show ?thesis
      by (auto simp: distinct_assoc_update keys_assoc_update dest!: assoc_update_mem)
  qed (use step Cons.prems(2,3) in auto)
  have "counted (g # gpus) = (if typed d then {entry_type d} else {}) \<union> counted gpus" by (auto simp: counted_def g)
  with Cons.IH [OF rest] one show ?case by auto
qed

lemma mset_concat_lookup:
  assumes "distinct (map fst m)" "mset rs = mset (map fst m)"
  shows "mset (concat (map (\<lambda>r. case map_of m r of Some v \<Rightarrow> v | None \<Rightarrow> d r) rs)) = mset (concat (map snd m))"
proof -
  let ?f = "\<lambda>r. case map_of m r of Some v \<Rightarrow> v | None \<Rightarrow> d r"
  have "mset (concat (map ?f rs)) = (\<Sum>r \<in># mset rs. mset (?f r))"
    by (simp add: mset_concat o_def flip: sum_mset_sum_list)
  also have "\<dots> = mset (concat (map ?f (map fst m)))"
    by (simp add: assms(2) mset_concat o_def multiset.map_comp flip: sum_mset_sum_list)
  also have "map ?f (map fst m) = map snd m"
    using assms(1) by (auto simp: map_of_is_SomeI)
  finally show ?thesis .
qed

section \<open>The ids offered\<close>

definition schedulable_ids :: "plugin \<Rightarrow> files \<Rightarrow> gpu_map \<Rightarrow> string list" where
  "schedulable_ids p fs gpus =
     concat (map (\<lambda>(k, d). kubeletIDs p fs k d) (schedulable p (xcpParents gpus) gpus))"

text \<open>Every partition has the address and the types of a GPU, and no two GPUs share an address.\<close>

definition alike :: "gpu_map \<Rightarrow> bool" where
  "alike gpus \<longleftrightarrow>
     (\<forall>(x, d) \<in> set gpus. is_xcp x \<longrightarrow> (\<exists>(k, g) \<in> set gpus. \<not> is_xcp k \<and> agrees d g))
     \<and> (\<forall>(x, d) \<in> set gpus. \<forall>(k, g) \<in> set gpus. is_xcp x \<and> \<not> is_xcp k \<and> d_devID d = d_devID g \<longrightarrow> agrees d g)"

lemma schedulable_type:
  assumes "alike gpus" "complete_map gpus" "\<forall>(k, d) \<in> set gpus. d_computePartitionFixed d \<noteq> Some True" "(key, d) \<in> set gpus"
  shows "entry_type d \<in> (entry_type \<circ> snd) ` set (schedulable p (xcpParents gpus) gpus)"
proof -
  have same: "entry_type g = entry_type d'" if "agrees d' g" "(x, d') \<in> set gpus" "(k, g) \<in> set gpus" for d' g x k
    using that assms(3) by (fastforce simp: entry_type_def agrees_def)
  have found: ?thesis if "(k, g) \<in> set gpus" "isSchedulableTopologyKey p k g (xcpParents gpus)" "entry_type g = entry_type d" for k g
    using that by (force simp: schedulable_def)
  show ?thesis
  proof (cases "isSchedulableTopologyKey p key d (xcpParents gpus)")
    case True
    then show ?thesis using found [OF assms(4)] by simp
  next
    case False
    show ?thesis
    proof (cases "is_xcp key")
      case True
      then have cu: "operatingMode p \<noteq> ''partition''" using False by (simp add: isSchedulableTopologyKey_def)
      obtain k g where g: "(k, g) \<in> set gpus" "\<not> is_xcp k" "agrees d g"
        using assms(1,4) True unfolding alike_def by fast
      then have "isSchedulableTopologyKey p k g (xcpParents gpus)" using cu by (simp add: isSchedulableTopologyKey_def)
      then show ?thesis using found [OF g(1)] same [OF g(3) assms(4) g(1)] by simp
    next
      case pci: False
      then have mode: "operatingMode p = ''partition''" "str_of (d_devID d) \<in> xcpParents gpus"
        using False by (auto simp: isSchedulableTopologyKey_def split: if_splits)
      then obtain x e where e: "(x, e) \<in> set gpus" "is_xcp x" "str_of (d_devID e) = str_of (d_devID d)"
        by (auto simp: xcpParents_def)
      have "has_fields e" "has_fields d" using assms(2,4) e(1) unfolding complete_map_def by blast+
      then have "d_devID e = d_devID d" using e(3) by (auto simp: has_fields_def)
      then have "agrees e d" using assms(1,4) e pci unfolding alike_def by fast
      then show ?thesis using found [OF e(1)] same [OF _ e(1) assms(4)] e(2) mode(1)
        by (simp add: isSchedulableTopologyKey_def)
    qed
  qed
qed

lemma offered_all:
  assumes m: "devices_by_type p fs (xcpParents gpus) gpus [] = Some m"
  shows "mset (map KID (concat (map snd m))) = mset (schedulable_ids p fs gpus)"
  using devices_by_type_mset [OF m] by (simp add: all_ids_def schedulable_ids_def)

lemma offered_by_type:
  assumes m: "devices_by_type p fs (xcpParents gpus) gpus [] = Some m"
    and rs: "distinct rs" "set rs = fst ` set m"
  shows "mset (map KID (concat (map (devicesForResource m) rs))) = mset (schedulable_ids p fs gpus)"
proof -
  have d: "distinct (map fst m)" using devices_by_type_mset [OF m] by simp
  have "mset rs = mset (map fst m)"
    using rs d by (metis list.set_map set_eq_iff_mset_eq_distinct)
  then have "mset (concat (map (devicesForResource m) rs)) = mset (concat (map snd m))"
    using mset_concat_lookup [OF d, of rs "\<lambda>_. concat (map snd m)"]
    by (simp add: devicesForResource_def [abs_def] option.case_eq_if)
  then show ?thesis using offered_all [OF m] by (metis mset_map)
qed

lemma all_some_map: "all_some (map (\<lambda>x. Some (f x)) xs) = Some (map f xs)"
  by (induction xs) auto

lemma all_some_append: "all_some (xs @ ys) = (case all_some xs of None \<Rightarrow> None | Some a \<Rightarrow> map_option ((@) a) (all_some ys))"
  by (cases "all_some ys"; induction xs rule: all_some.induct) (auto split: option.splits)

lemma getDevices_ids_gen:
  assumes "\<forall>(key, d) \<in> set gs. has_fields d"
  shows "\<exists>devs. all_some (concat (map (\<lambda>(key, d). if isSchedulableTopologyKey p key d parents
       then map (\<lambda>kid. allocator_device kid d) (kubeletIDs p fs key d) else []) gs)) = Some devs
    \<and> map Dev_Id devs = concat (map (\<lambda>(k, d). kubeletIDs p fs k d) (schedulable p parents gs))"
  using assms
proof (induction gs)
  case (Cons g gs)
  obtain key d where g: "g = (key, d)" by (cases g)
  obtain devs where IH: "all_some (concat (map (\<lambda>(key, d). if isSchedulableTopologyKey p key d parents
       then map (\<lambda>kid. allocator_device kid d) (kubeletIDs p fs key d) else []) gs)) = Some devs"
    "map Dev_Id devs = concat (map (\<lambda>(k, d). kubeletIDs p fs k d) (schedulable p parents gs))"
    using Cons by auto
  have "\<exists>f. (\<forall>kid. allocator_device kid d = Some (f kid) \<and> Dev_Id (f kid) = kid)"
    using Cons.prems by (auto simp: g has_fields_def allocator_device_def)
  then obtain f where "\<And>kid. allocator_device kid d = Some (f kid)" "\<And>kid. Dev_Id (f kid) = kid" by blast
  then show ?case using IH by (simp add: g schedulable_def all_some_append all_some_map o_def)
qed (simp add: schedulable_def)

lemma getDevices_ids:
  "complete_map gpus \<Longrightarrow> \<exists>devs. getDevices p fs gpus = Some devs \<and> map Dev_Id devs = schedulable_ids p fs gpus"
  using getDevices_ids_gen [of gpus p "xcpParents gpus" fs] by (simp add: getDevices_def schedulable_ids_def complete_map_def)


section \<open>Samples\<close>

definition typed_gpu :: "int \<Rightarrow> string \<Rightarrow> device_data" where
  "typed_gpu c ct = \<lparr>d_card = Some c, d_renderD = Some (128 + c), d_devID = Some (''dev'' @ Itoa c),
     d_computePartitionType = Some ct, d_memoryPartitionType = Some ''nps1'', d_computePartitionFixed = Some False,
     d_numaNode = Some 0, d_nodeId = Some c\<rparr>"

lemma typed_gpu_fields [simp]:
  "has_fields (typed_gpu c ct)" "d_computePartitionFixed (typed_gpu c ct) = Some False"
  "typed (typed_gpu c ct) \<longleftrightarrow> ct \<noteq> []"
  by (simp_all add: typed_gpu_def has_fields_def typed_def)


text \<open>A GPU without partition modes is counted with no type, so it does not make the node heterogeneous; its ids
  are the only ones under the empty type that a homogeneous node asks for, and hide all other GPUs.\<close>

theorem fixed_gpu_hides_others:
  "let gpus = [(''a'', typed_gpu 0 ''spx''), (''b'', (typed_gpu 1 ''spx'')\<lparr>d_computePartitionFixed := Some True\<rparr>)];
       p = (sample_plugin ''cu'')\<lparr>splitCount := 1\<rparr> in
   IsHomogeneous gpus = Some True \<and> resourceNames StrategySingle gpus = Some [''gpu'']
   \<and> map_option (map KID) (kubeletDevices p (\<lambda>_. None) gpus True ''gpu'') = Some [''b#'' @ Itoa 0]
   \<and> schedulable_ids p (\<lambda>_. None) gpus = [''a#'' @ Itoa 0, ''b#'' @ Itoa 0]"
  by (simp add: IsHomogeneous_def resourceNames_def count_partition_def typed_gpu_def kubeletDevices_def sample_plugin_def
      isSchedulableTopologyKey_def is_xcp_def HasPrefix_def xcpParents_def device_entry_def kubeletIDs_def hardPartitionType_def
      devicesForResource_def schedulable_ids_def schedulable_def splitCountFor_def Let_def)

text \<open>Under the mixed strategy a GPU without a partition type is listed for no resource of a heterogeneous node.\<close>

theorem untyped_gpu_unlisted:
  "let gpus = [(''a'', typed_gpu 0 ''spx''), (''b'', typed_gpu 1 ''cpx''), (''c'', typed_gpu 2 [])];
       p = (sample_plugin ''cu'')\<lparr>splitCount := 1\<rparr> in
   resourceNames StrategyMixed gpus = Some [''spx_nps1'', ''cpx_nps1'']
   \<and> all_some (map (\<lambda>r. map_option (map KID) (kubeletDevices p (\<lambda>_. None) gpus False r)) [''spx_nps1'', ''cpx_nps1''])
     = Some [[''a#'' @ Itoa 0], [''b#'' @ Itoa 0]]
   \<and> schedulable_ids p (\<lambda>_. None) gpus = [''a#'' @ Itoa 0, ''b#'' @ Itoa 0, ''c#'' @ Itoa 0]"
  by (simp add: IsHomogeneous_def resourceNames_def count_partition_def typed_gpu_def kubeletDevices_def sample_plugin_def
      isSchedulableTopologyKey_def is_xcp_def HasPrefix_def xcpParents_def device_entry_def kubeletIDs_def hardPartitionType_def
      devicesForResource_def schedulable_ids_def schedulable_def splitCountFor_def Let_def)

end
