(* ===== verification/Preferred.thy ===== *)
theory Preferred
  imports AllocatorPolicy Offered
begin

text \<open>
  The contract of the \<open>Policy\<close> interface of \<open>internal/pkg/allocator/allocator.go\<close>, what
  \<open>GetPreferredAllocation\<close> of \<open>plugin.go\<close> makes of it, and the policies that meet it; with \<open>Offered.thy\<close>, the way of
  an id from the list sent to kubelet to the answer.
\<close>

section \<open>The contract\<close>

text \<open>An answer that kubelet can use.\<close>

definition answers :: "string list \<Rightarrow> string list \<Rightarrow> int \<Rightarrow> string list \<Rightarrow> bool" where
  "answers available must n out \<longleftrightarrow> distinct out \<and> int (length out) = n \<and> set must \<subseteq> set out \<and> set out \<subseteq> set available"

definition answers_request :: "preferred_request \<Rightarrow> string list \<Rightarrow> bool" where
  "answers_request req = answers (AvailableDeviceIDs req) (MustIncludeDeviceIDs req) (AllocationSize req)"

locale allocation_policy =
  fixes allocate :: "string list \<Rightarrow> string list \<Rightarrow> int \<Rightarrow> ('e, string list) result"
    and proper :: "string list \<Rightarrow> string list \<Rightarrow> int \<Rightarrow> bool"
  assumes served: "proper available must n \<Longrightarrow> \<exists>out. allocate available must n = Inr out \<and> answers available must n out"
begin

lemma one_served:
  assumes "proper (AvailableDeviceIDs req) (MustIncludeDeviceIDs req) (AllocationSize req)"
  shows "\<exists>ids. preferred_one allocate req = Some ids \<and> answers_request req ids"
  using served [OF assms] by (auto simp: preferred_one_def answers_request_def)

lemma requests_served:
  assumes "\<forall>req \<in> set reqs. proper (AvailableDeviceIDs req) (MustIncludeDeviceIDs req) (AllocationSize req)"
  shows "\<exists>out. GetPreferredAllocation allocate reqs = Some out \<and> list_all2 answers_request reqs out"
  using assms
proof (induction reqs)
  case (Cons req reqs)
  then obtain out where out: "GetPreferredAllocation allocate reqs = Some out" "list_all2 answers_request reqs out" by auto
  obtain ids where "preferred_one allocate req = Some ids" "answers_request req ids"
    using one_served [of req] Cons.prems by auto
  with out show ?case by simp
qed simp

end

section \<open>The policies\<close>

text \<open>Both policies are prepared by \<open>Init\<close>; the orders are those that \<open>sort.Slice\<close> may leave.\<close>

definition prepared ::
  "(Device list \<Rightarrow> Device list) \<Rightarrow> (DevicePartitions list \<Rightarrow> DevicePartitions list) \<Rightarrow> BestEffortPolicy \<Rightarrow> Device list \<Rightarrow> bool" where
  "prepared sortAvail sortParts b devs \<longleftrightarrow> ready b devs \<and> reorders sortAvail \<and> reorders sortParts"

interpretation best_effort: allocation_policy "AllocatePreferred sortAvail sortParts b"
  "\<lambda>available must n. prepared sortAvail sortParts b devs \<and> proper_request devs available must n \<and> n \<le> 6000"
  for sortAvail sortParts b devs
  by unfold_locales (auto simp: prepared_def answers_def intro!: policy_serves)

section \<open>From the list to the answer\<close>

lemma offered_ids:
  assumes "kubeletDevices p fs gpus homogeneous resource = Some offered"
  shows "set (map KID offered) \<subseteq> set (schedulable_ids p fs gpus)"
proof -
  obtain m where m: "devices_by_type p fs (xcpParents gpus) gpus [] = Some m"
    and o: "offered = devicesForResource m (if homogeneous then [] else resource)"
    using assms by (auto simp: kubeletDevices_def split: option.splits)
  have "mset (all_ids m) = mset (schedulable_ids p fs gpus)"
    using devices_by_type_mset [OF m] by (simp add: all_ids_def schedulable_ids_def)
  then have "set (all_ids m) = set (schedulable_ids p fs gpus)" by (metis set_mset_mset)
  moreover have "set offered \<subseteq> set (concat (map snd m))"
    unfolding o devicesForResource_def by (cases "map_of m (if homogeneous then [] else resource)") (auto dest!: map_of_SomeD)
  then have "set (map KID offered) \<subseteq> set (all_ids m)" by (auto simp: all_ids_def)
  ultimately show ?thesis by simp
qed

text \<open>A request of kubelet for devices of a list: the available ids are in it, and the numbers fit.\<close>

definition kubelet_request :: "kubelet_device list \<Rightarrow> preferred_request \<Rightarrow> bool" where
  "kubelet_request offered req \<longleftrightarrow> distinct (AvailableDeviceIDs req) \<and> set (AvailableDeviceIDs req) \<subseteq> set (map KID offered)
     \<and> distinct (MustIncludeDeviceIDs req) \<and> set (MustIncludeDeviceIDs req) \<subseteq> set (AvailableDeviceIDs req)
     \<and> 0 < AllocationSize req \<and> AllocationSize req \<le> int (length (AvailableDeviceIDs req))
     \<and> int (length (MustIncludeDeviceIDs req)) \<le> AllocationSize req \<and> AllocationSize req \<le> 6000"

text \<open>C39: what is offered can be preferred. With the policy that \<open>Start\<close> prepares from the GPUs of the node,
  every request of kubelet about ids of a list it was sent, for any resource, is answered with exactly the
  number of distinct available ids it asks for, the must-include ids among them.\<close>

theorem offered_ids_served:
  assumes "complete_map gpus" "\<forall>k \<in> fst ` set gpus. CHR ''#'' \<notin> set k"
    and "getDevices p fs gpus = Some devs" "Init fs glob b0 devs topo = (b, Inr ())" "b0 \<in> {NewBestEffortPolicy, NewSpreadPolicy}"
    and "reorders sortAvail" "reorders sortParts"
    and "kubeletDevices p fs gpus homogeneous resource = Some offered" "\<forall>req \<in> set reqs. kubelet_request offered req"
  shows "\<exists>out. GetPreferredAllocation (AllocatePreferred sortAvail sortParts b) reqs = Some out \<and> list_all2 answers_request reqs out"
proof (rule best_effort.requests_served [where devs = devs], intro ballI)
  have ids: "map Dev_Id devs = schedulable_ids p fs gpus" using getDevices_ids [OF assms(1), of p fs] assms(3) by simp
  have "distinct (schedulable_ids p fs gpus)"
    unfolding schedulable_ids_def using assms(1,2) by (intro keyed_ids_distinct) (auto simp: complete_map_def)
  then have "ready b devs" using Init_ready [OF assms(4,5)] ids by simp
  then have prepared: "prepared sortAvail sortParts b devs" using assms(6,7) by (simp add: prepared_def)
  have known: "Dev_Id ` set devs = set (schedulable_ids p fs gpus)" by (metis ids list.set_map)
  fix req assume "req \<in> set reqs"
  then have "kubelet_request offered req" using assms(9) by blast
  then show "prepared sortAvail sortParts b devs \<and> proper_request devs (AvailableDeviceIDs req) (MustIncludeDeviceIDs req) (AllocationSize req)
      \<and> AllocationSize req \<le> 6000"
    using prepared offered_ids [OF assms(8)] known by (auto simp: kubelet_request_def proper_request_def)
qed

lemma Init_ok: "devs \<noteq> [] \<Longrightarrow> \<exists>b. Init fs glob NewBestEffortPolicy devs topo = (b, Inr ())"
  by (simp add: Init_def fetchAllPairWeights_def NewBestEffortPolicy_def Let_def)

theorem offered_ids_served_witness:
  "let gpus = [(''a'', typed_gpu 0 ''spx''), (''b'', typed_gpu 1 ''spx'')]; p = (sample_plugin ''cu'')\<lparr>splitCount := 1\<rparr>;
       req = \<lparr>AvailableDeviceIDs = [''a#'' @ Itoa 0, ''b#'' @ Itoa 0], MustIncludeDeviceIDs = [''b#'' @ Itoa 0], AllocationSize = 1\<rparr> in
   \<exists>devs b out. getDevices p (\<lambda>_. None) gpus = Some devs \<and> Init (\<lambda>_. None) (\<lambda>_. []) NewBestEffortPolicy devs [] = (b, Inr ())
     \<and> GetPreferredAllocation (AllocatePreferred (sort_key NodeId) (sort_key (\<lambda>q. length (DP_Ids q))) b) [req] = Some out
     \<and> list_all2 answers_request [req] out"
proof -
  let ?gpus = "[(''a'', typed_gpu 0 ''spx''), (''b'', typed_gpu 1 ''spx'')]"
  let ?p = "(sample_plugin ''cu'')\<lparr>splitCount := 1\<rparr>"
  let ?req = "\<lparr>AvailableDeviceIDs = [''a#'' @ Itoa 0, ''b#'' @ Itoa 0], MustIncludeDeviceIDs = [''b#'' @ Itoa 0], AllocationSize = 1\<rparr>"
  have c: "complete_map ?gpus" by (simp add: complete_map_def)
  have plain: "\<forall>k \<in> fst ` set ?gpus. CHR ''#'' \<notin> set k" by simp
  have ids: "schedulable_ids ?p (\<lambda>_. None) ?gpus = [''a#'' @ Itoa 0, ''b#'' @ Itoa 0]"
    by (simp add: schedulable_ids_def schedulable_def typed_gpu_def sample_plugin_def isSchedulableTopologyKey_def is_xcp_def HasPrefix_def
        xcpParents_def kubeletIDs_def hardPartitionType_def splitCountFor_def Let_def)
  have "\<exists>offered. kubeletDevices ?p (\<lambda>_. None) ?gpus True ''gpu'' = Some offered \<and> map KID offered = [''a#'' @ Itoa 0, ''b#'' @ Itoa 0]"
    by (simp add: typed_gpu_def kubeletDevices_def sample_plugin_def isSchedulableTopologyKey_def is_xcp_def HasPrefix_def
        xcpParents_def device_entry_def kubeletIDs_def hardPartitionType_def splitCountFor_def devicesForResource_def Let_def)
  then obtain offered where o: "kubeletDevices ?p (\<lambda>_. None) ?gpus True ''gpu'' = Some offered"
    "map KID offered = [''a#'' @ Itoa 0, ''b#'' @ Itoa 0]" by (elim exE conjE)
  obtain devs where d: "getDevices ?p (\<lambda>_. None) ?gpus = Some devs" "map Dev_Id devs = [''a#'' @ Itoa 0, ''b#'' @ Itoa 0]"
    using getDevices_ids [OF c, of ?p "\<lambda>_. None"] unfolding ids by (elim exE conjE)
  then obtain b where b: "Init (\<lambda>_. None) (\<lambda>_. []) NewBestEffortPolicy devs [] = (b, Inr ())" using Init_ok [of devs] by fastforce
  have "\<forall>req \<in> set [?req]. kubelet_request offered req" unfolding kubelet_request_def o(2) by simp
  from offered_ids_served [OF c plain d(1) b _ reorders_sort [of NodeId] reorders_sort [of "\<lambda>q. length (DP_Ids q)"] o(1) this] d(1) b
  show ?thesis unfolding Let_def by blast
qed

end
