(* ===== verification/Startup.thy ===== *)
theory Startup
  imports Offered
begin

text \<open>
  The start of the device plugin, \<open>cmd/k8s-device-plugin/main.go\<close>: the checks of the flags, the lister built from
  them, what the resource goroutine announces, and how \<open>Discover\<close> and the heartbeat goroutine of
  \<open>plugin.go\<close> hand on what they receive. The device plugin manager, the text of the usage message and the
  sleeping between heartbeats are not modelled.
\<close>

section \<open>Flags\<close>

record flags =
  F_pulse :: int
  F_resourceNamingStrategy :: string
  F_splitCount :: int
  F_reportNodeCapacity :: bool
  F_hipLogLevel :: int
  F_excludeGPUs :: string
  F_deviceMemoryScaling :: rat
  F_cdiSpecDir :: string
  F_allocatorPolicy :: string
  F_dmemBackend :: bool
  F_muslFailClosed :: bool

datatype flag_error = BadStrategy string | NegativeSplit int | BadPolicy string

record startup =
  U_strategy :: strategy
  U_excluded :: "string list"
  U_lister :: lister
  U_heartbeat :: "int option"

text \<open>Each failed check ends the process.\<close>

definition configure :: "flags \<Rightarrow> (flag_error, startup) result" where
  "configure f =
     (case ParseStrategy (F_resourceNamingStrategy f) of
        Inl e \<Rightarrow> Inl (BadStrategy e)
      | Inr strategy1 \<Rightarrow>
          if F_splitCount f < 0 then Inl (NegativeSplit (F_splitCount f))
          else (case NewPolicy (F_allocatorPolicy f) of
              Inl e \<Rightarrow> Inl (BadPolicy e)
            | Inr _ \<Rightarrow>
                Inr \<lparr>U_strategy = strategy1, U_excluded = SetExcluded (Split (CHR '','') (F_excludeGPUs f)),
                  U_lister = \<lparr>AllocatorPolicyName = F_allocatorPolicy f, SplitCount = F_splitCount f,
                    ReportNodeCapacity = F_reportNodeCapacity f, DeviceMemoryScaling = F_deviceMemoryScaling f,
                    CDISpecDir = F_cdiSpecDir f, DmemBackend = F_dmemBackend f, HipLogLevel = F_hipLogLevel f,
                    MuslFailClosed = F_muslFailClosed f\<rparr>,
                  U_heartbeat = (if F_pulse f > 0 then Some (F_pulse f) else None)\<rparr>))"

section \<open>Resources\<close>

datatype announcement = NoDriver | Announce "string list" | ClearStale

text \<open>The resource goroutine, with the GPUs discovered; \<open>None\<close> is the panic of \<open>resourceNames\<close>.\<close>

definition announce :: "bool \<Rightarrow> strategy \<Rightarrow> gpu_map \<Rightarrow> announcement option" where
  "announce kfd strategy1 gpus =
     (if \<not> kfd then Some NoDriver
      else map_option (\<lambda>resources. if resources \<noteq> [] then Announce resources else ClearStale) (resourceNames strategy1 gpus))"

text \<open>What \<open>Discover\<close> receives, in the order the \<open>select\<close> takes it, and the lists it passes on.\<close>

datatype discover_message = NewResourceList "string list" | StopDiscover

fun Discover :: "discover_message list \<Rightarrow> string list list" where
  "Discover [] = []"
| "Discover (NewResourceList newResourcesList # ms) = newResourcesList # Discover ms"
| "Discover (StopDiscover # ms) = []"

lemma resourceNames_spec:
  assumes "complete_map gpus"
  shows "\<exists>rs. resourceNames s gpus = Some rs \<and> distinct rs \<and> (rs = [] \<longleftrightarrow> gpus = [])"
proof -
  have fields: "\<forall>(k, d) \<in> set gpus. has_fields d" using assms by (simp add: complete_map_def)
  obtain counts where c: "UniquePartitionConfigCount gpus [] = Some counts"
    using UniquePartitionConfigCount_total [OF fields] by blast
  then have cs: "distinct (map fst counts)" "\<forall>(t, n) \<in> set counts. 0 < n"
    using UniquePartitionConfigCount_keys [OF c] by simp_all
  then have "filter (\<lambda>(t, n). 0 < n) counts = counts" by (simp add: filter_id_conv)
  with c cs(1) show ?thesis by (cases s) (auto simp: resourceNames_def)
qed

text \<open>C38: the node announces what it may share. With flags that pass the checks, a node whose driver is loaded
  announces, without repetition, at least one resource if a GPU is left after the exclusions, and clears
  the registration of an earlier run otherwise; every plugin created for a resource then uses the allocation
  policy of the flags, never the fallback.\<close>

theorem startup_announces:
  assumes "configure f = Inr U" "GetAMDGPUs fs glob stat iter (U_excluded U) sysRootDir = Some gpus"
    and "\<And>m. set (iter m) \<subseteq> set m"
  shows "(\<exists>resources. announce True (U_strategy U) gpus = Some (if gpus = [] then ClearStale else Announce resources) \<and> distinct resources
      \<and> (resources = [] \<longleftrightarrow> gpus = []))
    \<and> NewPolicy (F_allocatorPolicy f) = Inr (SV_policy (NewPlugin (U_lister U) operating style fs isDir resource))"
proof
  have "complete_map gpus" by (rule GetAMDGPUs_complete [OF assms(2,3)])
  from resourceNames_spec [OF this, of "U_strategy U"]
  show "\<exists>resources. announce True (U_strategy U) gpus = Some (if gpus = [] then ClearStale else Announce resources) \<and> distinct resources
      \<and> (resources = [] \<longleftrightarrow> gpus = [])"
    by (auto simp: announce_def)
  obtain b where b: "NewPolicy (F_allocatorPolicy f) = Inr b" "AllocatorPolicyName (U_lister U) = F_allocatorPolicy f"
    using assms(1) by (auto simp: configure_def split: sum.splits if_splits)
  then have "lister_policy (U_lister U) = b" by (simp add: lister_policy_def)
  then show "NewPolicy (F_allocatorPolicy f) = Inr (SV_policy (NewPlugin (U_lister U) operating style fs isDir resource))"
    using b(1)
    by (auto simp: NewPlugin_def NewAMDGPUPlugin_def WithResource_def WithAllocator_def WithCDISpecDir_def WithDmemBackend_def
        WithHipLogLevel_def WithMuslFailClosed_def on_plugin_def Let_def)
qed

section \<open>Heartbeats\<close>

text \<open>The plugins of all resources receive from the one heartbeat channel of the lister: each heartbeat goes to
  one of the streams that wait for it. \<open>beats\<close> lists them with the stream that received them.\<close>

definition stream_wakeups :: "(nat \<times> beat) list \<Rightarrow> nat \<Rightarrow> wakeup list" where
  "stream_wakeups beats i = map (Heartbeat \<circ> snd) (filter (\<lambda>(j, b). j = i) beats)"

lemma serve_loop_length:
  "\<forall>b \<in> set bs. B_sent b \<Longrightarrow> length (fst (serve_loop down devs (map Heartbeat bs))) = length bs"
  by (induction bs arbitrary: down devs) (auto split: prod.splits, metis fst_conv)

lemma filter_counts:
  fixes xs :: "(nat \<times> 'b) list"
  shows "fst ` set xs \<subseteq> {..<n} \<Longrightarrow> (\<Sum>i < n. length (filter (\<lambda>(j, b). j = i) xs)) = length xs"
proof (induction xs)
  case (Cons x xs)
  obtain j b where x: "x = (j, b)" by (cases x)
  have "length (filter (\<lambda>(j, b). j = i) (x # xs)) = (if i = j then 1 else 0) + length (filter (\<lambda>(j, b). j = i) xs)" for i
    by (simp add: x)
  moreover have "j < n" using Cons.prems by (simp add: x)
  ultimately show ?case using Cons by (simp add: sum.distrib)
qed simp

text \<open>However many resources the node announces, a heartbeat refreshes the list of one of them: the lists
  resent by all streams together are as many as the heartbeats.\<close>

theorem heartbeat_refreshes_one_list:
  assumes "fst ` set beats \<subseteq> {..<n}" "\<forall>(i, b) \<in> set beats. B_sent b"
  shows "(\<Sum>i < n. length (fst (serve_loop (down i) (devs i) (stream_wakeups beats i)))) = length beats"
proof -
  have "length (fst (serve_loop (down i) (devs i) (stream_wakeups beats i))) = length (filter (\<lambda>(j, b). j = i) beats)" for i
  proof -
    have "\<forall>b \<in> set (map snd (filter (\<lambda>(j, b). j = i) beats)). B_sent b" using assms(2) by auto
    from serve_loop_length [OF this, of "down i" "devs i"] show ?thesis by (simp add: stream_wakeups_def)
  qed
  then show ?thesis using filter_counts [OF assms(1)] by simp
qed

theorem startup_announces_witness:
  "\<exists>U resources. configure \<lparr>F_pulse = 2, F_resourceNamingStrategy = ''single'', F_splitCount = 0, F_reportNodeCapacity = False,
       F_hipLogLevel = 0, F_excludeGPUs = [], F_deviceMemoryScaling = 1, F_cdiSpecDir = [], F_allocatorPolicy = ''binpack'',
       F_dmemBackend = True, F_muslFailClosed = False\<rparr> = Inr U
     \<and> announce True (U_strategy U) [(''0000:03:00.0'', disc_gpu), (''amdgpu_xcp_0'', disc_xcp)] = Some (Announce resources)
     \<and> NewPolicy ''binpack'' = Inr (SV_policy (NewPlugin (U_lister U) None None disc_fs (\<lambda>_. True) ''gpu''))"
proof -
  let ?f = "\<lparr>F_pulse = 2, F_resourceNamingStrategy = ''single'', F_splitCount = 0, F_reportNodeCapacity = False,
       F_hipLogLevel = 0, F_excludeGPUs = [], F_deviceMemoryScaling = 1, F_cdiSpecDir = [], F_allocatorPolicy = ''binpack'',
       F_dmemBackend = True, F_muslFailClosed = False\<rparr>"
  have "TrimSpace [] = []" by (rule TrimSpace_spaceless) simp
  then obtain U where U: "configure ?f = Inr U" "U_excluded U = SetExcluded []"
    by (auto simp: configure_def ParseStrategy_def NewPolicy_def SetExcluded_def)
  have g: "GetAMDGPUs disc_fs disc_glob (\<lambda>_. True) (\<lambda>m. m) (U_excluded U) ''/s'' = Some [(''0000:03:00.0'', disc_gpu), (''amdgpu_xcp_0'', disc_xcp)]"
    using disc_GetAMDGPUs U(2) by simp
  from startup_announces [OF U(1) g subset_refl, where operating = None and style = None and isDir = "\<lambda>_. True" and resource = "''gpu''"]
    U(1) show ?thesis by auto
qed

end
