(* ===== verification/Labeller.thy ===== *)
theory Labeller
  imports Registration Json
begin

text \<open>
  The node labeller, \<open>cmd/k8s-node-labeller\<close>: the labels it generates from the GPUs of the node
  (\<open>main.go\<close>) and the reconciler that replaces them on the node (\<open>controller.go\<close>). The GPUs, the files,
  libdrm and the API server are parameters; labels and counts are association lists without duplicate keys.
\<close>

section \<open>Keys and values\<close>

type_synonym labels = "(string \<times> string) list"
type_synonym counts = "(string \<times> nat) list"

definition createLabelPrefix :: "string \<Rightarrow> bool \<Rightarrow> string" where
  "createLabelPrefix name experimental = (if experimental then ''beta.amd.com'' else ''amd.com'') @ ''/gpu.'' @ name"

definition is_alnum :: "char \<Rightarrow> bool" where
  "is_alnum c \<longleftrightarrow> (let n = (of_char c :: nat) in
     48 \<le> n \<and> n \<le> 57 \<or> 65 \<le> n \<and> n \<le> 90 \<or> 97 \<le> n \<and> n \<le> 122)"

definition is_label_char :: "char \<Rightarrow> bool" where
  "is_label_char c \<longleftrightarrow> is_alnum c \<or> c = CHR ''.'' \<or> c = CHR ''_'' \<or> c = CHR ''-''"

text \<open>\<open>strings.Map\<close> over the runes of a string; a byte that is not part of valid UTF-8 is a rune of its own.\<close>

function map_runes :: "string \<Rightarrow> string" where
  "map_runes s =
     (case s of
        [] \<Rightarrow> []
      | c # t \<Rightarrow>
          (let l = rune_len (map of_char s) in
           if l \<le> 1 then (if l = 1 \<and> is_label_char c then c else CHR ''_'') # map_runes t
           else CHR ''_'' # map_runes (drop l s)))"
  by pat_completeness auto
termination
  by (relation "measure length") auto

declare map_runes.simps [simp del]

definition trim_alnum :: "string \<Rightarrow> string" where
  "trim_alnum s = rev (dropWhile (\<lambda>c. \<not> is_alnum c) (rev (dropWhile (\<lambda>c. \<not> is_alnum c) s)))"

definition sanitizeLabelValue :: "string \<Rightarrow> nat \<Rightarrow> string" where
  "sanitizeLabelValue s maxLen =
     (let s1 = filter (\<lambda>c. c \<noteq> CHR ''('' \<and> c \<noteq> CHR '')'') (TrimSpace s); s2 = map_runes s1
      in trim_alnum (if maxLen < length s2 then take maxLen s2 else s2))"

definition productNameMaxLen :: nat where
  "productNameMaxLen = 63 - length ''gpu.product-name.''"

definition parseDeviceID :: "string \<Rightarrow> string" where
  "parseDeviceID s = TrimPrefix (TrimSpace s) ''0x''"

definition count_up :: "string \<Rightarrow> counts \<Rightarrow> counts" where
  "count_up k m = assoc_update k (Suc (case map_of m k of None \<Rightarrow> 0 | Some n \<Rightarrow> n)) m"

definition count_text :: "nat \<Rightarrow> string" where
  "count_text n = Itoa (int n)"

definition createLabels :: "string \<Rightarrow> counts \<Rightarrow> labels" where
  "createLabels kind entries =
     (let prefix1 = createLabelPrefix kind True; prefix2 = createLabelPrefix kind False;
          labels1 = fold (\<lambda>(k, v) m.
            let m' = assoc_update (prefix1 @ ''.'' @ k) (count_text v) m
            in if length entries = 1 then assoc_update prefix1 k m' else m') entries []
      in fold (\<lambda>(k, v) m.
            if length entries = 1 then assoc_update prefix2 k m
            else assoc_update (prefix2 @ ''.'' @ k) (count_text v) m) entries labels1)"

section \<open>Generators\<close>

record 'h label_env =
  LE_files :: files
  LE_glob :: "string \<Rightarrow> string list"
  LE_stat :: "string \<Rightarrow> bool"
  LE_drm :: "'h drm"
  LE_const :: "string \<Rightarrow> nat"

definition card_name :: "device_data \<Rightarrow> string" where
  "card_name d = ''card'' @ (case d_card d of Some c \<Rightarrow> Itoa c | None \<Rightarrow> ''%!d(<nil>)'')"

definition topologyRoot :: string where "topologyRoot = ''/sys/class/kfd/kfd/topology/nodes''"

definition matchesRenderD :: "int \<Rightarrow> device_data \<Rightarrow> bool" where
  "matchesRenderD minor gpu \<longleftrightarrow> d_renderD gpu = Some minor"

definition gpu_node :: "files \<Rightarrow> string list \<Rightarrow> device_data \<Rightarrow> string option" where
  "gpu_node fs paths gpu =
     map_option file_Dir (find (\<lambda>file. case ParseTopologyProperties fs file ''drm_render_minor'' of
       Inl _ \<Rightarrow> False | Inr minor \<Rightarrow> matchesRenderD minor gpu) paths)"

definition gpuTopologyNodes :: "'h label_env \<Rightarrow> gpu_map \<Rightarrow> string list" where
  "gpuTopologyNodes E gpus =
     (let paths = LE_glob E (path_Join [topologyRoot, ''*'', ''properties''])
      in List.map_filter (\<lambda>(key, gpu). gpu_node (LE_files E) paths gpu) gpus)"

definition firmware_counts :: "'h label_env \<Rightarrow> device_data \<Rightarrow> counts \<Rightarrow> counts" where
  "firmware_counts E v m =
     (case GetFirmwareVersions (LE_files E) (LE_drm E) (LE_const E) (card_name v) of
        Inl _ \<Rightarrow> m
      | Inr (feats, fws) \<Rightarrow>
          fold (\<lambda>(fw, ver). count_up (fw @ ''.fw.'' @ count_text ver)) fws
            (fold (\<lambda>(fw, ver). count_up (fw @ ''.feat.'' @ count_text ver)) feats m))"

definition firmware_labels :: "'h label_env \<Rightarrow> gpu_map \<Rightarrow> labels" where
  "firmware_labels E gpus =
     map (\<lambda>(k, v). (createLabelPrefix ''firmware'' True @ ''.'' @ k, count_text v))
       (fold (\<lambda>(key, v). firmware_counts E v) gpus [])"

definition family_labels :: "'h label_env \<Rightarrow> gpu_map \<Rightarrow> labels" where
  "family_labels E gpus =
     createLabels ''family'' (fold (\<lambda>(key, v) m.
       case GetCardFamilyName (LE_files E) (LE_drm E) (LE_const E) (card_name v) of
         Inl _ \<Rightarrow> m | Inr fid \<Rightarrow> count_up fid m) gpus [])"

text \<open>The first module file that can be read.\<close>

definition module_text :: "'h label_env \<Rightarrow> gpu_map \<Rightarrow> string \<Rightarrow> string" where
  "module_text E gpus name =
     (case List.map_filter (\<lambda>(key, v). LE_files E (''/sys/class/drm/'' @ card_name v @ ''/device/driver/module/'' @ name)) gpus of
        [] \<Rightarrow> [] | b # _ \<Rightarrow> TrimSpace b)"

definition driver_version_labels :: "'h label_env \<Rightarrow> gpu_map \<Rightarrow> labels" where
  "driver_version_labels E gpus = [(createLabelPrefix ''driver-version'' False, module_text E gpus ''version'')]"

definition driver_src_version_labels :: "'h label_env \<Rightarrow> gpu_map \<Rightarrow> labels" where
  "driver_src_version_labels E gpus = [(createLabelPrefix ''driver-src-version'' False, module_text E gpus ''srcversion'')]"

definition device_id_labels :: "'h label_env \<Rightarrow> gpu_map \<Rightarrow> labels" where
  "device_id_labels E gpus =
     createLabels ''device-id'' (fold (\<lambda>(key, v) m.
       case LE_files E (''/sys/class/drm/'' @ card_name v @ ''/device/device'') of
         None \<Rightarrow> m
       | Some b \<Rightarrow> if parseDeviceID b = [] then m else count_up (parseDeviceID b) m) gpus [])"

text \<open>A file that cannot be read counts as empty, which asks libdrm for the name.\<close>

definition product_name_of :: "'h label_env \<Rightarrow> device_data \<Rightarrow> string" where
  "product_name_of E v =
     (let prodName = sanitizeLabelValue (str_of (LE_files E (''/sys/class/drm/'' @ card_name v @ ''/device/product_name''))) productNameMaxLen
      in if prodName \<noteq> [] then prodName
         else case GetCardProductName (LE_files E) (LE_drm E) (card_name v) of
                Inl _ \<Rightarrow> [] | Inr name \<Rightarrow> sanitizeLabelValue name productNameMaxLen)"

definition product_name_labels :: "'h label_env \<Rightarrow> gpu_map \<Rightarrow> labels" where
  "product_name_labels E gpus =
     createLabels ''product-name'' (fold (\<lambda>(key, v) m.
       if product_name_of E v = [] then m else count_up (product_name_of E v) m) gpus [])"

text \<open>\<open>math.Round\<close> of the size in GiB, which is not negative.\<close>

definition vram_text :: "int \<Rightarrow> string" where
  "vram_text vSize = Itoa \<lfloor>float64_of (of_int vSize) / 2 ^ 30 + 1 / 2\<rfloor> @ ''G''"

definition vram_labels :: "'h label_env \<Rightarrow> gpu_map \<Rightarrow> labels" where
  "vram_labels E gpus =
     createLabels ''vram'' (fold (\<lambda>dir m.
       case ParseTopologyProperties (LE_files E) (path_Join [dir, ''mem_banks'', ''0'', ''properties'']) ''size_in_bytes'' of
         Inl _ \<Rightarrow> m | Inr vSize \<Rightarrow> count_up (vram_text vSize) m) (gpuTopologyNodes E gpus) [])"

definition simd_count_labels :: "'h label_env \<Rightarrow> gpu_map \<Rightarrow> labels" where
  "simd_count_labels E gpus =
     createLabels ''simd-count'' (fold (\<lambda>dir m.
       case ParseTopologyProperties (LE_files E) (path_Join [dir, ''properties'']) ''simd_count'' of
         Inl _ \<Rightarrow> m | Inr s \<Rightarrow> count_up (Itoa s) m) (gpuTopologyNodes E gpus) [])"

text \<open>The numbers are read from digits, so Go's division is \<open>div\<close>.\<close>

definition cu_count_labels :: "'h label_env \<Rightarrow> gpu_map \<Rightarrow> labels" where
  "cu_count_labels E gpus =
     createLabels ''cu-count'' (fold (\<lambda>dir m.
       case ParseTopologyProperties (LE_files E) (path_Join [dir, ''properties'']) ''simd_count'' of
         Inl _ \<Rightarrow> m
       | Inr s \<Rightarrow>
           (case ParseTopologyProperties (LE_files E) (path_Join [dir, ''properties'']) ''simd_per_cu'' of
              Inl _ \<Rightarrow> m | Inr c \<Rightarrow> if c = 0 then m else count_up (Itoa (s div c)) m)) (gpuTopologyNodes E gpus) [])"

text \<open>\<open>None\<close> is the panic of an unchecked type assertion.\<close>

definition partition_labels :: "'h label_env \<Rightarrow> gpu_map \<Rightarrow> labels option" where
  "partition_labels E gpus =
     (case UniquePartitionConfigCount gpus [] of
        None \<Rightarrow> None
      | Some partitionCountMap \<Rightarrow>
          Some (if length partitionCountMap \<le> 1 then
                  (case filter (\<lambda>(ty, n). 0 < n) partitionCountMap of
                     [] \<Rightarrow> [] | (ty, n) # _ \<Rightarrow> [(createLabelPrefix ''compute-memory-partition'' False, ty)])
                else []))"

definition FormatBool :: "bool \<Rightarrow> string" where
  "FormatBool b = (if b then ''true'' else ''false'')"

text \<open>The generators by name; the order of the map is left open.\<close>

definition labelGenerators :: "'h label_env \<Rightarrow> (string \<times> (gpu_map \<Rightarrow> labels option)) list" where
  "labelGenerators E =
     [(''firmware'', Some \<circ> firmware_labels E), (''family'', Some \<circ> family_labels E),
      (''driver-version'', Some \<circ> driver_version_labels E), (''driver-src-version'', Some \<circ> driver_src_version_labels E),
      (''device-id'', Some \<circ> device_id_labels E), (''product-name'', Some \<circ> product_name_labels E),
      (''vram'', Some \<circ> vram_labels E), (''simd-count'', Some \<circ> simd_count_labels E),
      (''cu-count'', Some \<circ> cu_count_labels E), (''compute-memory-partition'', partition_labels E),
      (''compute-partitioning-supported'', \<lambda>_. Some [(createLabelPrefix ''compute-partitioning-supported'' False,
         FormatBool (IsComputePartitionSupported (LE_glob E) (LE_stat E)))]),
      (''memory-partitioning-supported'', \<lambda>_. Some [(createLabelPrefix ''memory-partitioning-supported'' False,
         FormatBool (IsMemoryPartitionSupported (LE_glob E) (LE_stat E)))])]"

definition generator_names :: "string list" where
  "generator_names = [''firmware'', ''family'', ''driver-version'', ''driver-src-version'', ''device-id'', ''product-name'',
     ''vram'', ''simd-count'', ''cu-count'', ''compute-memory-partition'', ''compute-partitioning-supported'',
     ''memory-partitioning-supported'']"

definition merge_labels :: "labels \<Rightarrow> labels \<Rightarrow> labels" where
  "merge_labels new m = fold (\<lambda>(k, v). assoc_update k v) new m"

fun generate_from ::
  "(string \<times> (gpu_map \<Rightarrow> labels option)) list \<Rightarrow> (string \<Rightarrow> bool) \<Rightarrow> gpu_map \<Rightarrow> labels \<Rightarrow> labels option" where
  "generate_from [] enabled gpus results = Some results"
| "generate_from ((l, f) # gs) enabled gpus results =
     (if \<not> enabled l then generate_from gs enabled gpus results
      else case f gpus of
             None \<Rightarrow> None
           | Some new \<Rightarrow> generate_from gs enabled gpus (merge_labels new results))"

definition generateLabels :: "'h label_env \<Rightarrow> (string \<Rightarrow> bool) \<Rightarrow> gpu_map \<Rightarrow> labels option" where
  "generateLabels E enabled gpus = generate_from (labelGenerators E) enabled gpus []"

section \<open>Replacing the labels of a node\<close>

text \<open>\<open>initLabelLists\<close> fills the two lists of keys.\<close>

definition allLabelKeys :: "string list" where
  "allLabelKeys = map (\<lambda>name. createLabelPrefix name False) generator_names"

definition allExperimentalLabelKeys :: "string list" where
  "allExperimentalLabelKeys = map (\<lambda>name. createLabelPrefix name True) generator_names"

definition isManagedLabel :: "string \<Rightarrow> bool" where
  "isManagedLabel k \<longleftrightarrow> list_ex (\<lambda>p. k = p \<or> HasPrefix k (p @ ''.'')) (allLabelKeys @ allExperimentalLabelKeys)"

definition removeOldNodeLabels :: "labels \<Rightarrow> labels" where
  "removeOldNodeLabels labels = filter (\<lambda>(k, v). \<not> isManagedLabel k) labels"

text \<open>The labels of the node after a reconciliation with the labels \<open>generated\<close> at the start.\<close>

definition reconciled :: "labels \<Rightarrow> labels \<Rightarrow> labels" where
  "reconciled generated labels = merge_labels generated (removeOldNodeLabels labels)"

datatype label_error = NodeMissing | ApiFailure string

text \<open>The node read from the server and the answer to the update; the result is what is sent.\<close>

definition Reconcile ::
  "labels \<Rightarrow> (label_error, labels) result \<Rightarrow> (labels \<Rightarrow> string option) \<Rightarrow> (string, unit) result \<times> labels option" where
  "Reconcile generated got update =
     (case got of
        Inl NodeMissing \<Rightarrow> (Inr (), None)
      | Inl (ApiFailure e) \<Rightarrow> (Inl e, None)
      | Inr labels \<Rightarrow>
          (let new = reconciled generated labels in
           (case update new of Some e \<Rightarrow> Inl e | None \<Rightarrow> Inr (), Some new)))"

text \<open>The labeller without the name of its node would never see an event.\<close>

definition ownNodeName :: "string option \<Rightarrow> (string, string) result" where
  "ownNodeName env = (if str_of env = [] then Inl ''DS_NODE_NAME is not set'' else Inr (str_of env))"

definition handles_create :: "string \<Rightarrow> string \<Rightarrow> bool" where
  "handles_create hostname name \<longleftrightarrow> hostname = name"

section \<open>Keys of the generators\<close>

definition keyed :: "string \<Rightarrow> string \<Rightarrow> bool" where
  "keyed name k \<longleftrightarrow> (\<exists>ex. k = createLabelPrefix name ex \<or> HasPrefix k (createLabelPrefix name ex @ ''.''))"

lemma keyedI [simp]: "keyed name (createLabelPrefix name ex)" "keyed name (createLabelPrefix name ex @ ''.'' @ s)"
  by (auto simp: keyed_def HasPrefix_iff)

lemma keyed_managed:
  assumes "name \<in> set generator_names" "keyed name k"
  shows "isManagedLabel k"
proof -
  obtain ex where k: "k = createLabelPrefix name ex \<or> HasPrefix k (createLabelPrefix name ex @ ''.'')"
    using assms(2) by (auto simp: keyed_def)
  have "createLabelPrefix name ex \<in> set (allLabelKeys @ allExperimentalLabelKeys)"
    using assms(1) by (cases ex) (simp_all add: allLabelKeys_def allExperimentalLabelKeys_def)
  then show ?thesis using k unfolding isManagedLabel_def list_ex_iff by blast
qed

definition all_keys :: "(string \<Rightarrow> bool) \<Rightarrow> (string \<times> 'v) list \<Rightarrow> bool" where
  "all_keys P m \<longleftrightarrow> (\<forall>k \<in> fst ` set m. P k)"

lemma all_keys_simps [simp]:
  "all_keys P []" "all_keys P (assoc_update k v m) \<longleftrightarrow> P k \<and> all_keys P m" "all_keys P ((k, v) # m) \<longleftrightarrow> P k \<and> all_keys P m"
  unfolding all_keys_def keys_assoc_update by auto

lemma all_keys_fold: "(\<And>x m. all_keys P m \<Longrightarrow> all_keys P (f x m)) \<Longrightarrow> all_keys P m \<Longrightarrow> all_keys P (fold f xs m)"
  by (induction xs arbitrary: m) auto

lemma createLabels_keyed [simp]: "all_keys (keyed kind) (createLabels kind entries)"
  unfolding createLabels_def Let_def
  by (intro all_keys_fold) (auto simp del: append.simps split: prod.split if_split)

lemma generators_keyed:
  assumes "(name, f) \<in> set (labelGenerators E)" "f gpus = Some new"
  shows "all_keys (keyed name) new"
proof -
  have firmware: "all_keys (keyed ''firmware'') (firmware_labels E gpus)"
    using keyedI(2) [of "''firmware''" True] by (auto simp: firmware_labels_def all_keys_def)
  have partition: "partition_labels E gpus = Some new \<Longrightarrow> all_keys (keyed ''compute-memory-partition'') new"
    by (auto simp: partition_labels_def split: option.splits list.splits if_splits)
  have "all_keys (keyed ''family'') (family_labels E gpus)" "all_keys (keyed ''device-id'') (device_id_labels E gpus)"
    "all_keys (keyed ''product-name'') (product_name_labels E gpus)" "all_keys (keyed ''vram'') (vram_labels E gpus)"
    "all_keys (keyed ''simd-count'') (simd_count_labels E gpus)" "all_keys (keyed ''cu-count'') (cu_count_labels E gpus)"
    "all_keys (keyed ''driver-version'') (driver_version_labels E gpus)"
    "all_keys (keyed ''driver-src-version'') (driver_src_version_labels E gpus)"
    by (simp_all add: family_labels_def device_id_labels_def product_name_labels_def vram_labels_def simd_count_labels_def
        cu_count_labels_def driver_version_labels_def driver_src_version_labels_def)
  with assms firmware partition show ?thesis by (auto simp: labelGenerators_def)
qed

lemma generator_names_eq: "map fst (labelGenerators E) = generator_names"
  by (simp add: labelGenerators_def generator_names_def)

lemma merge_labels_lookup:
  "distinct (map fst new) \<Longrightarrow> map_of (merge_labels new m) k = (case map_of new k of None \<Rightarrow> map_of m k | Some v \<Rightarrow> Some v)"
proof (induction new arbitrary: m)
  case (Cons p new)
  obtain j v where p: "p = (j, v)" by (cases p)
  have "map_of (merge_labels (p # new) m) k = map_of (merge_labels new (assoc_update j v m)) k" by (simp add: merge_labels_def p)
  also have "\<dots> = (case map_of new k of None \<Rightarrow> map_of (assoc_update j v m) k | Some v \<Rightarrow> Some v)" using Cons by simp
  also have "\<dots> = (case map_of (p # new) k of None \<Rightarrow> map_of m k | Some v \<Rightarrow> Some v)"
  proof (cases "k = j")
    case True
    then have "map_of new k = None" using Cons.prems p by (simp add: map_of_eq_None_iff)
    with True show ?thesis by (simp add: p map_of_assoc_update)
  qed (simp add: p map_of_assoc_update split: option.split)
  finally show ?case .
qed (simp add: merge_labels_def)

lemma merge_labels_Cons: "merge_labels ((k, v) # new) m = merge_labels new (assoc_update k v m)"
  by (simp add: merge_labels_def)

lemma merge_labels_keys:
  "fst ` set (merge_labels new m) = fst ` set m \<union> fst ` set new"
  "distinct (map fst m) \<Longrightarrow> distinct (map fst (merge_labels new m))"
proof (induction new arbitrary: m)
  case (Cons p new)
  obtain k v where p: "p = (k, v)" by (cases p)
  { case 1 show ?case by (simp add: p merge_labels_Cons Cons.IH(1) keys_assoc_update) }
  { case 2 then show ?case by (simp add: p merge_labels_Cons Cons.IH(2) distinct_assoc_update) }
qed (simp_all add: merge_labels_def)

lemma generate_from_keys:
  assumes "generate_from gs enabled gpus m = Some r" "set gs \<subseteq> set (labelGenerators E)"
    and "distinct (map fst m)" "\<forall>k \<in> fst ` set m. isManagedLabel k"
  shows "distinct (map fst r) \<and> (\<forall>k \<in> fst ` set r. isManagedLabel k)"
  using assms
proof (induction gs enabled gpus m rule: generate_from.induct)
  case (2 l f gs enabled gpus m)
  show ?case
  proof (cases "enabled l")
    case True
    then obtain new where new: "f gpus = Some new" "generate_from gs enabled gpus (merge_labels new m) = Some r"
      using 2(3) by (auto split: option.splits)
    have "l \<in> set (map fst (labelGenerators E))" using 2(4) by force
    then have "l \<in> set generator_names" by (simp only: generator_names_eq)
    moreover have "\<forall>k \<in> fst ` set new. keyed l k"
      using generators_keyed [of l f E gpus new] 2(4) new(1) by (simp add: all_keys_def)
    ultimately have "\<forall>k \<in> fst ` set new. isManagedLabel k" using keyed_managed by blast
    then have "\<forall>k \<in> fst ` set (merge_labels new m). isManagedLabel k" using 2(6) merge_labels_keys(1) [of new m] by auto
    moreover have "distinct (map fst (merge_labels new m))" using 2(5) by (rule merge_labels_keys(2))
    ultimately show ?thesis using 2(2) [OF _ new] True 2(4) by auto
  qed (use 2 in auto)
qed simp

lemma generateLabels_keys:
  "generateLabels E enabled gpus = Some r \<Longrightarrow> distinct (map fst r) \<and> (\<forall>k \<in> fst ` set r. isManagedLabel k)"
  using generate_from_keys [of "labelGenerators E" enabled gpus "[]" r E] by (simp add: generateLabels_def)

lemma map_of_filter_key: "map_of (filter (\<lambda>(k, v). P k) m) k = (if P k then map_of m k else None)"
  by (induction m) auto

lemma reconciled_lookup:
  assumes "generateLabels E enabled gpus = Some g"
  shows "map_of (reconciled g labels) k = (if isManagedLabel k then map_of g k else map_of labels k)"
  using generateLabels_keys [OF assms]
  by (cases "map_of g k") (auto simp: reconciled_def merge_labels_lookup removeOldNodeLabels_def map_of_filter_key
      dest!: map_of_SomeD)

text \<open>Labels never linger. After a reconciliation the node carries, under the keys the labeller manages,
  exactly the labels generated from the GPUs it has now, whatever an earlier run with other GPUs, another
  driver or other flags had left there; every other label is as it was.\<close>

theorem labels_never_linger:
  assumes "generateLabels E1 enabled1 gpus1 = Some g1" "generateLabels E2 enabled2 gpus2 = Some g2"
  shows "map_of (reconciled g2 (reconciled g1 labels)) k = (if isManagedLabel k then map_of g2 k else map_of labels k)"
  by (simp add: reconciled_lookup [OF assms(1)] reconciled_lookup [OF assms(2)])

definition label_sample :: "unit label_env" where
  "label_sample = \<lparr>LE_files = (\<lambda>f. if f = ''/sys/class/drm/card0/device/device'' then Some ''0x74a1'' else None),
     LE_glob = (\<lambda>_. []), LE_stat = (\<lambda>_. False),
     LE_drm = \<lparr>dev_open = (\<lambda>_. False), device_initialize = (\<lambda>_. None), query_family = (\<lambda>_. None),
       query_capacity = (\<lambda>_. None), query_firmware = (\<lambda>_ _. None), marketing_name = (\<lambda>_. None)\<rparr>,
     LE_const = (\<lambda>_. 0)\<rparr>"

definition label_gpu :: device_data where
  "label_gpu = \<lparr>d_card = Some 0, d_renderD = Some 128, d_devID = Some [], d_computePartitionType = Some [],
     d_memoryPartitionType = Some [], d_computePartitionFixed = Some False, d_numaNode = Some 0, d_nodeId = Some 1\<rparr>"

lemma label_sample_id:
  "generateLabels label_sample (\<lambda>l. l = ''device-id'') [(''g'', label_gpu)]
    = Some [(''beta.amd.com/gpu.device-id.74a1'', ''1''), (''beta.amd.com/gpu.device-id'', ''74a1''), (''amd.com/gpu.device-id'', ''74a1'')]"
proof -
  have i: "Itoa 0 = ''0''" "Itoa 1 = ''1''" by (simp_all add: Itoa_def digits_of.simps digit_char_def char_of_def bit_Suc bit_0)
  have t: "TrimSpace ''0x74a1'' = ''0x74a1''" by (rule TrimSpace_spaceless) simp
  show ?thesis
    by (simp add: generateLabels_def labelGenerators_def device_id_labels_def label_sample_def label_gpu_def card_name_def i t
        parseDeviceID_def TrimPrefix_def HasPrefix_def count_up_def count_text_def createLabels_def createLabelPrefix_def
        merge_labels_def Let_def)
qed

theorem labels_never_linger_witness:
  "\<exists>g1 g2. generateLabels label_sample (\<lambda>l. l = ''device-id'') [(''g'', label_gpu)] = Some g1
     \<and> generateLabels label_sample (\<lambda>l. l = ''device-id'') [] = Some g2
     \<and> map_of g1 ''amd.com/gpu.device-id'' = Some ''74a1''
     \<and> map_of (reconciled g2 (reconciled g1 [(''zone'', ''a'')])) ''amd.com/gpu.device-id'' = None
     \<and> map_of (reconciled g2 (reconciled g1 [(''zone'', ''a'')])) ''zone'' = Some ''a''"
proof -
  have g2: "generateLabels label_sample (\<lambda>l. l = ''device-id'') [] = Some []"
    by (simp add: generateLabels_def labelGenerators_def device_id_labels_def createLabels_def merge_labels_def Let_def)
  have "isManagedLabel ''amd.com/gpu.device-id''" "\<not> isManagedLabel ''zone''"
    by (simp_all add: isManagedLabel_def allLabelKeys_def allExperimentalLabelKeys_def generator_names_def createLabelPrefix_def
        HasPrefix_def)
  with labels_never_linger [OF label_sample_id g2] label_sample_id g2 show ?thesis by auto
qed

section \<open>Valid names\<close>

lemma map_runes_Nil: "map_runes [] = []"
  by (simp add: map_runes.simps)

lemma map_runes_Cons:
  "map_runes (c # t) =
     (let l = rune_len (map of_char (c # t)) in
      if l \<le> 1 then (if l = 1 \<and> is_label_char c then c else CHR ''_'') # map_runes t
      else CHR ''_'' # map_runes (drop l (c # t)))"
  by (subst map_runes.simps) simp

lemma map_runes_chars: "list_all is_label_char (map_runes s)"
proof (induction "length s" arbitrary: s rule: less_induct)
  case less
  show ?case
  proof (cases s)
    case (Cons c t)
    let ?l = "rune_len (map of_char (c # t))"
    have u: "is_label_char (CHR ''_'')" by (simp add: is_label_char_def)
    have "list_all is_label_char (map_runes t)" by (rule less) (simp add: Cons)
    moreover have "list_all is_label_char (map_runes (drop ?l (c # t)))" if "\<not> ?l \<le> 1" by (rule less) (use that Cons in simp)
    ultimately show ?thesis unfolding Cons map_runes_Cons Let_def using u
      by (cases "?l \<le> 1"; simp only: if_True if_False list_all_iff list.set; auto simp: list_all_iff)
  qed (simp add: map_runes_Nil)
qed

lemma set_trim_alnum: "c \<in> set (trim_alnum s) \<Longrightarrow> c \<in> set s"
  by (auto simp: trim_alnum_def dest!: set_dropWhileD)

lemma length_trim_alnum: "length (trim_alnum s) \<le> length s"
  unfolding trim_alnum_def length_rev by (metis length_dropWhile_le length_rev order_trans)

lemma trim_alnum_ends:
  assumes "trim_alnum s \<noteq> []"
  shows "is_alnum (hd (trim_alnum s))" "is_alnum (last (trim_alnum s))"
proof -
  let ?a = "dropWhile (\<lambda>c. \<not> is_alnum c) s" and ?b = "dropWhile (\<lambda>c. \<not> is_alnum c) (rev (dropWhile (\<lambda>c. \<not> is_alnum c) s))"
  have t: "trim_alnum s = rev ?b" by (simp add: trim_alnum_def)
  have b: "?b \<noteq> []" using assms t by simp
  then show "is_alnum (last (trim_alnum s))" using hd_dropWhile [OF b] t by (simp add: last_rev)
  have a: "?a \<noteq> []"
  proof
    assume e: "?a = []"
    have "?b = []" unfolding e by simp
    with b show False by simp
  qed
  then have "is_alnum (hd ?a)" using hd_dropWhile [OF a] by simp
  moreover have "hd (rev ?b) = hd ?a"
  proof -
    have "rev ?a = takeWhile (\<lambda>c. \<not> is_alnum c) (rev ?a) @ ?b" by (simp add: takeWhile_dropWhile_id)
    then have "?a = rev ?b @ rev (takeWhile (\<lambda>c. \<not> is_alnum c) (rev ?a))" by (metis rev_append rev_rev_ident)
    then show ?thesis using b by (metis hd_append2 rev_is_Nil_conv)
  qed
  ultimately show "is_alnum (hd (trim_alnum s))" using t by simp
qed

text \<open>A label value as the API server accepts it.\<close>

definition valid_label_value :: "string \<Rightarrow> bool" where
  "valid_label_value v \<longleftrightarrow> length v \<le> 63 \<and> list_all is_label_char v \<and> (v = [] \<or> is_alnum (hd v) \<and> is_alnum (last v))"

definition valid_label_key :: "string \<Rightarrow> bool" where
  "valid_label_key k \<longleftrightarrow> (\<exists>dns name. k = dns @ ''/'' @ name \<and> dns \<in> {''amd.com'', ''beta.amd.com''} \<and> name \<noteq> [] \<and> valid_label_value name)"

lemma sanitized_value:
  "length (sanitizeLabelValue s n) \<le> n \<and> list_all is_label_char (sanitizeLabelValue s n)
    \<and> (sanitizeLabelValue s n = [] \<or> is_alnum (hd (sanitizeLabelValue s n)) \<and> is_alnum (last (sanitizeLabelValue s n)))"
proof -
  let ?s2 = "map_runes (filter (\<lambda>c. c \<noteq> CHR ''('' \<and> c \<noteq> CHR '')'') (TrimSpace s))"
  let ?s3 = "if n < length ?s2 then take n ?s2 else ?s2"
  have v: "sanitizeLabelValue s n = trim_alnum ?s3" by (simp add: sanitizeLabelValue_def Let_def)
  have "length ?s3 \<le> n" by simp
  then have "length (trim_alnum ?s3) \<le> n" using length_trim_alnum le_trans by blast
  moreover have "list_all is_label_char ?s3"
    using map_runes_chars [of "filter (\<lambda>c. c \<noteq> CHR ''('' \<and> c \<noteq> CHR '')'') (TrimSpace s)"]
    by (auto simp: list_all_iff dest: in_set_takeD)
  then have "list_all is_label_char (trim_alnum ?s3)" by (auto simp: list_all_iff dest: set_trim_alnum)
  ultimately show ?thesis unfolding v using trim_alnum_ends by blast
qed

definition label_of :: "string \<Rightarrow> counts \<Rightarrow> string \<times> string \<Rightarrow> bool" where
  "label_of kind entries l \<longleftrightarrow> (\<exists>k n ex. (k, n) \<in> set entries
    \<and> (l = (createLabelPrefix kind ex @ ''.'' @ k, count_text n) \<or> l = (createLabelPrefix kind ex, k)))"

lemma label_of_intros:
  "(k, n) \<in> set entries \<Longrightarrow> label_of kind entries (createLabelPrefix kind ex @ ''.'' @ k, count_text n)"
  "(k, n) \<in> set entries \<Longrightarrow> label_of kind entries (createLabelPrefix kind ex, k)"
  unfolding label_of_def by blast+

lemma update_all: "list_all P m \<Longrightarrow> P (k, v) \<Longrightarrow> list_all P (assoc_update k v m)"
  by (auto simp: list_all_iff dest: assoc_update_mem)

lemma list_all_if: "list_all P a \<Longrightarrow> list_all P b \<Longrightarrow> list_all P (if c then a else b)"
  by simp

lemma fold_all: "(\<And>x m. x \<in> set xs \<Longrightarrow> list_all P m \<Longrightarrow> list_all P (f x m)) \<Longrightarrow> list_all P m \<Longrightarrow> list_all P (fold f xs m)"
  by (induction xs arbitrary: m) auto

lemma createLabels_entries: "list_all (label_of kind entries) (createLabels kind entries)"
  unfolding createLabels_def Let_def
proof (intro fold_all, unfold case_prod_beta, goal_cases)
  case (1 x m)
  then have "(fst x, snd x) \<in> set entries" by simp
  with 1(2) show ?case by (intro list_all_if update_all label_of_intros)
next
  case (2 x m)
  then have "(fst x, snd x) \<in> set entries" by simp
  with 2(2) show ?case by (intro list_all_if update_all label_of_intros)
qed simp

lemma length_digits_of: "n < 10 ^ Suc k \<Longrightarrow> length (digits_of n) \<le> Suc k"
proof (induction k arbitrary: n)
  case 0
  then show ?case by (simp add: digits_of.simps)
next
  case (Suc k)
  show ?case
  proof (cases "n < 10")
    case False
    have "n div 10 < 10 ^ Suc k" using Suc.prems by (simp add: less_mult_imp_div_less)
    then have "length (digits_of (n div 10)) \<le> Suc k" by (rule Suc.IH)
    then show ?thesis using False by (simp add: digits_of.simps [of n])
  qed (simp add: digits_of.simps)
qed

lemma digit_alnum: "is_digit c \<Longrightarrow> is_alnum c"
  by (auto simp: is_alnum_def is_digit_def Let_def)

lemma count_text_valid: "n < 10 ^ 63 \<Longrightarrow> valid_label_value (count_text n)"
proof -
  assume n: "n < 10 ^ 63"
  have "length (digits_of n) \<le> 63" using length_digits_of [of n 62] n by simp
  moreover have "\<forall>c \<in> set (digits_of n). is_alnum c" using set_digits_of digit_alnum by blast
  ultimately show ?thesis
    using digits_of_not_Nil [of n] by (simp add: count_text_def Itoa_int valid_label_value_def list_all_iff is_label_char_def)
qed

lemma product_counts:
  "(k, n) \<in> set (fold (\<lambda>(key, v) m. if product_name_of E v = [] then m else count_up (product_name_of E v) m) gpus [])
    \<Longrightarrow> k \<noteq> [] \<and> n \<le> length gpus \<and> (\<exists>v. k = product_name_of E v)"
proof (induction gpus arbitrary: k n rule: rev_induct)
  case (snoc g gpus)
  obtain key v where g: "g = (key, v)" by (cases g)
  let ?m = "fold (\<lambda>(key, v) m. if product_name_of E v = [] then m else count_up (product_name_of E v) m) gpus []"
  show ?case
  proof (cases "(k, n) \<in> set ?m")
    case True
    from snoc.IH [OF this] show ?thesis by auto
  next
    case False
    let ?old = "case map_of ?m (product_name_of E v) of None \<Rightarrow> 0 | Some n \<Rightarrow> n"
    have new: "product_name_of E v \<noteq> []" "k = product_name_of E v" "n = Suc ?old"
      using snoc.prems False by (auto simp: g count_up_def split: if_splits dest!: assoc_update_mem)
    have "?old \<le> length gpus"
      by (cases "map_of ?m (product_name_of E v)") (auto dest!: map_of_SomeD snoc.IH)
    with new show ?thesis by auto
  qed
qed simp

lemma product_name_valid: "k = product_name_of E v \<Longrightarrow> length k \<le> 46 \<and> list_all is_label_char k \<and> (k = [] \<or> is_alnum (hd k) \<and> is_alnum (last k))"
  using sanitized_value [of _ productNameMaxLen]
  by (auto simp: product_name_of_def Let_def productNameMaxLen_def split: sum.split)

text \<open>C33: product names become valid labels. Whatever the kernel or libdrm call a card, every key that the
  product-name generator emits has a name of at most 63 characters of the label alphabet that starts and
  ends with a letter or a digit, and every value is one the API server accepts, so an update is never
  refused for them.\<close>

theorem product_labels_valid:
  assumes "(key, value1) \<in> set (product_name_labels E gpus)" "length gpus < 10 ^ 63"
  shows "valid_label_key key \<and> valid_label_value value1"
proof -
  have "label_of ''product-name'' (fold (\<lambda>(key, v) m. if product_name_of E v = [] then m else count_up (product_name_of E v) m) gpus [])
      (key, value1)"
    using assms(1) createLabels_entries unfolding product_name_labels_def list_all_iff by blast
  then obtain k n ex where
    kn: "(k, n) \<in> set (fold (\<lambda>(key, v) m. if product_name_of E v = [] then m else count_up (product_name_of E v) m) gpus [])"
    and key: "key = createLabelPrefix ''product-name'' ex @ ''.'' @ k \<and> value1 = count_text n
      \<or> key = createLabelPrefix ''product-name'' ex \<and> value1 = k" unfolding label_of_def by blast
  from product_counts [OF kn] product_name_valid [of k E] have k: "k \<noteq> []" "length k \<le> 46" "list_all is_label_char k"
    "is_alnum (hd k)" "is_alnum (last k)" and n: "n < 10 ^ 63" using assms(2) by auto
  have "valid_label_value k" using k by (simp add: valid_label_value_def)
  moreover have "valid_label_value (''gpu.product-name.'' @ k)" "valid_label_value ''gpu.product-name''"
    using k by (simp_all add: valid_label_value_def is_label_char_def is_alnum_def)
  then have "valid_label_key (createLabelPrefix ''product-name'' ex @ ''.'' @ k)" "valid_label_key (createLabelPrefix ''product-name'' ex)"
    unfolding valid_label_key_def
    by (intro exI [of _ "if ex then ''beta.amd.com'' else ''amd.com''"] exI [of _ "''gpu.product-name.'' @ k"],
        simp add: createLabelPrefix_def,
        intro exI [of _ "if ex then ''beta.amd.com'' else ''amd.com''"] exI [of _ "''gpu.product-name''"],
        simp add: createLabelPrefix_def)
  ultimately show ?thesis using key count_text_valid [OF n] by blast
qed

definition named_sample :: "unit label_env" where
  "named_sample = label_sample\<lparr>LE_files := (\<lambda>f. if f = ''/sys/class/drm/card0/device/product_name'' then Some ''MI(300)/X'' else None)\<rparr>"

lemma named_sample_name: "product_name_of named_sample label_gpu = ''MI300_X''"
proof -
  have i: "Itoa 0 = ''0''" by (simp add: Itoa_def digits_of.simps digit_char_def char_of_def bit_Suc bit_0)
  have t: "TrimSpace ''MI(300)/X'' = ''MI(300)/X''" by (rule TrimSpace_spaceless) simp
  have "map_runes ''MI300/X'' = ''MI300_X''"
    by (simp add: map_runes_Cons map_runes_Nil is_label_char_def is_alnum_def Let_def)
  then show ?thesis
    by (simp add: product_name_of_def named_sample_def label_sample_def label_gpu_def card_name_def i sanitizeLabelValue_def t
        productNameMaxLen_def trim_alnum_def is_alnum_def)
qed

theorem product_labels_valid_witness:
  "(''amd.com/gpu.product-name'', ''MI300_X'') \<in> set (product_name_labels named_sample [(''g'', label_gpu)])
     \<and> valid_label_key ''amd.com/gpu.product-name'' \<and> valid_label_value ''MI300_X''"
proof -
  have m: "(''amd.com/gpu.product-name'', ''MI300_X'') \<in> set (product_name_labels named_sample [(''g'', label_gpu)])"
    by (simp add: product_name_labels_def named_sample_name count_up_def createLabels_def createLabelPrefix_def Let_def)
  from product_labels_valid [OF m] m show ?thesis by simp
qed

end
