(* ===== verification/LabellerRun.thy ===== *)
theory LabellerRun
  imports Labeller
begin

text \<open>
  The run of the node labeller, \<open>main\<close> of \<open>cmd/k8s-node-labeller/main.go\<close>: the checks at its start, the events of the
  watch that reach the reconciler, and what a sequence of events leaves in the labels of the nodes. The manager, the
  controller and the watch of controller-runtime are parameters: their answers at the start, and the events with
  what the API server answers while each is handled.
\<close>

section \<open>The start\<close>

text \<open>What each call of the start answers; \<open>None\<close> is no error.\<close>

record labeller_start =
  LS_manager :: "string option"
  LS_controller :: "string option"
  LS_nodeName :: "string option"
  LS_watch :: "string option"
  LS_start :: "string option"

datatype labeller_failure = NoManager string | NoController string | NoNodeName | NoWatch string | ManagerFailed string

text \<open>What runs: the node to label and its labels, or the failure that ends the process with exit code 1. The outer
  \<open>None\<close> is the panic of a generator.\<close>

definition labeller_main ::
  "labeller_start \<Rightarrow> labels option \<Rightarrow> ((labeller_failure, string \<times> labels) result) option" where
  "labeller_main s generated =
     (case LS_manager s of
        Some e \<Rightarrow> Some (Inl (NoManager e))
      | None \<Rightarrow>
          (case generated of
             None \<Rightarrow> None
           | Some labels \<Rightarrow>
               Some (case LS_controller s of
                  Some e \<Rightarrow> Inl (NoController e)
                | None \<Rightarrow>
                    (case ownNodeName (LS_nodeName s) of
                       Inl _ \<Rightarrow> Inl NoNodeName
                     | Inr hostname \<Rightarrow>
                         (case LS_watch s of
                            Some e \<Rightarrow> Inl (NoWatch e)
                          | None \<Rightarrow> (case LS_start s of Some e \<Rightarrow> Inl (ManagerFailed e) | None \<Rightarrow> Inr (hostname, labels)))))))"

section \<open>Events\<close>

datatype watch_event = CreateEvent string | DeleteEvent string | UpdateEvent string | GenericEvent string

fun handles :: "string \<Rightarrow> watch_event \<Rightarrow> bool" where
  "handles hostname (CreateEvent name) \<longleftrightarrow> handles_create hostname name"
| "handles hostname (DeleteEvent name) \<longleftrightarrow> False"
| "handles hostname (UpdateEvent name) \<longleftrightarrow> False"
| "handles hostname (GenericEvent name) \<longleftrightarrow> False"

fun event_node :: "watch_event \<Rightarrow> string" where
  "event_node (CreateEvent name) = name"
| "event_node (DeleteEvent name) = name"
| "event_node (UpdateEvent name) = name"
| "event_node (GenericEvent name) = name"

text \<open>The API server over the labels of its nodes, with a failure of the read or of the update.\<close>

type_synonym nodes = "string \<Rightarrow> labels option"

datatype api_fault = Works | ReadFails string | UpdateFails string

definition got_node :: "nodes \<Rightarrow> api_fault \<Rightarrow> string \<Rightarrow> (label_error, labels) result" where
  "got_node nodes fault name =
     (case fault of
        ReadFails e \<Rightarrow> Inl (ApiFailure e)
      | _ \<Rightarrow> (case nodes name of None \<Rightarrow> Inl NodeMissing | Some labels \<Rightarrow> Inr labels))"

definition update_answer :: "api_fault \<Rightarrow> labels \<Rightarrow> string option" where
  "update_answer fault labels = (case fault of UpdateFails e \<Rightarrow> Some e | _ \<Rightarrow> None)"

definition handle_event :: "labels \<Rightarrow> string \<Rightarrow> watch_event \<times> api_fault \<Rightarrow> nodes \<Rightarrow> nodes" where
  "handle_event generated hostname = (\<lambda>(ev, fault) nodes.
     if \<not> handles hostname ev then nodes
     else case Reconcile generated (got_node nodes fault (event_node ev)) (update_answer fault) of
            (Inr _, Some new) \<Rightarrow> nodes(event_node ev \<mapsto> new)
          | _ \<Rightarrow> nodes)"

definition labeller_run :: "labels \<Rightarrow> string \<Rightarrow> (watch_event \<times> api_fault) list \<Rightarrow> nodes \<Rightarrow> nodes" where
  "labeller_run generated hostname events nodes = fold (handle_event generated hostname) events nodes"

section \<open>One event\<close>

lemma handle_event_eq:
  "handle_event g hostname (ev, fault) nodes =
     (if ev = CreateEvent hostname \<and> fault = Works
      then (case nodes hostname of None \<Rightarrow> nodes | Some labels \<Rightarrow> nodes(hostname \<mapsto> reconciled g labels)) else nodes)"
  by (cases ev; cases fault)
     (auto simp: handle_event_def handles_create_def got_node_def update_answer_def Reconcile_def Let_def split: option.split)

text \<open>The labels of a node after some reconciliations, at least one if \<open>once\<close>.\<close>

definition settled :: "labels \<Rightarrow> bool \<Rightarrow> labels \<Rightarrow> labels \<Rightarrow> bool" where
  "settled g once old new \<longleftrightarrow>
     (\<forall>k. map_of new k = (if isManagedLabel k \<and> once then map_of g k else map_of old k))"

lemma settled_step:
  assumes "generateLabels E enabled gpus = Some g"
  shows "settled g once (reconciled g old) new \<Longrightarrow> settled g True old new"
  using reconciled_lookup [OF assms, of old] by (simp add: settled_def)

lemma run_settles:
  assumes "generateLabels E enabled gpus = Some g"
  shows "nodes hostname = Some old \<Longrightarrow> \<exists>new. fold (handle_event g hostname) events nodes hostname = Some new
    \<and> settled g ((CreateEvent hostname, Works) \<in> set events) old new"
proof (induction events arbitrary: nodes old)
  case Nil
  then show ?case by (simp add: settled_def)
next
  case (Cons x events)
  show ?case
  proof (cases "x = (CreateEvent hostname, Works)")
    case True
    with Cons.prems have "handle_event g hostname x nodes hostname = Some (reconciled g old)" by (simp add: handle_event_eq)
    with Cons.IH [of "handle_event g hostname x nodes" "reconciled g old"] True show ?thesis
      by (auto intro: settled_step [OF assms])
  next
    case False
    then have "handle_event g hostname x nodes = nodes" by (cases x) (auto simp: handle_event_eq)
    with Cons.IH [of nodes old] Cons.prems False show ?thesis by auto
  qed
qed

lemma run_elsewhere: "n \<noteq> hostname \<or> nodes hostname = None \<Longrightarrow> fold (handle_event g hostname) events nodes n = nodes n"
proof (induction events arbitrary: nodes)
  case (Cons x events)
  have "n \<noteq> hostname \<or> handle_event g hostname x nodes hostname = None"
    and "handle_event g hostname x nodes n = nodes n"
    using Cons.prems by (cases x; auto simp: handle_event_eq split: option.split)+
  with Cons.IH show ?case by simp
qed simp

section \<open>The labels of the nodes\<close>

text \<open>C32: the labeller keeps the labels of its own node, and of no other. Whatever events the watch delivers, in
  whatever order, and whichever calls of the API server fail, a labeller that starts leaves every other node as it is
  and creates none; its own node keeps every label that is not managed, and from the first creation event that is
  handled without a failure it carries, under the managed keys, exactly the labels generated from the GPUs it has
  now: what an earlier run with other GPUs or flags left there is gone.\<close>

theorem labeller_labels_own_node:
  assumes "generateLabels E enabled gpus = Some g" "labeller_main s (Some g) = Some (Inr (hostname, labels))"
  shows "(\<forall>n. n \<noteq> hostname \<or> nodes hostname = None \<longrightarrow> labeller_run labels hostname events nodes n = nodes n)
    \<and> (\<forall>old. nodes hostname = Some old \<longrightarrow> (\<exists>new. labeller_run labels hostname events nodes hostname = Some new
        \<and> (\<forall>k. map_of new k =
              (if isManagedLabel k \<and> (CreateEvent hostname, Works) \<in> set events then map_of g k else map_of old k))))"
proof -
  have "labels = g" using assms(2) by (auto simp: labeller_main_def split: option.splits sum.splits)
  then show ?thesis
    using run_elsewhere [where g = g] run_settles [OF assms(1)] unfolding labeller_run_def settled_def by blast
qed

definition sample_start :: labeller_start where
  "sample_start = \<lparr>LS_manager = None, LS_controller = None, LS_nodeName = Some ''n1'', LS_watch = None, LS_start = None\<rparr>"

theorem labeller_labels_own_node_witness:
  "\<exists>g new. generateLabels label_sample (\<lambda>l. l = ''device-id'') [] = Some g
     \<and> labeller_main sample_start (Some g) = Some (Inr (''n1'', g))
     \<and> labeller_run g ''n1'' [(CreateEvent ''n2'', Works), (CreateEvent ''n1'', UpdateFails ''conflict''), (CreateEvent ''n1'', Works)]
          [''n1'' \<mapsto> [(''amd.com/gpu.device-id'', ''74a1''), (''zone'', ''a'')]] ''n1'' = Some new
     \<and> map_of new ''amd.com/gpu.device-id'' = None \<and> map_of new ''zone'' = Some ''a''"
proof -
  have g: "generateLabels label_sample (\<lambda>l. l = ''device-id'') [] = Some []"
    by (simp add: generateLabels_def labelGenerators_def device_id_labels_def createLabels_def merge_labels_def Let_def)
  have m: "labeller_main sample_start (Some []) = Some (Inr (''n1'', []))"
    by (simp add: labeller_main_def sample_start_def ownNodeName_def str_of_def)
  have "isManagedLabel ''amd.com/gpu.device-id''" "\<not> isManagedLabel ''zone''"
    by (simp_all add: isManagedLabel_def allLabelKeys_def allExperimentalLabelKeys_def generator_names_def createLabelPrefix_def
        HasPrefix_def)
  with labeller_labels_own_node [OF g m,
      of "[''n1'' \<mapsto> [(''amd.com/gpu.device-id'', ''74a1''), (''zone'', ''a'')]]"
        "[(CreateEvent ''n2'', Works), (CreateEvent ''n1'', UpdateFails ''conflict''), (CreateEvent ''n1'', Works)]"] g m
  show ?thesis by auto
qed

end
