(* ===== verification/Libcheck.thy ===== *)
theory Libcheck
  imports Amdgpu
begin

text \<open>
  Package \<open>internal/pkg/libcheck\<close>: which C library the entrypoint of a container image loads, read from the
  mounted image. The walk over the mounted tree, the symbolic links, the files and the answers of
  \<open>ctr\<close> are parameters; the walk yields paths under the mount point, in its order.
\<close>

section \<open>C libraries\<close>

datatype Libc = UnknownLibc | Glibc | Musl | OldGlibc

definition Libc_String :: "Libc \<Rightarrow> string" where
  "Libc_String l =
     (case l of Glibc \<Rightarrow> ''glibc'' | Musl \<Rightarrow> ''musl'' | OldGlibc \<Rightarrow> ''glibc older than 2.34'' | UnknownLibc \<Rightarrow> ''unknown/static'')"

definition AuditCompatible :: "Libc \<Rightarrow> bool" where
  "AuditCompatible l \<longleftrightarrow> l = Glibc"

definition muslMarkerPrefix :: string where "muslMarkerPrefix = ''ld-musl-''"

definition glibcMarkers :: "string list" where
  "glibcMarkers = [''ld-linux-x86-64.so.2'', ''ld-linux-aarch64.so.1'', ''ld-linux.so.2'', ''ld-linux-armhf.so.3'']"

definition minGlibcMinor :: int where "minGlibcMinor = 34"

text \<open>The pattern \<open>GLIBC_2\.([0-9]+)\<close>: the captured digits of every match.\<close>

fun glibc_minors :: "string \<Rightarrow> string list" where
  "glibc_minors [] = []"
| "glibc_minors (c # s) =
     (if HasPrefix (c # s) ''GLIBC_2.'' \<and> takeWhile is_digit (drop 8 (c # s)) \<noteq> []
      then takeWhile is_digit (drop 8 (c # s)) # glibc_minors s
      else glibc_minors s)"

definition max_minor :: "string list \<Rightarrow> int" where
  "max_minor ms = fold (\<lambda>m best. case Atoi m of Inl _ \<Rightarrow> best | Inr minor \<Rightarrow> if minor > best then minor else best) ms (-1)"

section \<open>Image references\<close>

text \<open>\<open>strings.Cut(s, sep)\<close> for a one-character separator.\<close>

definition Cut :: "char \<Rightarrow> string \<Rightarrow> string \<times> string \<times> bool" where
  "Cut sep s = (if sep \<in> set s then (takeWhile (\<lambda>c. c \<noteq> sep) s, tl (dropWhile (\<lambda>c. c \<noteq> sep) s), True) else (s, [], False))"

definition after_last :: "char \<Rightarrow> string \<Rightarrow> string" where
  "after_last sep s = rev (takeWhile (\<lambda>c. c \<noteq> sep) (rev s))"

definition normalizeRef :: "string \<Rightarrow> string" where
  "normalizeRef ref =
     (case Cut (CHR ''/'') ref of
        (domain0, remainder0, hasSlash) \<Rightarrow>
          (let bare = (\<not> hasSlash \<or> (CHR ''.'' \<notin> set domain0 \<and> CHR '':'' \<notin> set domain0) \<and> domain0 \<noteq> ''localhost'');
               domain = (if bare then ''docker.io'' else domain0);
               remainder = (if bare then (if hasSlash then ref else ''library/'' @ ref) else remainder0);
               tagged = (if CHR '':'' \<notin> set (after_last (CHR ''/'') remainder) \<and> CHR ''@'' \<notin> set remainder
                         then remainder @ '':latest'' else remainder)
           in domain @ ''/'' @ tagged))"

section \<open>The mounted image\<close>

record entry =
  E_path :: string
  E_name :: string
  E_dir :: bool
  E_err :: bool

record scanResult =
  glibcStd :: bool
  glibcOther :: bool
  musl :: bool
  libcStd :: string
  libcOther :: string

text \<open>The pattern of \<open>stdLibDir\<close>: an optional \<open>usr/\<close>, \<open>lib\<close>, \<open>lib32\<close> or \<open>lib64\<close>, and an optional
  multiarch directory.\<close>

definition multiarch_dir :: "string \<Rightarrow> bool" where
  "multiarch_dir d \<longleftrightarrow> CHR ''/'' \<notin> set d \<and> d \<noteq> [] \<and> Contains (tl d) ''-linux-gnu''"

definition stdLibDir :: "string \<Rightarrow> bool" where
  "stdLibDir rel =
     (let s = (if HasPrefix rel ''usr/'' then drop 4 rel else rel) in
      if \<not> HasPrefix s ''lib'' then False
      else let t = drop 3 s; u = (if HasPrefix t ''32'' \<or> HasPrefix t ''64'' then drop 2 t else t) in
           case u of [] \<Rightarrow> True | c # d \<Rightarrow> c = CHR ''/'' \<and> multiarch_dir d)"

text \<open>\<open>filepath.Rel(root, dir)\<close> for a directory under the root.\<close>

definition rel_to :: "string \<Rightarrow> string \<Rightarrow> string" where
  "rel_to root1 dir = (if dir = root1 then ''.'' else drop (Suc (length root1)) dir)"

definition record_entry :: "string \<Rightarrow> string \<Rightarrow> string \<Rightarrow> scanResult \<Rightarrow> scanResult" where
  "record_entry root1 path name r =
     (let std = stdLibDir (rel_to root1 (file_Dir path)) in
      if name \<in> set glibcMarkers then r\<lparr>glibcStd := (glibcStd r \<or> std), glibcOther := (glibcOther r \<or> \<not> std)\<rparr>
      else if HasPrefix name muslMarkerPrefix then r\<lparr>musl := True\<rparr>
      else if name = ''libc.so.6'' \<and> std \<and> libcStd r = [] then r\<lparr>libcStd := path\<rparr>
      else if name = ''libc.so.6'' \<and> \<not> std \<and> libcOther r = [] then r\<lparr>libcOther := path\<rparr>
      else r)"

definition empty_scan :: scanResult where
  "empty_scan = \<lparr>glibcStd = False, glibcOther = False, musl = False, libcStd = [], libcOther = []\<rparr>"

text \<open>\<open>None\<close> is the error of an unreadable root.\<close>

definition scan :: "entry list \<Rightarrow> string \<Rightarrow> scanResult option" where
  "scan walk root1 =
     (if list_ex (\<lambda>e. E_err e \<and> E_path e = root1) walk then None
      else Some (fold (\<lambda>e. record_entry root1 (E_path e) (E_name e)) (filter (\<lambda>e. \<not> E_err e \<and> \<not> E_dir e) walk) empty_scan))"

definition scan_libc :: "scanResult \<Rightarrow> Libc" where
  "scan_libc r =
     (if glibcStd r then Glibc else if musl r then Musl else if glibcOther r then Glibc else UnknownLibc)"

datatype inspect_error =
    WalkFailed | NoLibcFile | Outside string | ReadFailed string | NoVersions string
  | ScratchDir | ImageNotPresent string | MountFailed string

text \<open>At most \<open>n\<close> symbolic links are followed.\<close>

fun resolve_links :: "(string \<Rightarrow> string option) \<Rightarrow> string \<Rightarrow> nat \<Rightarrow> string \<Rightarrow> (inspect_error, string) result" where
  "resolve_links readlink root1 0 path = Inr path"
| "resolve_links readlink root1 (Suc n) path =
     (case readlink path of
        None \<Rightarrow> Inr path
      | Some target \<Rightarrow>
          (let path' = (if HasPrefix target ''/'' then path_Join [root1, target] else path_Join [file_Dir path, target])
           in if path' \<noteq> root1 \<and> \<not> HasPrefix path' (root1 @ ''/'') then Inl (Outside target)
              else resolve_links readlink root1 n path'))"

definition readInImage :: "files \<Rightarrow> (string \<Rightarrow> string option) \<Rightarrow> string \<Rightarrow> string \<Rightarrow> (inspect_error, string) result" where
  "readInImage fs readlink root1 path =
     bind_result (resolve_links readlink root1 40 path) (\<lambda>p.
       case fs p of None \<Rightarrow> Inl (ReadFailed p) | Some content \<Rightarrow> Inr content)"

definition libc_path :: "scanResult \<Rightarrow> string" where
  "libc_path r = (if libcStd r = [] then libcOther r else libcStd r)"

definition glibcAtLeastMinimum ::
  "files \<Rightarrow> (string \<Rightarrow> string option) \<Rightarrow> string \<Rightarrow> scanResult \<Rightarrow> (inspect_error, bool) result" where
  "glibcAtLeastMinimum fs readlink root1 r =
     (if libc_path r = [] then Inl NoLibcFile
      else bind_result (readInImage fs readlink root1 (libc_path r)) (\<lambda>content.
        let maxMinor = max_minor (glibc_minors content) in
        if maxMinor < 0 then Inl (NoVersions (libc_path r)) else Inr (maxMinor \<ge> minGlibcMinor)))"

definition findLibc :: "entry list \<Rightarrow> string \<Rightarrow> (inspect_error, Libc) result" where
  "findLibc walk root1 = (case scan walk root1 of None \<Rightarrow> Inl WalkFailed | Some r \<Rightarrow> Inr (scan_libc r))"

definition inspectRoot ::
  "entry list \<Rightarrow> files \<Rightarrow> (string \<Rightarrow> string option) \<Rightarrow> string \<Rightarrow> (inspect_error, Libc) result" where
  "inspectRoot walk fs readlink root1 =
     (case scan walk root1 of
        None \<Rightarrow> Inl WalkFailed
      | Some r \<Rightarrow>
          if scan_libc r \<noteq> Glibc then Inr (scan_libc r)
          else bind_result (glibcAtLeastMinimum fs readlink root1 r) (\<lambda>okVersion.
            Inr (if okVersion then Glibc else OldGlibc)))"

section \<open>Mounting\<close>

text \<open>The refs with a pull in flight, and the pull that is started, if any.\<close>

definition pullInBackground :: "string \<Rightarrow> string set \<Rightarrow> string list \<times> string set" where
  "pullInBackground imageRef pulling =
     (if imageRef \<in> pulling then ([], pulling) else ([imageRef], insert imageRef pulling))"

text \<open>The scratch directory, the answer of \<open>ctr images mount\<close> (\<open>None\<close> is success, otherwise its output) and
  the mounted image are parameters.\<close>

definition Inspect ::
  "string option \<Rightarrow> (string \<Rightarrow> string option) \<Rightarrow> (string \<Rightarrow> entry list) \<Rightarrow> files \<Rightarrow> (string \<Rightarrow> string option) \<Rightarrow> string set
     \<Rightarrow> string \<Rightarrow> (inspect_error, Libc) result \<times> string list \<times> string set" where
  "Inspect mountDir mount walk fs readlink pulling imageRef0 =
     (case mountDir of
        None \<Rightarrow> (Inl ScratchDir, [], pulling)
      | Some dir \<Rightarrow>
          (let imageRef = normalizeRef imageRef0 in
           case mount imageRef of
             Some out \<Rightarrow>
               if Contains out ''not found'' then (Inl (ImageNotPresent imageRef), pullInBackground imageRef pulling)
               else (Inl (MountFailed imageRef), [], pulling)
           | None \<Rightarrow> (inspectRoot (walk dir) fs readlink dir, [], pulling)))"

section \<open>What a scan finds\<close>

definition in_std :: "string \<Rightarrow> entry \<Rightarrow> bool" where
  "in_std root1 e \<longleftrightarrow> stdLibDir (rel_to root1 (file_Dir (E_path e)))"

definition scanned :: "entry list \<Rightarrow> entry list" where
  "scanned walk = filter (\<lambda>e. \<not> E_err e \<and> \<not> E_dir e) walk"

definition glibc_loader :: "entry \<Rightarrow> bool" where "glibc_loader e \<longleftrightarrow> E_name e \<in> set glibcMarkers"
definition musl_loader :: "entry \<Rightarrow> bool" where "musl_loader e \<longleftrightarrow> HasPrefix (E_name e) muslMarkerPrefix"

definition libc_file :: "string \<Rightarrow> bool \<Rightarrow> entry \<Rightarrow> bool" where
  "libc_file root1 std e \<longleftrightarrow> E_name e = ''libc.so.6'' \<and> in_std root1 e = std \<and> E_path e \<noteq> []"

definition first_path :: "(entry \<Rightarrow> bool) \<Rightarrow> entry list \<Rightarrow> string" where
  "first_path P es = (case find P es of None \<Rightarrow> [] | Some e \<Rightarrow> E_path e)"

lemma names_apart:
  "glibc_loader e \<Longrightarrow> \<not> musl_loader e" "glibc_loader e \<Longrightarrow> E_name e \<noteq> ''libc.so.6''" "musl_loader e \<Longrightarrow> E_name e \<noteq> ''libc.so.6''"
  by (auto simp: glibc_loader_def musl_loader_def glibcMarkers_def muslMarkerPrefix_def HasPrefix_def)

lemma find_append: "find P (xs @ ys) = (case find P xs of None \<Rightarrow> find P ys | Some x \<Rightarrow> Some x)"
  by (induction xs) auto

lemma first_path_snoc:
  "first_path (libc_file root1 std) (es @ [e])
    = (if first_path (libc_file root1 std) es = [] \<and> libc_file root1 std e then E_path e else first_path (libc_file root1 std) es)"
proof (cases "find (libc_file root1 std) es")
  case (Some x)
  then have "libc_file root1 std x" by (auto simp: find_Some_iff)
  with Some show ?thesis by (simp add: first_path_def find_append libc_file_def)
qed (simp add: first_path_def find_append)

lemma scan_fold:
  "fold (\<lambda>e. record_entry root1 (E_path e) (E_name e)) es empty_scan =
    \<lparr>glibcStd = (\<exists>e \<in> set es. glibc_loader e \<and> in_std root1 e), glibcOther = (\<exists>e \<in> set es. glibc_loader e \<and> \<not> in_std root1 e),
     musl = (\<exists>e \<in> set es. musl_loader e), libcStd = first_path (libc_file root1 True) es,
     libcOther = first_path (libc_file root1 False) es\<rparr>"
proof (induction es rule: rev_induct)
  case Nil
  then show ?case by (simp add: empty_scan_def first_path_def)
next
  case (snoc e es)
  define libc where "libc \<longleftrightarrow> E_name e = ''libc.so.6''"
  have step: "record_entry root1 (E_path e) (E_name e) r =
      (if glibc_loader e then r\<lparr>glibcStd := (glibcStd r \<or> in_std root1 e), glibcOther := (glibcOther r \<or> \<not> in_std root1 e)\<rparr>
       else if musl_loader e then r\<lparr>musl := True\<rparr>
       else if libc \<and> in_std root1 e \<and> libcStd r = [] then r\<lparr>libcStd := E_path e\<rparr>
       else if libc \<and> \<not> in_std root1 e \<and> libcOther r = [] then r\<lparr>libcOther := E_path e\<rparr>
       else r)" for r
    by (simp add: record_entry_def in_std_def glibc_loader_def musl_loader_def libc_def Let_def)
  have lfile: "libc_file root1 std e \<longleftrightarrow> libc \<and> in_std root1 e = std \<and> E_path e \<noteq> []" for std
    by (simp add: libc_file_def libc_def)
  have apart: "glibc_loader e \<Longrightarrow> \<not> musl_loader e" "glibc_loader e \<Longrightarrow> \<not> libc" "musl_loader e \<Longrightarrow> \<not> libc"
    using names_apart [of e] by (simp_all add: libc_def)
  show ?case
    by (cases "glibc_loader e"; cases "musl_loader e"; cases "in_std root1 e"; cases libc)
      (auto simp: snoc step first_path_snoc lfile dest: apart)
qed

lemma max_minor_ge: "t \<le> max_minor ms \<longleftrightarrow> t \<le> -1 \<or> (\<exists>m \<in> set ms. \<exists>k. Atoi m = Inr k \<and> t \<le> k)"
proof -
  have "t \<le> fold (\<lambda>m best. case Atoi m of Inl _ \<Rightarrow> best | Inr minor \<Rightarrow> if minor > best then minor else best) ms b
    \<longleftrightarrow> t \<le> b \<or> (\<exists>m \<in> set ms. \<exists>k. Atoi m = Inr k \<and> t \<le> k)" for b
    by (induction ms arbitrary: b) (auto split: sum.split)
  then show ?thesis by (simp add: max_minor_def)
qed

text \<open>The \<open>libc.so.6\<close> that is read: one in a standard directory, else the first of the image.\<close>

definition image_libc :: "string \<Rightarrow> entry list \<Rightarrow> string" where
  "image_libc root1 es =
     (if first_path (libc_file root1 True) es = [] then first_path (libc_file root1 False) es
      else first_path (libc_file root1 True) es)"

text \<open>C31: an image counts as protected only on proof. \<open>inspectRoot\<close> answers glibc, the only library the
  audit hook works with, exactly when the tree can be walked, a glibc loader sits in a standard directory
  or one sits elsewhere and there is no musl loader, and the \<open>libc.so.6\<close> of the image can be read
  and defines a version \<open>GLIBC_2.34\<close> or newer; the order of the walk does not matter for the loaders.\<close>

theorem image_protected_iff:
  "inspectRoot walk fs readlink root1 = Inr Glibc \<longleftrightarrow>
     \<not> list_ex (\<lambda>e. E_err e \<and> E_path e = root1) walk
     \<and> (list_ex (\<lambda>e. glibc_loader e \<and> in_std root1 e) (scanned walk)
        \<or> list_ex glibc_loader (scanned walk) \<and> \<not> list_ex musl_loader (scanned walk))
     \<and> image_libc root1 (scanned walk) \<noteq> []
     \<and> (\<exists>content. readInImage fs readlink root1 (image_libc root1 (scanned walk)) = Inr content
          \<and> (\<exists>m k. m \<in> set (glibc_minors content) \<and> Atoi m = Inr k \<and> 34 \<le> k))"
proof (cases "list_ex (\<lambda>e. E_err e \<and> E_path e = root1) walk")
  case False
  define r where "r = fold (\<lambda>e. record_entry root1 (E_path e) (E_name e)) (scanned walk) empty_scan"
  have scan: "scan walk root1 = Some r" using False by (simp add: scan_def r_def scanned_def)
  have flags: "glibcStd r \<longleftrightarrow> list_ex (\<lambda>e. glibc_loader e \<and> in_std root1 e) (scanned walk)"
    "glibcStd r \<or> glibcOther r \<longleftrightarrow> list_ex glibc_loader (scanned walk)" "musl r \<longleftrightarrow> list_ex musl_loader (scanned walk)"
    "libc_path r = image_libc root1 (scanned walk)"
    unfolding r_def scan_fold by (auto simp: list_ex_iff libc_path_def image_libc_def)
  have glibc: "scan_libc r = Glibc \<longleftrightarrow> glibcStd r \<or> (glibcStd r \<or> glibcOther r) \<and> \<not> musl r"
    by (auto simp: scan_libc_def)
  have version: "34 \<le> max_minor ms \<longleftrightarrow> (\<exists>m k. m \<in> set ms \<and> Atoi m = Inr k \<and> 34 \<le> k)" for ms
    using max_minor_ge [of 34 ms] by auto
  have enough: "glibcAtLeastMinimum fs readlink root1 r = Inr True \<longleftrightarrow> libc_path r \<noteq> []
      \<and> (\<exists>content. readInImage fs readlink root1 (libc_path r) = Inr content \<and> 34 \<le> max_minor (glibc_minors content))"
    by (cases "readInImage fs readlink root1 (libc_path r)") (auto simp: glibcAtLeastMinimum_def minGlibcMinor_def Let_def)
  have "inspectRoot walk fs readlink root1 = Inr Glibc \<longleftrightarrow> scan_libc r = Glibc \<and> glibcAtLeastMinimum fs readlink root1 r = Inr True"
    by (cases "glibcAtLeastMinimum fs readlink root1 r") (auto simp: inspectRoot_def scan split: if_splits)
  then show ?thesis unfolding glibc unfolding flags(2) unfolding enough flags(1,3,4) version using False by blast
qed (simp add: inspectRoot_def scan_def)

section \<open>Reading inside the image\<close>

lemma resolve_links_inside:
  "resolve_links readlink root1 n path = Inr p \<Longrightarrow> path = root1 \<or> HasPrefix path (root1 @ ''/'')
    \<Longrightarrow> p = root1 \<or> HasPrefix p (root1 @ ''/'')"
  by (induction n arbitrary: path) (auto simp: Let_def split: option.splits if_splits)

section \<open>Image references are canonical\<close>

lemma after_last_append: "c \<notin> set t \<Longrightarrow> after_last c (s @ c # t) = t"
  by (simp add: after_last_def takeWhile_append)

definition names_registry :: "string \<Rightarrow> bool" where
  "names_registry d \<longleftrightarrow> CHR ''/'' \<notin> set d \<and> (CHR ''.'' \<in> set d \<or> CHR '':'' \<in> set d \<or> d = ''localhost'')"

definition tagged :: "string \<Rightarrow> bool" where
  "tagged r \<longleftrightarrow> CHR '':'' \<in> set (after_last (CHR ''/'') r) \<or> CHR ''@'' \<in> set r"

lemma Cut_joined: "c \<notin> set d \<Longrightarrow> Cut c (d @ c # r) = (d, r, True)"
  by (simp add: Cut_def takeWhile_append dropWhile_append)

lemma normalizeRef_named: "names_registry d \<Longrightarrow> tagged r \<Longrightarrow> normalizeRef (d @ ''/'' @ r) = d @ ''/'' @ r"
  by (auto simp: normalizeRef_def Cut_joined names_registry_def tagged_def)

lemma tagged_latest: "tagged (r @ '':latest'')"
proof -
  have "CHR '':'' \<in> set (takeWhile (\<lambda>c. c \<noteq> CHR ''/'') (rev '':latest'' @ rev r))" by simp
  then show ?thesis by (simp add: tagged_def after_last_def)
qed

lemma tagged_completed:
  "tagged (if CHR '':'' \<notin> set (after_last (CHR ''/'') r) \<and> CHR ''@'' \<notin> set r then r @ '':latest'' else r)"
  by (simp add: tagged_latest) (simp add: tagged_def)

lemma normalizeRef_shape: "\<exists>d r. normalizeRef ref = d @ ''/'' @ r \<and> names_registry d \<and> tagged r"
proof -
  obtain d0 r0 h where cut: "Cut (CHR ''/'') ref = (d0, r0, h)" by (metis prod_cases3)
  have d0: "CHR ''/'' \<notin> set d0" using cut by (auto simp: Cut_def dest: set_takeWhileD split: if_splits)
  let ?bare = "\<not> h \<or> (CHR ''.'' \<notin> set d0 \<and> CHR '':'' \<notin> set d0) \<and> d0 \<noteq> ''localhost''"
  let ?d = "if ?bare then ''docker.io'' else d0"
  let ?r = "if ?bare then (if h then ref else ''library/'' @ ref) else r0"
  let ?t = "if CHR '':'' \<notin> set (after_last (CHR ''/'') ?r) \<and> CHR ''@'' \<notin> set ?r then ?r @ '':latest'' else ?r"
  have "normalizeRef ref = ?d @ ''/'' @ ?t" by (simp add: normalizeRef_def cut Let_def)
  moreover have "names_registry ?d" using d0 by (auto simp: names_registry_def)
  moreover have "tagged ?t" by (rule tagged_completed)
  ultimately show ?thesis by blast
qed

text \<open>References are looked up under one name. The name under which an image is mounted, and pulled, always
  has a registry and a tag or digest, and a reference that already has that form is kept, so the name that
  containerd stores an image under is found from every spelling that normalizes to it.\<close>

theorem normalizeRef_canonical:
  "normalizeRef (normalizeRef ref) = normalizeRef ref
   \<and> (\<exists>registry name. normalizeRef ref = registry @ ''/'' @ name \<and> names_registry registry \<and> tagged name)"
  using normalizeRef_shape [of ref] normalizeRef_named by metis

section \<open>Pulls in the background\<close>

text \<open>The refs of \<open>pulling\<close> and the pulls that run, each a goroutine; any number of calls of \<open>Inspect\<close> come and
  pulls end in any order. A pull that ends, well or not or by its timeout, deletes its ref.\<close>

record pulls =
  Pulling :: "string set"
  Running :: "string list"

inductive pull_step :: "pulls \<Rightarrow> pulls \<Rightarrow> bool" where
  ask: "Inspect mountDir mount walk fs readlink (Pulling s) imageRef0 = (r, started, pulling1)
     \<Longrightarrow> pull_step s \<lparr>Pulling = pulling1, Running = Running s @ started\<rparr>"
| finish: "Running s = as @ imageRef # bs
     \<Longrightarrow> pull_step s \<lparr>Pulling = Pulling s - {imageRef}, Running = as @ bs\<rparr>"

lemma Inspect_pulls:
  assumes "Inspect mountDir mount walk fs readlink pulling imageRef0 = (r, started, pulling1)"
  shows "started = [] \<and> pulling1 = pulling
    \<or> (\<exists>imageRef. imageRef \<notin> pulling \<and> started = [imageRef] \<and> pulling1 = insert imageRef pulling)"
  using assms by (auto simp: Inspect_def pullInBackground_def Let_def split: option.splits if_splits)

definition pulls_exact :: "pulls \<Rightarrow> bool" where
  "pulls_exact s \<longleftrightarrow> distinct (Running s) \<and> set (Running s) = Pulling s"

lemma pull_step_exact: "pull_step s t \<Longrightarrow> pulls_exact s \<Longrightarrow> pulls_exact t"
proof (induction rule: pull_step.induct)
  case (ask mountDir mount walk fs readlink s imageRef0 r started pulling1)
  from Inspect_pulls [OF ask.hyps] ask.prems show ?case by (elim disjE exE) (simp_all add: pulls_exact_def)
next
  case (finish s as imageRef bs)
  then show ?case by (auto simp: pulls_exact_def)
qed

text \<open>An image is pulled by one goroutine at a time, whatever calls and pulls interleave: the pulls that run are exactly the
  refs that are marked, each once, so a missing image whose pull has ended is pulled again when it is next asked for.\<close>

theorem one_pull_per_image:
  assumes "pull_step\<^sup>*\<^sup>* \<lparr>Pulling = {}, Running = []\<rparr> s"
  shows "distinct (Running s) \<and> set (Running s) = Pulling s
    \<and> (\<forall>imageRef. imageRef \<notin> set (Running s) \<longrightarrow> fst (pullInBackground imageRef (Pulling s)) = [imageRef])"
proof -
  have "pulls_exact s" using assms by (induction rule: rtranclp_induct) (simp_all add: pulls_exact_def pull_step_exact [unfolded pulls_exact_def])
  then show ?thesis by (simp add: pulls_exact_def pullInBackground_def)
qed

end
