(* ===== verification/GoFloat.thy ===== *)
theory GoFloat
  imports Registration
begin

text \<open>
  \<open>float64\<close> as the metrics use it: rounding to the nearest value, \<open>strconv.ParseFloat\<close> and the product with a
  positive constant. A value is the rational it stands for; the sign of a zero is not kept.
\<close>

section \<open>Rounding\<close>

datatype go_float = Finite rat | Infinite bool | NotANumber

definition pow2 :: "int \<Rightarrow> rat" where
  "pow2 e = (if 0 \<le> e then 2 ^ nat e else 1 / 2 ^ nat (- e))"

text \<open>The exponent of the leading bit of a positive number.\<close>

definition float_exponent :: "rat \<Rightarrow> int" where
  "float_exponent x = (let (n, d) = quotient_of x; e = bitlen n - bitlen d in if pow2 e \<le> x then e else e - 1)"

text \<open>53 significant bits, fewer below \<open>2 ^ -1022\<close>, ties to even; \<open>2 ^ 1024\<close> and more is infinite.\<close>

definition float64_near :: "rat \<Rightarrow> go_float" where
  "float64_near x =
     (if x = 0 then Finite 0
      else let q = pow2 (max (-1022) (float_exponent \<bar>x\<bar>) - 52); (n, d) = quotient_of (x / q);
               y = of_int (round_half_even n d) * q
           in if pow2 1024 \<le> \<bar>y\<bar> then Infinite (x < 0) else Finite y)"

definition scaled_float :: "rat \<Rightarrow> go_float \<Rightarrow> go_float" where
  "scaled_float constant v =
     (case (v, float64_near constant) of (Finite x, Finite k) \<Rightarrow> float64_near (x * k) | _ \<Rightarrow> v)"

section \<open>ParseFloat\<close>

definition split_sign :: "string \<Rightarrow> bool \<times> string" where
  "split_sign s =
     (case s of [] \<Rightarrow> (False, []) | c # t \<Rightarrow> if c = CHR ''+'' then (False, t) else if c = CHR ''-'' then (True, t) else (False, s))"

definition hex_letter :: "char \<Rightarrow> bool" where
  "hex_letter c \<longleftrightarrow> lower_char c \<in> set ''abcdef''"

definition hex_val :: "char \<Rightarrow> nat" where
  "hex_val c = (if is_digit c then digit_val c else of_char (lower_char c) - 87)"

text \<open>The digits of the mantissa: their value, how many follow the point, whether there is one, and the rest.\<close>

fun scan_mantissa :: "bool \<Rightarrow> bool \<Rightarrow> string \<Rightarrow> nat \<Rightarrow> nat \<Rightarrow> bool \<Rightarrow> nat \<times> nat \<times> bool \<times> string" where
  "scan_mantissa hex dot [] m f saw = (m, f, saw, [])"
| "scan_mantissa hex dot (c # s) m f saw =
     (if c = CHR ''_'' then scan_mantissa hex dot s m f saw
      else if c = CHR ''.'' then (if dot then (m, f, saw, c # s) else scan_mantissa hex True s m f saw)
      else if is_digit c \<or> hex \<and> hex_letter c
        then scan_mantissa hex dot s ((if hex then 16 else 10) * m + hex_val c) (if dot then Suc f else f) True
      else (m, f, saw, c # s))"

text \<open>The digits of the exponent, which stops growing at 10000.\<close>

fun scan_exponent :: "string \<Rightarrow> nat \<Rightarrow> nat \<times> string" where
  "scan_exponent [] e = (e, [])"
| "scan_exponent (c # s) e =
     (if c = CHR ''_'' then scan_exponent s e
      else if is_digit c then scan_exponent s (if e < 10000 then 10 * e + digit_val c else e)
      else (e, c # s))"

text \<open>Underscores only between digits, or after the base prefix.\<close>

datatype underscore_state = AtStart | AfterDigit | AfterUnderscore | AfterOther

fun underscores_from :: "bool \<Rightarrow> underscore_state \<Rightarrow> string \<Rightarrow> bool" where
  "underscores_from hex st [] \<longleftrightarrow> st \<noteq> AfterUnderscore"
| "underscores_from hex st (c # s) \<longleftrightarrow>
     (if is_digit c \<or> hex \<and> hex_letter c then underscores_from hex AfterDigit s
      else if c = CHR ''_'' then st = AfterDigit \<and> underscores_from hex AfterUnderscore s
      else st \<noteq> AfterUnderscore \<and> underscores_from hex AfterOther s)"

definition underscoreOK :: "string \<Rightarrow> bool" where
  "underscoreOK s =
     (let t = snd (split_sign s); prefixed = (2 \<le> length t \<and> t ! 0 = CHR ''0'' \<and> lower_char (t ! 1) \<in> set ''box'')
      in if prefixed then underscores_from (lower_char (t ! 1) = CHR ''x'') AfterDigit (drop 2 t)
         else underscores_from False AtStart t)"

definition float_value :: "bool \<Rightarrow> bool \<Rightarrow> nat \<Rightarrow> nat \<Rightarrow> int \<Rightarrow> rat" where
  "float_value neg hex m f e =
     (let x = (if hex then of_nat m * pow2 (e - 4 * int f)
               else if int f \<le> e then of_nat m * 10 ^ nat (e - int f) else of_nat m / 10 ^ nat (int f - e))
      in if neg then - x else x)"

definition read_float :: "string \<Rightarrow> rat option" where
  "read_float s =
     (case split_sign s of
        (neg, t) \<Rightarrow>
          (let hex = (2 < length t \<and> t ! 0 = CHR ''0'' \<and> lower_char (t ! 1) = CHR ''x'') in
           case scan_mantissa hex False (if hex then drop 2 t else t) 0 0 False of
             (m, f, saw, r) \<Rightarrow>
               if \<not> saw \<or> (CHR ''_'' \<in> set s \<and> \<not> underscoreOK s) then None
               else (case r of
                   [] \<Rightarrow> if hex then None else Some (float_value neg hex m f 0)
                 | c # r1 \<Rightarrow>
                     if lower_char c \<noteq> (if hex then CHR ''p'' else CHR ''e'') then None
                     else (case split_sign r1 of
                         (eneg, r2) \<Rightarrow>
                           if r2 = [] \<or> \<not> is_digit (hd r2) then None
                           else (case scan_exponent r2 0 of
                               (e, r3) \<Rightarrow>
                                 if r3 \<noteq> [] then None
                                 else Some (float_value neg hex m f (if eneg then - int e else int e)))))))"

definition special_float :: "string \<Rightarrow> go_float option" where
  "special_float s =
     (case split_sign s of
        (neg, t) \<Rightarrow>
          if ToLower t = ''inf'' \<or> ToLower t = ''infinity'' then Some (Infinite neg)
          else if ToLower s = ''nan'' then Some NotANumber else None)"

definition ParseFloat :: "string \<Rightarrow> (num_error, go_float) result" where
  "ParseFloat s =
     (case special_float s of
        Some v \<Rightarrow> Inr v
      | None \<Rightarrow>
          (case read_float s of
             None \<Rightarrow> Inl ErrSyntax
           | Some x \<Rightarrow> (case float64_near x of Infinite neg \<Rightarrow> Inl ErrRange | v \<Rightarrow> Inr v)))"

section \<open>Whole numbers are exact\<close>

lemma round_half_even_whole [simp]: "round_half_even n 1 = n"
  by (simp add: round_half_even_def)

lemma bitlen_one [simp]: "bitlen 1 = 1"
  using bitlen_pow2 [of 1 0] by (simp add: compute_bitlen)

lemma quotient_of_whole [simp]: "quotient_of (of_int k) = (k, 1)"
  by (simp add: of_int_rat quotient_of_Fract)

lemma quotient_of_natural [simp]: "quotient_of (of_nat n) = (int n, 1)"
  using quotient_of_whole [of "int n"] by simp

lemma float_exponent_nat:
  assumes "0 < n"
  shows "float_exponent (of_nat n) = bitlen (int n) - 1"
proof -
  have b: "1 \<le> bitlen (int n)" using assms by (simp add: bitlen_ge_iff_power)
  have "(2 :: int) ^ nat (bitlen (int n) - 1) \<le> int n" using assms by (intro conjunct1 [OF bitlen_bounds]) simp
  then have "of_int (2 ^ nat (bitlen (int n) - 1)) \<le> (of_int (int n) :: rat)" by (simp only: of_int_le_iff)
  then have "pow2 (bitlen (int n) - 1) \<le> of_nat n" using b by (simp add: pow2_def)
  then show ?thesis by (simp add: float_exponent_def)
qed

lemma float64_near_nat:
  assumes "n < 2 ^ 53"
  shows "float64_near (of_nat n) = Finite (of_nat n)"
proof (cases "n = 0")
  case False
  define E where "E = bitlen (int n) - 1"
  have "bitlen (int n) \<le> 53" using assms less_power_nat_iff_bitlen [of n 53] by simp
  moreover have "1 \<le> bitlen (int n)" using False by (simp add: bitlen_ge_iff_power)
  ultimately have E1: "0 \<le> E" "E \<le> 52" by (simp_all add: E_def)
  define d where "d = nat (52 - E)"
  have E: "max (-1022) E - 52 = - int d" using E1 by (simp add: d_def)
  have q: "pow2 (- int d) = 1 / 2 ^ d" by (cases "d = 0") (simp_all add: pow2_def)
  have "(of_nat n :: rat) / pow2 (- int d) = of_int (int n * 2 ^ d)" unfolding q by simp
  then have w: "quotient_of ((of_nat n :: rat) / pow2 (- int d)) = (int n * 2 ^ d, 1)" by (simp only: quotient_of_whole)
  have "(of_nat n :: rat) < of_nat (2 ^ 53)" using assms by (simp only: of_nat_less_iff)
  also have "\<dots> \<le> pow2 1024" by (simp add: pow2_def)
  finally have "\<not> pow2 1024 \<le> (of_nat n :: rat)" by simp
  moreover have "of_int (int n * 2 ^ d) * pow2 (- int d) = (of_nat n :: rat)" by (simp add: q)
  moreover have "float_exponent \<bar>of_nat n\<bar> = E" using False by (simp add: float_exponent_nat E_def)
  ultimately show ?thesis using False unfolding float64_near_def by (simp add: E w Let_def mult.assoc)
qed (simp add: float64_near_def)

lemma scan_mantissa_digits:
  "list_all is_digit s \<Longrightarrow> scan_mantissa False False s m 0 saw = (foldl (\<lambda>a c. a * 10 + digit_val c) m s, 0, saw \<or> s \<noteq> [], [])"
proof (induction s arbitrary: m saw)
  case (Cons c s)
  then have "c \<noteq> CHR ''_''" "c \<noteq> CHR ''.''" by (auto simp: is_digit_def)
  with Cons show ?case by (simp add: hex_val_def mult.commute)
qed simp

lemma lower_digit: "is_digit c \<Longrightarrow> lower_char c = c"
  by (auto simp: lower_char_def is_digit_def Let_def)

text \<open>A whole number below \<open>2 ^ 53\<close> is read as itself.\<close>

lemma ParseFloat_whole:
  assumes "n < 2 ^ 53"
  shows "ParseFloat (digits_of n) = Inr (Finite (of_nat n))"
proof -
  let ?s = "digits_of n"
  have digits: "list_all is_digit ?s" by (rule digits_of_digits)
  have hd: "is_digit (hd ?s)" by (rule digits_of_hd_digit)
  have sign: "split_sign ?s = (False, ?s)"
    using hd by (cases ?s) (auto simp: split_sign_def is_digit_def)
  have low: "ToLower ?s = ?s" using digits by (simp add: ToLower_def list_all_iff lower_digit map_idI)
  have "?s \<noteq> ''inf''" "?s \<noteq> ''infinity''" "?s \<noteq> ''nan''" using hd by (auto simp: is_digit_def)
  then have special: "special_float ?s = None" by (simp add: special_float_def sign low)
  have "lower_char (?s ! 1) \<noteq> CHR ''x''" if "2 < length ?s"
  proof -
    have "?s ! 1 \<in> set ?s" using that by (intro nth_mem) simp
    then have "is_digit (?s ! 1)" using digits by (simp add: list_all_iff)
    then show ?thesis by (auto simp: lower_digit is_digit_def)
  qed
  then have hex: "(2 < length ?s \<and> ?s ! 0 = CHR ''0'' \<and> lower_char (?s ! 1) = CHR ''x'') = False" by blast
  have plain: "CHR ''_'' \<notin> set ?s" using set_digits_of [of "CHR ''_''" n] by (auto simp: is_digit_def)
  have "scan_mantissa False False ?s 0 0 False = (n, 0, True, [])"
    using scan_mantissa_digits [OF digits] digits_val_digits_of [of n] by (simp add: digits_val_def)
  then have "read_float ?s = Some (of_nat n)"
    unfolding read_float_def sign prod.case hex Let_def using plain by (simp add: float_value_def)
  then show ?thesis by (simp add: ParseFloat_def special float64_near_nat [OF assms])
qed

end
