(* ===== verification/Collector.thy ===== *)
theory Collector
  imports Dmem GoFloat Registrar
begin

text \<open>
  The metrics of the vGPU monitor, package \<open>internal/pkg/vgpumonitor\<close>: the walk over the cgroups of
  the node (\<open>ReadContainerVRAM\<close> of \<open>cgroup.go\<close>) and the collector (\<open>collector.go\<close>). The files, the directory
  tree, the globs, the pods and the node are parameters; a collection is the list of samples that it sends.
\<close>

section \<open>The cgroups of the containers\<close>

datatype read_failure = Missing | Unreadable string

type_synonym reader = "string \<Rightarrow> (read_failure, string) result"

definition opened :: "reader \<Rightarrow> files" where
  "opened rd path = (case rd path of Inl _ \<Rightarrow> None | Inr content \<Rightarrow> Some content)"

record ContainerVRAM =
  CV_PodUID :: string
  CV_ContainerID :: string
  CV_Region :: string
  CV_Used :: nat
  CV_Limit :: nat

text \<open>A directory with its subdirectories and the failure of listing it, if any. Other entries are visited
  and skipped.\<close>

datatype cgroup_dir = CgroupDir string "cgroup_dir list" "read_failure option"

datatype cgroup_error = CgroupRead read_failure | CgroupScan

datatype visit = Descend | SkipDir "ContainerVRAM list" | StopWalk cgroup_error

definition limit_of :: "(string \<times> nat) list \<Rightarrow> string \<Rightarrow> nat" where
  "limit_of limits region =
     (let l = (case map_of limits region of None \<Rightarrow> 0 | Some l \<Rightarrow> l) in if l \<noteq> MaxUint64 then l else 0)"

definition scope_usage :: "reader \<Rightarrow> string \<Rightarrow> string \<Rightarrow> string \<Rightarrow> visit" where
  "scope_usage rd path uid cid =
     (case rd (path_Join [path, ''dmem.current'']) of
        Inl Missing \<Rightarrow> SkipDir []
      | Inl e \<Rightarrow> StopWalk (CgroupRead e)
      | Inr _ \<Rightarrow>
          (case readDmem (opened rd) (path_Join [path, ''dmem.current'']) of
             Inr (used, False) \<Rightarrow>
               let limits = (case readDmem (opened rd) (path_Join [path, ''dmem.max'']) of Inl _ \<Rightarrow> [] | Inr (l, _) \<Rightarrow> l)
               in SkipDir (map (\<lambda>(region, n). \<lparr>CV_PodUID = uid, CV_ContainerID = cid, CV_Region = region, CV_Used = n,
                    CV_Limit = limit_of limits region\<rparr>) used)
           | _ \<Rightarrow> StopWalk CgroupScan))"

definition visit_dir :: "reader \<Rightarrow> string \<Rightarrow> string \<Rightarrow> visit" where
  "visit_dir rd path name =
     (case containerID name of
        None \<Rightarrow> Descend
      | Some cid \<Rightarrow> (case podUID (file_Dir path) of None \<Rightarrow> SkipDir [] | Some uid \<Rightarrow> scope_usage rd path uid cid))"

fun walk_cgroup :: "reader \<Rightarrow> string \<Rightarrow> cgroup_dir \<Rightarrow> ContainerVRAM list \<times> cgroup_error option"
  and walk_cgroups :: "reader \<Rightarrow> string \<Rightarrow> cgroup_dir list \<Rightarrow> ContainerVRAM list \<times> cgroup_error option" where
  "walk_cgroup rd path (CgroupDir name children failure) =
     (case visit_dir rd path name of
        SkipDir out \<Rightarrow> (out, None)
      | StopWalk e \<Rightarrow> ([], Some e)
      | Descend \<Rightarrow>
          (case failure of
             Some (Unreadable e) \<Rightarrow> ([], Some (CgroupRead (Unreadable e)))
           | _ \<Rightarrow> walk_cgroups rd path children))"
| "walk_cgroups rd path [] = ([], None)"
| "walk_cgroups rd path (CgroupDir name children failure # ds) =
     (case walk_cgroup rd (path_Join [path, name]) (CgroupDir name children failure) of
        (out, Some e) \<Rightarrow> (out, Some e)
      | (out, None) \<Rightarrow> (case walk_cgroups rd path ds of (rest1, e) \<Rightarrow> (out @ rest1, e)))"

text \<open>\<open>kubepods\<close> is what is found at the path of \<open>kubepods.slice\<close>.\<close>

definition ReadContainerVRAM ::
  "reader \<Rightarrow> (read_failure, cgroup_dir) result \<Rightarrow> string \<Rightarrow> ContainerVRAM list \<times> cgroup_error option" where
  "ReadContainerVRAM rd kubepods cgroupRoot =
     (case kubepods of
        Inl Missing \<Rightarrow> ([], None)
      | Inl e \<Rightarrow> ([], Some (CgroupRead e))
      | Inr root1 \<Rightarrow> walk_cgroup rd (path_Join [cgroupRoot, ''kubepods.slice'']) root1)"

section \<open>Samples\<close>

record sample =
  S_Name :: string
  S_Labels :: "string list"
  S_Value :: go_float

datatype collect_error =
    NodeFailed | NoRegistration | BadRegistration | HostGlob | UnreadableSysfs "(string \<times> string) list"
  | PodsFailed | CgroupFailed cgroup_error | UnregisteredDevices "string list"

definition monitorAnnosKey :: string where "monitorAnnosKey = ''hami.io/node-amd-register''"

text \<open>Two's complement of 64 bits.\<close>

definition int64_of :: "int \<Rightarrow> int" where
  "int64_of n = (n + 2 ^ 63) mod 2 ^ 64 - 2 ^ 63"

text \<open>\<open>None\<close> is the panic of a nil device.\<close>

fun index_devices :: "read_device option list \<Rightarrow> (string \<times> read_device) list \<Rightarrow> (string \<times> read_device) list option" where
  "index_devices [] byBDF = Some byBDF"
| "index_devices (None # infos) byBDF = None"
| "index_devices (Some info # infos) byBDF =
     index_devices infos (case map_of (RD_Custom info) ''pciBDF'' of Some (JStr bdf) \<Rightarrow> assoc_update bdf info byBDF | _ \<Rightarrow> byBDF)"

definition registeredDevices ::
  "('e, Node) result \<Rightarrow> (collect_error, (string \<times> read_device) list) result option" where
  "registeredDevices node =
     (case node of
        Inl _ \<Rightarrow> Some (Inl NodeFailed)
      | Inr n \<Rightarrow>
          (case map_of (NAnnotations n) monitorAnnosKey of
             None \<Rightarrow> Some (Inl NoRegistration)
           | Some raw \<Rightarrow>
               (case unmarshalDevices raw of
                  None \<Rightarrow> Some (Inl BadRegistration)
                | Some infos \<Rightarrow> map_option Inr (index_devices infos []))))"

section \<open>The cards\<close>

definition ueventValue :: "string \<Rightarrow> string \<Rightarrow> string" where
  "ueventValue uevent key =
     (case List.map_filter (\<lambda>line. CutPrefix line (key @ ''='')) (Split (CHR 0x0A) uevent) of
        [] \<Rightarrow> [] | v # _ \<Rightarrow> TrimSpace v)"

datatype number_failure = NotRead read_failure | NotNumber num_error

definition readNumber :: "reader \<Rightarrow> string \<Rightarrow> (number_failure, go_float) result" where
  "readNumber rd path =
     (case rd path of
        Inl e \<Rightarrow> Inl (NotRead e)
      | Inr raw \<Rightarrow> (case ParseFloat (TrimSpace raw) of Inl e \<Rightarrow> Inl (NotNumber e) | Inr v \<Rightarrow> Inr v))"

text \<open>\<open>emit\<close>: the sample, or the file that could not be read.\<close>

definition emit_host ::
  "reader \<Rightarrow> string \<Rightarrow> string \<Rightarrow> string list \<Rightarrow> string \<times> string \<times> rat \<times> bool \<Rightarrow> sample list \<times> (string \<times> string) list" where
  "emit_host rd dir bdf labels = (\<lambda>(name, file1, factor, optional).
     (case readNumber rd (path_Join [dir, file1]) of
        Inr v \<Rightarrow> ([\<lparr>S_Name = name, S_Labels = labels, S_Value = scaled_float factor v\<rparr>], [])
      | Inl e \<Rightarrow> if optional \<and> e = NotRead Missing then ([], []) else ([], [(bdf, file1)])))"

definition hwmon_file :: "string \<Rightarrow> string \<Rightarrow> string \<Rightarrow> string" where
  "hwmon_file dir hw f = drop (Suc (length dir)) (path_Join [hw, f])"

definition host_metrics :: "string \<Rightarrow> string list \<Rightarrow> (string \<times> string \<times> rat \<times> bool) list" where
  "host_metrics dir hwmons =
     [(''hami_host_gpu_memory_used_bytes'', ''mem_info_vram_used'', 1, False),
      (''hami_host_gpu_memory_total_bytes'', ''mem_info_vram_total'', 1, False),
      (''hami_host_gpu_utilization_ratio'', ''gpu_busy_percent'', 1, False)]
     @ (case hwmons of
          [] \<Rightarrow> []
        | hw # _ \<Rightarrow>
            [(''hami_host_gpu_temperature_celsius'', hwmon_file dir hw ''temp1_input'', 1 / 1000, True),
             (''hami_host_gpu_power_usage_watts'', hwmon_file dir hw ''power1_average'', 1 / 1000000, True)])"

definition card_device :: "reader \<Rightarrow> (string \<times> read_device) list \<Rightarrow> string \<Rightarrow> (string \<times> read_device) option" where
  "card_device rd devices dir =
     (case rd (path_Join [dir, ''uevent'']) of
        Inl _ \<Rightarrow> None
      | Inr uevent \<Rightarrow>
          if \<not> Contains uevent ''DRIVER=amdgpu'' then None
          else let bdf = ueventValue uevent ''PCI_SLOT_NAME'' in map_option (Pair bdf) (map_of devices bdf))"

definition host_labels :: "string \<Rightarrow> read_device \<Rightarrow> string list" where
  "host_labels nodeName info = [nodeName, Itoa (int64_of (int (RD_Index info))), RD_ID info, RD_Type info]"

definition collect_card ::
  "reader \<Rightarrow> (string \<Rightarrow> string list option) \<Rightarrow> string \<Rightarrow> (string \<times> read_device) list \<Rightarrow> string \<Rightarrow> (sample list \<times> (string \<times> string) list) list" where
  "collect_card rd glob nodeName devices dir =
     (case card_device rd devices dir of
        None \<Rightarrow> []
      | Some (bdf, info) \<Rightarrow>
          map (emit_host rd dir bdf (host_labels nodeName info))
            (host_metrics dir (case glob (path_Join [dir, ''hwmon'', ''hwmon*'']) of None \<Rightarrow> [] | Some hw \<Rightarrow> hw)))"

definition collectHost ::
  "reader \<Rightarrow> (string \<Rightarrow> string list option) \<Rightarrow> string \<Rightarrow> string \<Rightarrow> (string \<times> read_device) list \<Rightarrow> sample list \<times> collect_error option" where
  "collectHost rd glob nodeName drmRoot devices =
     (case glob (path_Join [drmRoot, ''card*'', ''device'']) of
        None \<Rightarrow> ([], Some HostGlob)
      | Some cards \<Rightarrow>
          (let parts = concat (map (collect_card rd glob nodeName devices) cards); failed = concat (map snd parts)
           in (concat (map fst parts), if failed \<noteq> [] then Some (UnreadableSysfs failed) else None)))"

section \<open>The containers\<close>

record mon_container =
  MC_Name :: string
  MC_Limits :: "(string \<times> int) list"

record mon_status =
  MS_Name :: string
  MS_ContainerID :: string

record mon_pod =
  MP_Namespace :: string
  MP_Name :: string
  MP_InitContainers :: "mon_container list"
  MP_Containers :: "mon_container list"
  MP_InitContainerStatuses :: "mon_status list"
  MP_ContainerStatuses :: "mon_status list"

definition requestsAMD :: "mon_container \<Rightarrow> bool" where
  "requestsAMD ctr \<longleftrightarrow> list_ex (\<lambda>(name, q). HasPrefix name ''amd.com/'') (MC_Limits ctr)"

text \<open>What follows the first occurrence of \<open>sep\<close>.\<close>

fun cut_after :: "string \<Rightarrow> string \<Rightarrow> string option" where
  "cut_after sep s =
     (if HasPrefix s sep then Some (drop (length sep) s) else case s of [] \<Rightarrow> None | c # t \<Rightarrow> cut_after sep t)"

declare cut_after.simps [simp del]

type_synonym owners = "(string \<times> mon_pod \<times> mon_container) list"

definition pod_statuses :: "mon_pod \<Rightarrow> mon_status list" where
  "pod_statuses pod = MP_InitContainerStatuses pod @ MP_ContainerStatuses pod"

definition status_owner :: "mon_pod \<Rightarrow> mon_status \<Rightarrow> owners \<Rightarrow> owners" where
  "status_owner pod st owners =
     (case cut_after ''://'' (MS_ContainerID st) of
        None \<Rightarrow> owners
      | Some cid \<Rightarrow>
          fold (\<lambda>ctr owners. if MC_Name ctr = MS_Name st \<and> requestsAMD ctr then assoc_update cid (pod, ctr) owners else owners)
            (MP_InitContainers pod @ MP_Containers pod) owners)"

definition container_owners :: "mon_pod list \<Rightarrow> owners" where
  "container_owners pods = fold (\<lambda>pod. fold (status_owner pod) (pod_statuses pod)) pods []"

definition memoryResource :: string where "memoryResource = ''amd.com/gpumem''"

definition container_limit :: "mon_container \<Rightarrow> ContainerVRAM \<Rightarrow> go_float" where
  "container_limit ctr u =
     (if float64_near (of_nat (CV_Limit u)) \<noteq> Finite 0 then float64_near (of_nat (CV_Limit u))
      else case map_of (MC_Limits ctr) memoryResource of
             None \<Rightarrow> Finite 0 | Some q \<Rightarrow> float64_near (of_int (int64_of (q * 2 ^ 20))))"

fun positive_float :: "go_float \<Rightarrow> bool" where
  "positive_float (Finite x) \<longleftrightarrow> 0 < x"
| "positive_float (Infinite neg) \<longleftrightarrow> \<not> neg"
| "positive_float NotANumber \<longleftrightarrow> False"

definition usage_samples :: "mon_pod \<Rightarrow> mon_container \<Rightarrow> nat \<Rightarrow> read_device \<Rightarrow> ContainerVRAM \<Rightarrow> sample list" where
  "usage_samples pod ctr idx info u =
     (let labels = [MP_Namespace pod, MP_Name pod, MC_Name ctr, Itoa (int idx), RD_ID info]; limit = container_limit ctr u
      in \<lparr>S_Name = ''hami_vgpu_memory_used_bytes'', S_Labels = labels, S_Value = float64_near (of_nat (CV_Used u))\<rparr>
         # (if positive_float limit then [\<lparr>S_Name = ''hami_vgpu_memory_limit_bytes'', S_Labels = labels, S_Value = limit\<rparr>] else []))"

text \<open>The card a region names, if it names one.\<close>

definition region_card :: "string \<Rightarrow> string option" where
  "region_card region =
     (let parts = Split (CHR ''/'') region in
      if length parts < 3 \<or> parts ! 0 \<noteq> ''drm'' then None else Some (parts ! 1))"

fun report_usages ::
  "owners \<Rightarrow> (string \<times> read_device) list \<Rightarrow> ContainerVRAM list \<Rightarrow> (string \<Rightarrow> nat) \<Rightarrow> sample list \<times> string list" where
  "report_usages owners devices [] next1 = ([], [])"
| "report_usages owners devices (u # us) next1 =
     (case map_of owners (CV_ContainerID u) of
        None \<Rightarrow> report_usages owners devices us next1
      | Some (pod, ctr) \<Rightarrow>
          (case region_card (CV_Region u) of
             None \<Rightarrow> report_usages owners devices us next1
           | Some bdf \<Rightarrow>
               (case map_of devices bdf of
                  None \<Rightarrow> (case report_usages owners devices us next1 of (samples, unknown) \<Rightarrow> (samples, bdf # unknown))
                | Some info \<Rightarrow>
                    (case report_usages owners devices us
                       (next1(CV_ContainerID u := Suc (next1 (CV_ContainerID u)))) of
                       (samples, unknown) \<Rightarrow>
                         (usage_samples pod ctr (next1 (CV_ContainerID u)) info u @ samples, unknown)))))"

text \<open>\<open>sort.Slice\<close> is not stable: \<open>by_region\<close> is any permutation in the order of the regions.\<close>

definition collectContainers ::
  "(ContainerVRAM list \<Rightarrow> ContainerVRAM list) \<Rightarrow> ('e, mon_pod list) result \<Rightarrow> ContainerVRAM list \<times> cgroup_error option
     \<Rightarrow> (string \<times> read_device) list \<Rightarrow> sample list \<times> collect_error option" where
  "collectContainers by_region pods usages devices =
     (case pods of
        Inl _ \<Rightarrow> ([], Some PodsFailed)
      | Inr ps \<Rightarrow>
          (case usages of
             (_, Some e) \<Rightarrow> ([], Some (CgroupFailed e))
           | (us, None) \<Rightarrow>
               (case report_usages (container_owners ps) devices (by_region us) (\<lambda>_. 0) of
                  (samples, unknown) \<Rightarrow> (samples, if unknown \<noteq> [] then Some (UnregisteredDevices unknown) else None))))"

section \<open>A collection\<close>

record 'e monitor =
  M_NodeName :: string
  M_CgroupRoot :: string
  M_DRMRoot :: string
  M_Pods :: "('e, mon_pod list) result"
  M_Node :: "('e, Node) result"
  M_files :: reader
  M_glob :: "string \<Rightarrow> string list option"
  M_kubepods :: "(read_failure, cgroup_dir) result"
  M_by_region :: "ContainerVRAM list \<Rightarrow> ContainerVRAM list"

definition success_sample :: "string \<Rightarrow> bool \<Rightarrow> sample" where
  "success_sample nodeName ok =
     \<lparr>S_Name = ''hami_vgpumonitor_collect_success'', S_Labels = [nodeName], S_Value = Finite (if ok then 1 else 0)\<rparr>"

text \<open>\<open>None\<close> is the panic.\<close>

definition Collect :: "'e monitor \<Rightarrow> sample list option" where
  "Collect M =
     (case registeredDevices (M_Node M) of
        None \<Rightarrow> None
      | Some (Inl _) \<Rightarrow> Some [success_sample (M_NodeName M) False]
      | Some (Inr devices) \<Rightarrow>
          (case collectHost (M_files M) (M_glob M) (M_NodeName M) (M_DRMRoot M) devices of
             (host, e1) \<Rightarrow>
               (case collectContainers (M_by_region M) (M_Pods M)
                  (ReadContainerVRAM (M_files M) (M_kubepods M) (M_CgroupRoot M)) devices of
                  (containers, e2) \<Rightarrow> Some (host @ containers @ [success_sample (M_NodeName M) (e1 = None \<and> e2 = None)]))))"

section \<open>Owners\<close>

definition owned_by :: "mon_pod list \<Rightarrow> string \<Rightarrow> mon_pod \<Rightarrow> mon_container \<Rightarrow> bool" where
  "owned_by pods cid p c \<longleftrightarrow> p \<in> set pods
     \<and> (\<exists>st \<in> set (pod_statuses p). cut_after ''://'' (MS_ContainerID st) = Some cid \<and> MS_Name st = MC_Name c)"

definition all_owned :: "mon_pod list \<Rightarrow> owners \<Rightarrow> bool" where
  "all_owned pods owners \<longleftrightarrow> (\<forall>cid p c. map_of owners cid = Some (p, c) \<longrightarrow> owned_by pods cid p c)"

lemma all_owned_update: "all_owned pods owners \<Longrightarrow> owned_by pods cid p c \<Longrightarrow> all_owned pods (assoc_update cid (p, c) owners)"
  by (simp add: all_owned_def map_of_assoc_update)

lemma fold_preserves: "(\<And>x m. x \<in> set xs \<Longrightarrow> I m \<Longrightarrow> I (f x m)) \<Longrightarrow> I m \<Longrightarrow> I (fold f xs m)"
  by (induction xs arbitrary: m) auto

lemma status_owner_owned:
  assumes "pod \<in> set pods" "st \<in> set (pod_statuses pod)" "all_owned pods owners"
  shows "all_owned pods (status_owner pod st owners)"
proof (cases "cut_after ''://'' (MS_ContainerID st)")
  case (Some cid)
  have "owned_by pods cid pod ctr" if "MC_Name ctr = MS_Name st" for ctr
    unfolding owned_by_def using assms(1,2) Some that by metis
  then show ?thesis
    unfolding status_owner_def Some option.case
    by (intro fold_preserves [where I = "all_owned pods"]) (simp_all add: all_owned_update assms(3))
qed (use assms in \<open>simp add: status_owner_def\<close>)

lemma container_owners_owned: "all_owned pods (container_owners pods)"
proof -
  have "all_owned pods (fold (\<lambda>pod. fold (status_owner pod) (pod_statuses pod)) pods [])"
    by (intro fold_preserves [where I = "all_owned pods"] status_owner_owned) (simp_all add: all_owned_def)
  then show ?thesis by (simp add: container_owners_def)
qed

text \<open>Names as the API server keeps them: one pod of a name in a namespace, one status of a container in a pod.\<close>

definition pods_named :: "mon_pod list \<Rightarrow> bool" where
  "pods_named pods \<longleftrightarrow> distinct (map (\<lambda>p. (MP_Namespace p, MP_Name p)) pods)
     \<and> list_all (\<lambda>p. distinct (map MS_Name (pod_statuses p))) pods"

lemma distinct_map_eq: "distinct (map f xs) \<Longrightarrow> x \<in> set xs \<Longrightarrow> y \<in> set xs \<Longrightarrow> f x = f y \<Longrightarrow> x = y"
  by (simp add: distinct_map inj_on_def)

lemma owner_identifies:
  assumes "pods_named pods" "map_of (container_owners pods) cid1 = Some (p1, c1)" "map_of (container_owners pods) cid2 = Some (p2, c2)"
    and "MP_Namespace p1 = MP_Namespace p2" "MP_Name p1 = MP_Name p2" "MC_Name c1 = MC_Name c2"
  shows "cid1 = cid2"
proof -
  from container_owners_owned [of pods] assms(2,3) have o: "owned_by pods cid1 p1 c1" "owned_by pods cid2 p2 c2"
    by (simp_all add: all_owned_def)
  then have p: "p1 = p2" using assms(1,4,5) distinct_map_eq [of "\<lambda>p. (MP_Namespace p, MP_Name p)" pods p1 p2]
    by (simp add: owned_by_def pods_named_def)
  obtain s1 s2 where s: "s1 \<in> set (pod_statuses p1)" "cut_after ''://'' (MS_ContainerID s1) = Some cid1" "MS_Name s1 = MC_Name c1"
    "s2 \<in> set (pod_statuses p1)" "cut_after ''://'' (MS_ContainerID s2) = Some cid2" "MS_Name s2 = MC_Name c2"
    using o p unfolding owned_by_def by metis
  moreover have "distinct (map MS_Name (pod_statuses p1))" using assms(1) o(1) by (simp add: pods_named_def list_all_iff owned_by_def)
  ultimately have "s1 = s2" using assms(6) distinct_map_eq by metis
  with s show ?thesis by simp
qed

section \<open>Series\<close>

definition series :: "sample \<Rightarrow> string \<times> string list" where
  "series s = (S_Name s, S_Labels s)"

definition vram_labels_of :: "mon_pod \<Rightarrow> mon_container \<Rightarrow> nat \<Rightarrow> read_device \<Rightarrow> string list" where
  "vram_labels_of p c idx info = [MP_Namespace p, MP_Name p, MC_Name c, Itoa (int idx), RD_ID info]"

definition vram_names :: "string list" where
  "vram_names = [''hami_vgpu_memory_used_bytes'', ''hami_vgpu_memory_limit_bytes'']"

lemma usage_samples_series:
  "s \<in> set (usage_samples p c idx info u) \<Longrightarrow> S_Labels s = vram_labels_of p c idx info \<and> S_Name s \<in> set vram_names"
  "distinct (map series (usage_samples p c idx info u))"
  by (auto simp: usage_samples_def vram_labels_of_def vram_names_def series_def Let_def split: if_splits)

lemma Itoa_nat_inj: "Itoa (int m) = Itoa (int n) \<Longrightarrow> m = n"
  by (metis Itoa_int digits_val_digits_of)

lemma report_usages_labels:
  "s \<in> set (fst (report_usages owners devices us next1)) \<Longrightarrow>
     \<exists>cid p c idx info. map_of owners cid = Some (p, c) \<and> next1 cid \<le> idx \<and> S_Labels s = vram_labels_of p c idx info
       \<and> S_Name s \<in> set vram_names"
proof (induction us arbitrary: next1)
  case (Cons u us)
  show ?case
  proof (cases "s \<in> set (fst (report_usages owners devices us next1))")
    case True
    then show ?thesis by (rule Cons.IH)
  next
    case False
    let ?cid = "CV_ContainerID u"
    obtain p c where o: "map_of owners ?cid = Some (p, c)" using Cons.prems False by (auto split: option.splits)
    obtain bdf where r: "region_card (CV_Region u) = Some bdf" using Cons.prems False o by (auto split: option.splits)
    obtain info where d: "map_of devices bdf = Some info"
      using Cons.prems False o r by (auto split: option.splits prod.splits)
    let ?next = "next1(?cid := Suc (next1 ?cid))"
    have "s \<in> set (usage_samples p c (next1 ?cid) info u) \<or> s \<in> set (fst (report_usages owners devices us ?next))"
      using Cons.prems o r d by (auto split: prod.splits)
    then show ?thesis
    proof
      assume "s \<in> set (usage_samples p c (next1 ?cid) info u)"
      with usage_samples_series(1) o show ?thesis by blast
    next
      assume "s \<in> set (fst (report_usages owners devices us ?next))"
      from Cons.IH [OF this] obtain cid p' c' idx info' where
        "map_of owners cid = Some (p', c')" "?next cid \<le> idx" "S_Labels s = vram_labels_of p' c' idx info'" "S_Name s \<in> set vram_names"
        by blast
      moreover from this(2) have "next1 cid \<le> idx" by (cases "cid = ?cid") auto
      ultimately show ?thesis by blast
    qed
  qed
qed simp

lemma report_usages_distinct:
  assumes "\<And>cid1 cid2 p1 c1 p2 c2. map_of owners cid1 = Some (p1, c1) \<Longrightarrow> map_of owners cid2 = Some (p2, c2)
    \<Longrightarrow> MP_Namespace p1 = MP_Namespace p2 \<Longrightarrow> MP_Name p1 = MP_Name p2 \<Longrightarrow> MC_Name c1 = MC_Name c2 \<Longrightarrow> cid1 = cid2"
  shows "distinct (map series (fst (report_usages owners devices us next1)))"
proof (induction us arbitrary: next1)
  case (Cons u us)
  let ?cid = "CV_ContainerID u" and ?next = "next1(CV_ContainerID u := Suc (next1 (CV_ContainerID u)))"
  have new: "distinct (map series (usage_samples p c (next1 ?cid) info u @ fst (report_usages owners devices us ?next)))"
    if o: "map_of owners ?cid = Some (p, c)" for p c info
  proof -
    have "series s \<noteq> series t"
      if s: "s \<in> set (usage_samples p c (next1 ?cid) info u)" and t: "t \<in> set (fst (report_usages owners devices us ?next))" for s t
    proof
      assume eq: "series s = series t"
      from report_usages_labels [OF t] obtain cid p' c' idx info' where
        t': "map_of owners cid = Some (p', c')" "?next cid \<le> idx" "S_Labels t = vram_labels_of p' c' idx info'" by blast
      have "vram_labels_of p c (next1 ?cid) info = vram_labels_of p' c' idx info'"
        using usage_samples_series(1) [OF s] t'(3) eq by (simp add: series_def)
      then have "?cid = cid" "next1 ?cid = idx" using assms [OF o t'(1)] Itoa_nat_inj by (auto simp: vram_labels_of_def)
      with t'(2) show False by simp
    qed
    with usage_samples_series(2) Cons.IH show ?thesis by fastforce
  qed
  show ?case using new Cons.IH by (auto split: option.splits prod.splits simp del: map_append) (metis fst_conv)
qed simp

text \<open>A list put together from parts has no duplicates when the parts have none and an owner tells them apart.\<close>

lemma distinct_parts:
  assumes "\<And>x. x \<in> set xs \<Longrightarrow> distinct (g x)" "distinct xs"
    and "\<And>x y. x \<in> set xs \<Longrightarrow> y \<in> set xs \<Longrightarrow> set (g x) \<inter> set (g y) \<noteq> {} \<Longrightarrow> x = y"
  shows "distinct (concat (map g xs))"
  using assms
proof (induction xs)
  case (Cons x xs)
  have "distinct (concat (map g xs))" using Cons.IH Cons.prems by auto
  moreover have "set (g x) \<inter> set (concat (map g xs)) = {}"
  proof -
    have "set (g x) \<inter> set (g y) = {}" if "y \<in> set xs" for y
      using Cons.prems(2) Cons.prems(3) [of x y] that by auto
    then show ?thesis by auto
  qed
  ultimately show ?case using Cons.prems(1) by simp
qed simp

lemma common_image: "set (map f xs) \<inter> set (map f ys) \<noteq> {} \<Longrightarrow> \<exists>x y. x \<in> set xs \<and> y \<in> set ys \<and> f x = f y"
  by (simp, blast)

lemma emit_host_series:
  "s \<in> set (fst (emit_host rd dir bdf labels m)) \<Longrightarrow> series s = (fst m, labels)"
  "distinct (map series (fst (emit_host rd dir bdf labels m)))"
  by (auto simp: emit_host_def series_def split: prod.splits sum.splits if_splits)

lemma host_metrics_names: "distinct (map fst (host_metrics dir hwmons))"
  by (cases hwmons) (auto simp: host_metrics_def)

definition host_names :: "string list" where
  "host_names = [''hami_host_gpu_memory_used_bytes'', ''hami_host_gpu_memory_total_bytes'', ''hami_host_gpu_utilization_ratio'',
     ''hami_host_gpu_temperature_celsius'', ''hami_host_gpu_power_usage_watts'']"

lemma host_metrics_host: "m \<in> set (host_metrics dir hwmons) \<Longrightarrow> fst m \<in> set host_names"
  by (auto simp: host_metrics_def host_names_def split: list.splits)

definition card_samples :: "reader \<Rightarrow> (string \<Rightarrow> string list option) \<Rightarrow> string \<Rightarrow> (string \<times> read_device) list \<Rightarrow> string \<Rightarrow> sample list" where
  "card_samples rd glob nodeName devices dir = concat (map fst (collect_card rd glob nodeName devices dir))"

lemma card_samples_series:
  "s \<in> set (card_samples rd glob nodeName devices dir) \<Longrightarrow>
     \<exists>bdf info. card_device rd devices dir = Some (bdf, info) \<and> S_Labels s = host_labels nodeName info \<and> S_Name s \<in> set host_names"
proof -
  assume s: "s \<in> set (card_samples rd glob nodeName devices dir)"
  then obtain bdf info where d: "card_device rd devices dir = Some (bdf, info)"
    by (cases "card_device rd devices dir") (auto simp: card_samples_def collect_card_def)
  let ?ms = "host_metrics dir (case glob (path_Join [dir, ''hwmon'', ''hwmon*'']) of None \<Rightarrow> [] | Some hw \<Rightarrow> hw)"
  from s obtain m where m: "m \<in> set ?ms" "s \<in> set (fst (emit_host rd dir bdf (host_labels nodeName info) m))"
    by (auto simp: card_samples_def collect_card_def d)
  from emit_host_series(1) [OF m(2)] host_metrics_host [OF m(1)] d show ?thesis by (auto simp: series_def)
qed

lemma card_samples_distinct: "distinct (map series (card_samples rd glob nodeName devices dir))"
proof (cases "card_device rd devices dir")
  case (Some x)
  obtain bdf info where x: "x = (bdf, info)" by (cases x)
  let ?ms = "host_metrics dir (case glob (path_Join [dir, ''hwmon'', ''hwmon*'']) of None \<Rightarrow> [] | Some hw \<Rightarrow> hw)"
  let ?g = "\<lambda>m. map series (fst (emit_host rd dir bdf (host_labels nodeName info) m))"
  have "distinct (concat (map ?g ?ms))"
  proof (rule distinct_parts)
    show "distinct ?ms" using host_metrics_names distinct_map by blast
    fix m m' assume m: "m \<in> set ?ms" "m' \<in> set ?ms" "set (?g m) \<inter> set (?g m') \<noteq> {}"
    obtain s s' where "s \<in> set (fst (emit_host rd dir bdf (host_labels nodeName info) m))"
      "s' \<in> set (fst (emit_host rd dir bdf (host_labels nodeName info) m'))" "series s = series s'" using common_image [OF m(3)] by blast
    then have "fst m = fst m'" using emit_host_series(1) by (metis fst_conv)
    then show "m = m'" using host_metrics_names m(1,2) distinct_map_eq by metis
  qed (rule emit_host_series(2))
  then show ?thesis by (simp add: card_samples_def collect_card_def Some x map_concat comp_def)
qed (simp add: card_samples_def collect_card_def)

lemma concat_map_parts: "concat (map f (concat (map g xs))) = concat (map (\<lambda>x. concat (map f (g x))) xs)"
  by (induction xs) simp_all

lemma collectHost_samples:
  "fst (collectHost rd glob nodeName drmRoot devices) =
     (case glob (path_Join [drmRoot, ''card*'', ''device'']) of
        None \<Rightarrow> [] | Some cards \<Rightarrow> concat (map (card_samples rd glob nodeName devices) cards))"
  by (simp add: collectHost_def Let_def concat_map_parts card_samples_def [abs_def] split: option.split)

text \<open>Every registered card is found under one directory.\<close>

definition cards_apart :: "reader \<Rightarrow> (string \<times> read_device) list \<Rightarrow> string list \<Rightarrow> bool" where
  "cards_apart rd devices cards \<longleftrightarrow> distinct cards
     \<and> (\<forall>d1 \<in> set cards. \<forall>d2 \<in> set cards. card_device rd devices d1 \<noteq> None
          \<longrightarrow> map_option fst (card_device rd devices d1) = map_option fst (card_device rd devices d2) \<longrightarrow> d1 = d2)"

lemma card_device_registered: "card_device rd devices dir = Some (bdf, info) \<Longrightarrow> map_of devices bdf = Some info"
  by (auto simp: card_device_def Let_def split: sum.splits if_splits)

lemma collectHost_distinct:
  assumes "distinct (map (RD_ID \<circ> snd) devices)"
    and "\<And>cards. glob (path_Join [drmRoot, ''card*'', ''device'']) = Some cards \<Longrightarrow> cards_apart rd devices cards"
  shows "distinct (map series (fst (collectHost rd glob nodeName drmRoot devices)))"
proof (cases "glob (path_Join [drmRoot, ''card*'', ''device''])")
  case (Some cards)
  let ?g = "\<lambda>dir. map series (card_samples rd glob nodeName devices dir)"
  have "distinct (concat (map ?g cards))"
  proof (rule distinct_parts)
    show "distinct cards" using assms(2) [OF Some] by (simp add: cards_apart_def)
    fix d1 d2 assume d: "d1 \<in> set cards" "d2 \<in> set cards" "set (?g d1) \<inter> set (?g d2) \<noteq> {}"
    then obtain s1 s2 where s: "s1 \<in> set (card_samples rd glob nodeName devices d1)" "s2 \<in> set (card_samples rd glob nodeName devices d2)"
      "series s1 = series s2" using common_image [OF d(3)] by blast
    from card_samples_series [OF s(1)] card_samples_series [OF s(2)] obtain b1 i1 b2 i2 where
      c: "card_device rd devices d1 = Some (b1, i1)" "card_device rd devices d2 = Some (b2, i2)"
        "S_Labels s1 = host_labels nodeName i1" "S_Labels s2 = host_labels nodeName i2" by blast
    then have "RD_ID i1 = RD_ID i2" using s(3) by (simp add: series_def host_labels_def)
    then have "(b1, i1) = (b2, i2)"
      using distinct_map_eq [OF assms(1), of "(b1, i1)" "(b2, i2)"] card_device_registered [OF c(1)] card_device_registered [OF c(2)]
      by (simp add: map_of_SomeD)
    then show "d1 = d2" using assms(2) [OF Some] d(1,2) c(1,2) by (auto simp: cards_apart_def)
  qed (rule card_samples_distinct)
  then show ?thesis by (simp add: collectHost_samples Some map_concat comp_def)
qed (simp add: collectHost_samples)

text \<open>What the metrics take from their surroundings: the names of the pods, one id per registered device and one
  directory per card.\<close>

definition well_named :: "'e monitor \<Rightarrow> bool" where
  "well_named M \<longleftrightarrow> (case M_Pods M of Inl _ \<Rightarrow> True | Inr ps \<Rightarrow> pods_named ps)
     \<and> (case registeredDevices (M_Node M) of
          Some (Inr devices) \<Rightarrow> distinct (map (RD_ID \<circ> snd) devices)
            \<and> (case M_glob M (path_Join [M_DRMRoot M, ''card*'', ''device'']) of
                 None \<Rightarrow> True | Some cards \<Rightarrow> cards_apart (M_files M) devices cards)
        | _ \<Rightarrow> True)"

lemma collectContainers_samples:
  "fst (collectContainers by_region pods usages devices) =
     (case (pods, snd usages) of
        (Inr ps, None) \<Rightarrow> fst (report_usages (container_owners ps) devices (by_region (fst usages)) (\<lambda>_. 0))
      | _ \<Rightarrow> [])"
  by (cases usages) (simp add: collectContainers_def split: sum.split option.split prod.split)

lemma collectContainers_distinct:
  assumes "\<And>ps. pods = Inr ps \<Longrightarrow> pods_named ps"
  shows "distinct (map series (fst (collectContainers by_region pods usages devices)))"
proof (cases pods)
  case (Inr ps)
  note named = assms [OF Inr]
  have "distinct (map series (fst (report_usages (container_owners ps) devices us next1)))" for us next1
    by (rule report_usages_distinct) (rule owner_identifies [OF named])
  then show ?thesis by (simp add: collectContainers_samples Inr split: option.split)
qed (simp add: collectContainers_samples)

lemma collectContainers_names:
  "s \<in> set (fst (collectContainers by_region pods usages devices)) \<Longrightarrow> S_Name s \<in> set vram_names"
  by (auto simp: collectContainers_samples dest: report_usages_labels split: sum.splits option.splits)

lemma collectHost_names:
  "s \<in> set (fst (collectHost rd glob nodeName drmRoot devices)) \<Longrightarrow> S_Name s \<in> set host_names"
  by (auto simp: collectHost_samples dest: card_samples_series split: option.splits)

lemma Collect_samples:
  assumes "registeredDevices (M_Node M) = Some (Inr devices)"
  shows "\<exists>ok. Collect M = Some (fst (collectHost (M_files M) (M_glob M) (M_NodeName M) (M_DRMRoot M) devices)
    @ fst (collectContainers (M_by_region M) (M_Pods M) (ReadContainerVRAM (M_files M) (M_kubepods M) (M_CgroupRoot M)) devices)
    @ [success_sample (M_NodeName M) ok])"
  by (auto simp: Collect_def assms split: prod.split)

text \<open>C34: a scrape never repeats a series. Under the names that the API server keeps unique, with one id per
  registered device and one directory per card, no two samples of a collection have the same name and labels,
  whatever the order in which the cgroups are listed and sorted; Prometheus rejects a whole scrape that
  repeats one.\<close>

theorem series_unique:
  assumes "well_named M" "Collect M = Some samples"
  shows "distinct (map series samples)"
proof (cases "\<exists>devices. registeredDevices (M_Node M) = Some (Inr devices)")
  case True
  then obtain devices where d: "registeredDevices (M_Node M) = Some (Inr devices)" by blast
  let ?host = "fst (collectHost (M_files M) (M_glob M) (M_NodeName M) (M_DRMRoot M) devices)"
  let ?vram = "fst (collectContainers (M_by_region M) (M_Pods M) (ReadContainerVRAM (M_files M) (M_kubepods M) (M_CgroupRoot M)) devices)"
  obtain ok where s: "samples = ?host @ ?vram @ [success_sample (M_NodeName M) ok]"
    using Collect_samples [OF d] assms(2) by auto
  have "distinct (map series ?host)" using assms(1) d by (intro collectHost_distinct) (auto simp: well_named_def)
  moreover have "distinct (map series ?vram)" using assms(1) by (intro collectContainers_distinct) (auto simp: well_named_def)
  moreover have "series s \<noteq> series t" if "s \<in> set ?host" "t \<in> set ?vram" for s t
    using collectHost_names [OF that(1)] collectContainers_names [OF that(2)] by (auto simp: series_def host_names_def vram_names_def)
  moreover have "series s \<noteq> series (success_sample n ok)" if "s \<in> set ?host \<or> s \<in> set ?vram" for s n
    using that by (auto simp: series_def success_sample_def host_names_def vram_names_def dest!: collectHost_names collectContainers_names)
  ultimately show ?thesis unfolding s by (auto dest: sym)
qed (use assms(2) in \<open>auto simp: Collect_def split: option.splits sum.splits\<close>)

section \<open>The devices of the registration\<close>

definition info_address :: "read_device \<Rightarrow> string option" where
  "info_address info = (case map_of (RD_Custom info) ''pciBDF'' of Some (JStr bdf) \<Rightarrow> Some bdf | _ \<Rightarrow> None)"

definition device_address :: "DeviceInfo \<Rightarrow> string option" where
  "device_address d = (case map_of (DI_CustomInfo d) ''pciBDF'' of Some (CString bdf) \<Rightarrow> Some bdf | _ \<Rightarrow> None)"

lemma read_of_address: "device_fits d \<Longrightarrow> info_address (read_of d) = device_address d"
proof -
  assume fits: "device_fits d"
  let ?ms = "DI_CustomInfo d"
  have "distinct (map fst ?ms)" using fits by (simp add: device_fits_def)
  then have "map_of (sort_key fst ?ms) = map_of ?ms" by (subst map_of_inject_set) (simp_all add: distinct_map_fst_sort_key)
  then have "map_of (RD_Custom (read_of d)) ''pciBDF'' = map_option custom_json (map_of ?ms ''pciBDF'')"
    by (simp add: read_of_def map_of_map)
  then show ?thesis by (auto simp: info_address_def device_address_def split: option.split custom_value.split)
qed

lemma index_devices_lookup:
  "\<exists>m'. index_devices (map Some infos) m = Some m'
     \<and> (\<forall>bdf. map_of m' bdf = (case find (\<lambda>i. info_address i = Some bdf) (rev infos) of None \<Rightarrow> map_of m bdf | Some i \<Rightarrow> Some i))"
proof (induction infos arbitrary: m)
  case (Cons i infos)
  have found: "find P (xs @ [x]) = (case find P xs of None \<Rightarrow> if P x then Some x else None | Some y \<Rightarrow> Some y)"
    for P and xs :: "read_device list" and x by (induction xs) auto
  let ?m = "case info_address i of None \<Rightarrow> m | Some bdf \<Rightarrow> assoc_update bdf i m"
  have step: "index_devices (map Some (i # infos)) m = index_devices (map Some infos) ?m"
    by (simp add: info_address_def split: option.split json.split)
  have look: "map_of ?m bdf = (if info_address i = Some bdf then Some i else map_of m bdf)" for bdf
    by (cases "info_address i") (auto simp: map_of_assoc_update)
  from Cons.IH [of ?m] show ?case unfolding step look by (auto simp: found split: option.split)
qed simp

lemma find_map_read:
  assumes "list_all device_fits ds"
  shows "find (\<lambda>i. info_address i = Some bdf) (map read_of ds) = map_option read_of (find (\<lambda>d. device_address d = Some bdf) ds)"
  using assms by (induction ds) (auto simp: read_of_address)

text \<open>C35: the monitor finds the GPUs that the plugin registered. From the annotation that a registration
  writes, the monitor builds a map without failing or panicking, in which an address is known exactly when a
  registered device has it, and names the id, index and type of that device, the last one if several have it.\<close>

theorem monitor_finds_registered:
  assumes "map_of (NAnnotations n) registerAnnosKey = Some (marshalNodeDevices ds)" "list_all device_fits ds"
  shows "\<exists>devices. registeredDevices (Inr n) = Some (Inr devices)
    \<and> (\<forall>bdf. map_of devices bdf = map_option read_of (find (\<lambda>d. device_address d = Some bdf) (rev ds)))"
proof -
  have u: "unmarshalDevices (marshalNodeDevices ds) = Some (map Some (map read_of ds))"
    using devices_roundtrip [of ds] assms(2) by (simp add: list_all_iff comp_def)
  obtain m where m: "index_devices (map Some (map read_of ds)) [] = Some m"
    "map_of m bdf = (case find (\<lambda>i. info_address i = Some bdf) (rev (map read_of ds)) of None \<Rightarrow> map_of [] bdf | Some i \<Rightarrow> Some i)" for bdf
    using index_devices_lookup [of "map read_of ds" "[]"] by blast
  have "list_all device_fits (rev ds)" using assms(2) by (simp add: list_all_iff)
  then have "map_of m bdf = map_option read_of (find (\<lambda>d. device_address d = Some bdf) (rev ds))" for bdf
    using m(2) [of bdf] find_map_read [of "rev ds" bdf] by (simp add: rev_map split: option.splits)
  moreover have "registeredDevices (Inr n) = Some (Inr m)"
    using assms(1) m(1) by (simp add: registeredDevices_def monitorAnnosKey_def registerAnnosKey_def u)
  ultimately show ?thesis by blast
qed

definition watched_gpu :: "string \<Rightarrow> DeviceInfo" where
  "watched_gpu ident = (sample_info ident True)\<lparr>DI_CustomInfo := [(''pciBDF'', CString ''0000:06:00.0'')]\<rparr>"

lemma watched_gpu_fits: "json_plain ident \<Longrightarrow> device_fits (watched_gpu ident)"
  by (simp add: watched_gpu_def sample_info_def device_fits_def int32_range_def custom_plain_def json_plain_Cons)

text \<open>Two partitions of a GPU are registered with its address: the samples of both go to the last.\<close>

theorem monitor_finds_registered_witness:
  "\<exists>devices. registeredDevices (Inr (sample_node [(registerAnnosKey, marshalNodeDevices [watched_gpu ''P0'', watched_gpu ''P1''])]) :: (unit, Node) result)
      = Some (Inr devices)
    \<and> map_option RD_ID (map_of devices ''0000:06:00.0'') = Some ''P1'' \<and> map_of devices ''0000:0e:00.0'' = None"
proof -
  let ?ds = "[watched_gpu ''P0'', watched_gpu ''P1'']"
  have node: "map_of (NAnnotations (sample_node [(registerAnnosKey, marshalNodeDevices ?ds)])) registerAnnosKey = Some (marshalNodeDevices ?ds)"
    by (simp add: sample_node_def)
  have fits: "list_all device_fits ?ds" by (simp add: watched_gpu_fits json_plain_Cons)
  have address: "device_address (watched_gpu i) = Some ''0000:06:00.0''" for i
    by (simp add: device_address_def watched_gpu_def)
  have ident: "RD_ID (read_of (watched_gpu i)) = i" for i by (simp add: read_of_def watched_gpu_def sample_info_def)
  obtain devices where d: "registeredDevices (Inr (sample_node [(registerAnnosKey, marshalNodeDevices ?ds)]) :: (unit, Node) result) = Some (Inr devices)"
    and look: "map_of devices bdf = map_option read_of (find (\<lambda>d. device_address d = Some bdf) (rev ?ds))" for bdf
    using monitor_finds_registered [OF node fits] by blast
  have "map_option RD_ID (map_of devices ''0000:06:00.0'') = Some ''P1''" "map_of devices ''0000:0e:00.0'' = None"
    unfolding look by (simp_all add: address ident)
  with d show ?thesis by blast
qed

section \<open>A collection by example\<close>

definition scope_path :: string where
  "scope_path = ''/cg/kubepods.slice/kubepods-pod0a.slice/cri-containerd-c1.scope''"

definition monitor_files :: reader where
  "monitor_files path =
     (if path = path_Join [scope_path, ''dmem.current''] then Inr (''drm/0000:06:00.0/vram'' @ '' '' @ Itoa (int 1048576) @ [CHR 0x0A])
      else Inl Missing)"

definition monitor_tree :: cgroup_dir where
  "monitor_tree = CgroupDir ''kubepods.slice''
     [CgroupDir ''kubepods-pod0a.slice'' [CgroupDir ''cri-containerd-c1.scope'' [] None] None] None"

definition monitor_pod :: mon_pod where
  "monitor_pod = \<lparr>MP_Namespace = ''ns'', MP_Name = ''p'', MP_InitContainers = [],
     MP_Containers = [\<lparr>MC_Name = ''main'', MC_Limits = [(''amd.com/gpu'', 1)]\<rparr>], MP_InitContainerStatuses = [],
     MP_ContainerStatuses = [\<lparr>MS_Name = ''main'', MS_ContainerID = ''containerd://c1''\<rparr>]\<rparr>"

definition sample_monitor :: "unit monitor" where
  "sample_monitor = \<lparr>M_NodeName = ''n'', M_CgroupRoot = ''/cg'', M_DRMRoot = ''/drm'', M_Pods = Inr [monitor_pod],
     M_Node = Inr (sample_node [(registerAnnosKey, marshalNodeDevices [watched_gpu ''P0''])]), M_files = monitor_files,
     M_glob = (\<lambda>_. Some [''/drm/card0/device'']), M_kubepods = Inr monitor_tree, M_by_region = sort_key CV_Region\<rparr>"

lemma monitor_paths:
  "path_Join [''/cg'', ''kubepods.slice''] = ''/cg/kubepods.slice''"
  "path_Join [''/cg/kubepods.slice'', ''kubepods-pod0a.slice''] = ''/cg/kubepods.slice/kubepods-pod0a.slice''"
  "path_Join [''/cg/kubepods.slice/kubepods-pod0a.slice'', ''cri-containerd-c1.scope''] = scope_path"
  by code_simp+

lemma monitor_names:
  "containerID ''kubepods.slice'' = None" "containerID ''kubepods-pod0a.slice'' = None"
  "containerID ''cri-containerd-c1.scope'' = Some ''c1''" "podUID (file_Dir scope_path) = Some ''0a''"
  by code_simp+

lemma monitor_files_apart: "path_Join [scope_path, ''dmem.max''] \<noteq> path_Join [scope_path, ''dmem.current'']"
  by code_simp

definition monitor_usage :: ContainerVRAM where
  "monitor_usage = \<lparr>CV_PodUID = ''0a'', CV_ContainerID = ''c1'', CV_Region = ''drm/0000:06:00.0/vram'', CV_Used = 1048576, CV_Limit = 0\<rparr>"

lemma monitor_reads: "ReadContainerVRAM monitor_files (Inr monitor_tree) ''/cg'' = ([monitor_usage], None)"
proof -
  have "readDmem (opened monitor_files) (path_Join [scope_path, ''dmem.current'']) = Inr ([(''drm/0000:06:00.0/vram'', 1048576)], False)"
    by (rule readDmem_one_line) (simp_all add: spaceless_def opened_def monitor_files_def space_bytes_def)
  moreover have "readDmem (opened monitor_files) (path_Join [scope_path, ''dmem.max'']) = Inl (DmemOpen (path_Join [scope_path, ''dmem.max'']))"
    using monitor_files_apart by (simp add: readDmem_def opened_def monitor_files_def)
  ultimately have "scope_usage monitor_files scope_path ''0a'' ''c1'' = SkipDir [monitor_usage]"
    by (simp add: scope_usage_def monitor_files_def limit_of_def MaxUint64_def monitor_usage_def)
  then show ?thesis by (simp add: ReadContainerVRAM_def monitor_tree_def monitor_paths visit_dir_def monitor_names)
qed

lemma monitor_owner: "map_of (container_owners [monitor_pod]) ''c1'' = Some (monitor_pod, hd (MP_Containers monitor_pod))"
proof -
  have "cut_after ''://'' ''containerd://c1'' = Some ''c1''" by code_simp
  then show ?thesis
    by (simp add: container_owners_def monitor_pod_def pod_statuses_def status_owner_def requestsAMD_def HasPrefix_def)
qed

lemma sample_monitor_devices:
  "registeredDevices (M_Node sample_monitor) = Some (Inr [(''0000:06:00.0'', read_of (watched_gpu ''P0''))])"
proof -
  let ?gpu = "watched_gpu ''P0''"
  have "unmarshalDevices (marshalNodeDevices [?gpu]) = Some [Some (read_of ?gpu)]"
    using devices_roundtrip [of "[?gpu]"] by (simp add: watched_gpu_fits json_plain_Cons)
  then show ?thesis
    by (simp add: registeredDevices_def sample_monitor_def sample_node_def monitorAnnosKey_def registerAnnosKey_def read_of_def
        watched_gpu_def)
qed

theorem series_unique_witness:
  "\<exists>samples. Collect sample_monitor = Some samples \<and> distinct (map series samples)
     \<and> (''hami_vgpu_memory_used_bytes'', [''ns'', ''p'', ''main'', ''0'', ''P0'']) \<in> set (map series samples)"
proof -
  let ?gpu = "watched_gpu ''P0''"
  let ?devices = "[(''0000:06:00.0'', read_of ?gpu)]"
  note d = sample_monitor_devices
  have "pods_named [monitor_pod]" by (simp add: pods_named_def monitor_pod_def pod_statuses_def)
  then have named: "well_named sample_monitor"
    unfolding well_named_def d by (simp add: sample_monitor_def cards_apart_def)
  have region: "region_card ''drm/0000:06:00.0/vram'' = Some ''0000:06:00.0''" by code_simp
  have usage: "CV_ContainerID monitor_usage = ''c1''" "CV_Region monitor_usage = ''drm/0000:06:00.0/vram''"
    by (simp_all add: monitor_usage_def)
  have "fst (report_usages (container_owners [monitor_pod]) ?devices [monitor_usage] (\<lambda>_. 0))
      = usage_samples monitor_pod (hd (MP_Containers monitor_pod)) 0 (read_of ?gpu) monitor_usage"
    by (simp add: usage monitor_owner region)
  moreover have "series (hd (usage_samples monitor_pod (hd (MP_Containers monitor_pod)) 0 (read_of ?gpu) monitor_usage))
      = (''hami_vgpu_memory_used_bytes'', [''ns'', ''p'', ''main'', Itoa (int 0), ''P0''])"
    by (simp add: usage_samples_def Let_def series_def monitor_pod_def read_of_def watched_gpu_def sample_info_def)
  moreover have "usage_samples monitor_pod c 0 info u \<noteq> []" for c info u by (simp add: usage_samples_def Let_def)
  ultimately have "\<exists>s \<in> set (fst (report_usages (container_owners [monitor_pod]) ?devices [monitor_usage] (\<lambda>_. 0))).
      series s = (''hami_vgpu_memory_used_bytes'', [''ns'', ''p'', ''main'', Itoa (int 0), ''P0''])" by (metis hd_in_set)
  moreover have "Itoa (int 0) = ''0''" by (simp add: Itoa_def digits_of.simps [of 0] digit_char_def char_of_def bit_Suc bit_0)
  moreover have "fst (collectContainers (M_by_region sample_monitor) (M_Pods sample_monitor)
       (ReadContainerVRAM (M_files sample_monitor) (M_kubepods sample_monitor) (M_CgroupRoot sample_monitor)) ?devices)
     = fst (report_usages (container_owners [monitor_pod]) ?devices [monitor_usage] (\<lambda>_. 0))"
    by (simp add: collectContainers_samples sample_monitor_def monitor_reads del: report_usages.simps)
  ultimately obtain s where s: "s \<in> set (fst (collectContainers (M_by_region sample_monitor) (M_Pods sample_monitor)
       (ReadContainerVRAM (M_files sample_monitor) (M_kubepods sample_monitor) (M_CgroupRoot sample_monitor)) ?devices))"
    "series s = (''hami_vgpu_memory_used_bytes'', [''ns'', ''p'', ''main'', ''0'', ''P0''])" by metis
  obtain samples where c: "Collect sample_monitor = Some samples" "s \<in> set samples"
    using Collect_samples [OF d] s(1) by (metis UnCI set_append)
  with series_unique [OF named c(1)] s(2) show ?thesis by force
qed

end
