(* ===== verification/Caps.thy ===== *)
theory Caps
  imports Allocate Collector
begin

text \<open>
  The memory caps of the plugin and the limits of the monitor. The plugin writes a cap to \<open>dmem.max\<close> of the cgroup
  of a pod (package \<open>dmem\<close>); the monitor (package \<open>vgpumonitor\<close>) reads \<open>dmem.max\<close> of the cgroups of the containers.
  The theorems show that the walk of
  the monitor never reads a file that the plugin writes, and that the containers of a pod share one cap per GPU.
\<close>

section \<open>The walk reads the cgroups of the containers\<close>

fun tree_plain :: "cgroup_dir \<Rightarrow> bool" where
  "tree_plain (CgroupDir name children failure) \<longleftrightarrow> plain_elem name \<and> list_all tree_plain children"

lemma file_elems_plain [simp]:
  "plain_elem ''dmem.current''" "plain_elem ''dmem.max''" "plain_elem ''kubepods.slice''"
  by (simp_all add: plain_elem_def)

lemma scope_file_apart:
  assumes "plain_elem (path_Base path)" "containerID (path_Base path) \<noteq> None" "containerID (dir_name c) = None"
  shows "path_Join [path, ''dmem.current''] \<noteq> c" and "path_Join [path, ''dmem.max''] \<noteq> c"
  using assms dir_name_Join(1) [OF assms(1)] file_elems_plain(1,2) by metis+

lemma readDmem_other: "p \<noteq> c \<Longrightarrow> readDmem (opened (rd(c := r))) p = readDmem (opened rd) p"
  by (simp add: readDmem_def opened_def)

lemma visit_dir_unread:
  assumes "plain_elem (path_Base path)" "containerID (dir_name c) = None"
  shows "visit_dir (rd(c := r)) path (path_Base path) = visit_dir rd path (path_Base path)"
proof (cases "containerID (path_Base path)")
  case (Some cid)
  then have apart: "path_Join [path, ''dmem.current''] \<noteq> c" "path_Join [path, ''dmem.max''] \<noteq> c"
    using scope_file_apart [OF assms(1) _ assms(2)] by simp_all
  have "(rd(c := r)) (path_Join [path, ''dmem.current'']) = rd (path_Join [path, ''dmem.current''])"
    using apart(1) by simp
  then have "scope_usage (rd(c := r)) path uid i = scope_usage rd path uid i" for uid i
    unfolding scope_usage_def apart [THEN readDmem_other] by (rule arg_cong)
  then show ?thesis by (simp add: visit_dir_def del: fun_upd_apply split: option.split)
qed (simp add: visit_dir_def)

lemma walk_unread:
  assumes "containerID (dir_name c) = None"
  shows "tree_plain d \<Longrightarrow> (\<And>name children failure. d = CgroupDir name children failure \<Longrightarrow> path_Base path = name)
      \<Longrightarrow> walk_cgroup (rd(c := r)) path d = walk_cgroup rd path d"
    and "list_all tree_plain ds \<Longrightarrow> plain_elem (path_Base path)
      \<Longrightarrow> walk_cgroups (rd(c := r)) path ds = walk_cgroups rd path ds"
proof (induction rd path d and rd path ds rule: walk_cgroup_walk_cgroups.induct)
  case (1 rd path name children failure)
  then have "plain_elem (path_Base path)" "path_Base path = name" by simp_all
  then show ?case
    using visit_dir_unread [of path c rd r] assms 1
    by (auto simp del: fun_upd_apply split: visit.split option.split read_failure.split)
next
  case (3 rd path name children failure ds)
  then have "walk_cgroup (rd(c := r)) (path_Join [path, name]) (CgroupDir name children failure)
      = walk_cgroup rd (path_Join [path, name]) (CgroupDir name children failure)"
    using dir_name_Join(2) [of path name] by (simp del: fun_upd_apply)
  moreover obtain out e where "walk_cgroup rd (path_Join [path, name]) (CgroupDir name children failure) = (out, e)"
    by (rule prod.exhaust)
  ultimately show ?case using 3 by (cases e) (simp_all del: fun_upd_apply walk_cgroup.simps)
qed simp

section \<open>The plugin writes to the cgroups of the pods\<close>

lemma pod_slice_prefix: "podSlice name = Some m \<Longrightarrow> HasPrefix name ''kubepods''"
  by (auto simp: podSlice_def CutPrefix_def split: if_splits)

lemma pod_slice_no_container:
  assumes "podSlice name = Some m"
  shows "containerID name = None"
proof -
  have "\<not> HasPrefix name p" if "p \<in> set runtimePrefixes" for p
    using pod_slice_prefix [OF assms] that by (auto simp: runtimePrefixes_def HasPrefix_iff)
  then show ?thesis by (auto simp: containerID_def find_None_iff split: option.split dest: find_Some_iff [THEN iffD1])
qed

lemma pod_slice_plain: "podSlice (path_Base p) = Some m \<Longrightarrow> plain_elem (path_Base p)"
proof -
  assume "podSlice (path_Base p) = Some m"
  then have "HasPrefix (path_Base p) ''kubepods''" by (rule pod_slice_prefix)
  moreover have "Split (CHR ''/'') p \<noteq> []" by (cases p) (auto split: list.split)
  then have "CHR ''/'' \<notin> set (path_Base p)"
    using Split_parts_free [of "path_Base p" "CHR ''/''" p] by (simp add: path_Base_def)
  ultimately show ?thesis by (auto simp: plain_elem_def HasPrefix_iff)
qed

lemma pod_cap_dir:
  assumes "uid \<noteq> []" "list_all uid_char uid"
  shows "containerID (dir_name (path_Join [PodCgroupPath cgroupRoot uid qos, ''dmem.max''])) = None"
proof -
  let ?p = "PodCgroupPath cgroupRoot uid qos"
  obtain m where "podSlice (path_Base ?p) = Some m"
    using podUID_PodCgroupPath [OF assms, of cgroupRoot qos] by (auto simp: podUID_def split: option.splits)
  then show ?thesis
    using dir_name_Join(1) [of ?p "''dmem.max''"] pod_slice_plain pod_slice_no_container by simp
qed

lemma kubepods_base: "path_Base (path_Join [cgroupRoot, ''kubepods.slice'']) = ''kubepods.slice''"
  using path_Base_Join [of "''kubepods.slice''" "[cgroupRoot]"] by simp

text \<open>The monitor does not see the caps of the plugin. Whatever the file holds in which the plugin writes the
  cap of a pod, and whether it exists or not, the monitor reports the same containers with the same limits: it reads
  \<open>dmem.max\<close> of the cgroup of the container, where the plugin writes nothing. In the example the pod is capped and
  its container is reported without a limit.\<close>

theorem pod_cap_unseen:
  assumes "uid \<noteq> []" "list_all uid_char uid"
    and "kubepods = Inr (CgroupDir ''kubepods.slice'' children failure)" "list_all tree_plain children"
  shows "ReadContainerVRAM (rd(path_Join [PodCgroupPath cgroupRoot uid qos, ''dmem.max''] := content)) kubepods monitorRoot
    = ReadContainerVRAM rd kubepods monitorRoot"
  using walk_unread(1) [OF pod_cap_dir [OF assms(1,2)], of "CgroupDir ''kubepods.slice'' children failure"]
    assms(4) kubepods_base [of monitorRoot]
  by (simp add: assms(3) ReadContainerVRAM_def)

theorem pod_cap_unseen_example:
  "ReadContainerVRAM
     (monitor_files(path_Join [PodCgroupPath ''/cg'' ''0a'' ''Guaranteed'', ''dmem.max''] :=
        Inr (''drm/0000:06:00.0/vram'' @ '' '' @ Itoa 2147483648 @ [CHR 0x0A])))
     (Inr monitor_tree) ''/cg'' = ([monitor_usage], None)" (is ?reads)
  "CV_PodUID monitor_usage = ''0a''" "CV_Limit monitor_usage = 0"
proof -
  have uid: "list_all uid_char ''0a''" by (simp add: uid_char_def is_digit_def)
  have tree: "list_all tree_plain [CgroupDir ''kubepods-pod0a.slice'' [CgroupDir ''cri-containerd-c1.scope'' [] None] None]"
    by (simp add: plain_elem_def)
  have root_dir: "Inr monitor_tree = Inr (CgroupDir ''kubepods.slice''
      [CgroupDir ''kubepods-pod0a.slice'' [CgroupDir ''cri-containerd-c1.scope'' [] None] None] None)"
    by (simp add: monitor_tree_def)
  have "''0a'' \<noteq> []" by simp
  from pod_cap_unseen [OF this uid root_dir tree] show ?reads by (simp only: monitor_reads)
qed (simp_all add: monitor_usage_def)

section \<open>One cap per pod\<close>

definition cap_line :: "string \<Rightarrow> int \<Rightarrow> string" where
  "cap_line region limitBytes = region @ '' '' @ Itoa limitBytes @ [CHR 0x0A]"

lemma SetMaxWithRetry_written:
  assumes "\<And>path line w. fst (write path line w) = Inr ()"
  shows "snd (SetMaxWithRetry write podCgroup region n w) = snd (write (path_Join [podCgroup, ''dmem.max'']) (cap_line region n) w)"
  by (simp add: SetMaxWithRetry_def delays_def SetMax_def cap_line_def try_io_run return_io_def assms)

text \<open>\<open>Allocate\<close> caps the pod for every container by itself. When two containers of a pod hold a slice of the same
  GPU, the cap of the one that is written last replaces that of the other, and both share it: \<open>replaced\<close> is what the
  kernel documents, one limit per region and cgroup.\<close>

theorem pod_cap_overwritten:
  assumes written: "\<And>path line w. fst (write path line w) = Inr ()"
    and replaced: "\<And>path region a b w.
      snd (write path (cap_line region b) (snd (write path (cap_line region a) w))) = snd (write path (cap_line region b) w)"
    and "CapUID t1 = CapUID t2" "CapQos t1 = CapQos t2" "UUID (CapDevice t1) = UUID (CapDevice t2)"
  shows "snd (applyDmemCap p fs write t2 (snd (applyDmemCap p fs write t1 w))) = snd (applyDmemCap p fs write t2 w)"
proof (cases "dmemRegion p fs (UUID (CapDevice t2))")
  case None
  with assms(5) show ?thesis by (simp add: applyDmemCap_def return_io_def)
next
  case (Some region)
  with assms(3-5) show ?thesis by (simp add: applyDmemCap_def SetMaxWithRetry_written [OF written] replaced)
qed

text \<open>A store of files, for a cgroup with one region.\<close>

definition store_write :: "(string \<Rightarrow> string option) writer" where
  "store_write path line w = (Inr (), w(path \<mapsto> line))"

theorem pod_cap_overwritten_example:
  "snd (applyDmemCap p fs store_write t (snd (applyDmemCap p fs store_write
       (t\<lparr>CapDevice := (CapDevice t)\<lparr>Usedmem := smaller\<rparr>\<rparr>) w))) = snd (applyDmemCap p fs store_write t w)"
  by (rule pod_cap_overwritten) (simp_all add: store_write_def)

end
