(* ===== verification/Monitor.thy ===== *)
theory Monitor
  imports Collector
begin

text \<open>
  The server of the vGPU monitor, \<open>cmd/k8s-vgpu-monitor/main.go\<close>, and the descriptions of its metrics
  (\<open>Describe\<close> of \<open>vgpumonitor/collector.go\<close>). The clients, the informer, the listener and the HTTP server are parameters: their
  answers, and for each turn of a wait what it sees. A run is the list of its effects and its error; the wait for the
  informer may never end, and then the run is \<open>None\<close>.
\<close>

section \<open>Descriptions of the metrics\<close>

record desc =
  D_Name :: string
  D_Labels :: "string list"

definition collectSuccessDesc :: desc where
  "collectSuccessDesc = \<lparr>D_Name = ''hami_vgpumonitor_collect_success'', D_Labels = [''node'']\<rparr>"

definition hostLabels :: "string list" where
  "hostLabels = [''node'', ''device_index'', ''device_uuid'', ''device_type'']"

definition host_descs :: "desc list" where
  "host_descs = map (\<lambda>name. \<lparr>D_Name = name, D_Labels = hostLabels\<rparr>)
     [''hami_host_gpu_memory_used_bytes'', ''hami_host_gpu_memory_total_bytes'', ''hami_host_gpu_utilization_ratio'',
      ''hami_host_gpu_temperature_celsius'', ''hami_host_gpu_power_usage_watts'']"

definition ctrLabels :: "string list" where
  "ctrLabels = [''namespace'', ''pod'', ''container'', ''vdevice_index'', ''device_uuid'']"

definition ctr_descs :: "desc list" where
  "ctr_descs = map (\<lambda>name. \<lparr>D_Name = name, D_Labels = ctrLabels\<rparr>)
     [''hami_vgpu_memory_used_bytes'', ''hami_vgpu_memory_limit_bytes'']"

definition Describe :: "desc list" where
  "Describe = collectSuccessDesc # host_descs @ ctr_descs"

definition described :: "sample \<Rightarrow> bool" where
  "described s \<longleftrightarrow> list_ex (\<lambda>d. D_Name d = S_Name s \<and> length (D_Labels d) = length (S_Labels s)) Describe"

lemma described_cases:
  "S_Name s = ''hami_vgpumonitor_collect_success'' \<Longrightarrow> length (S_Labels s) = 1 \<Longrightarrow> described s"
  "S_Name s \<in> set host_names \<Longrightarrow> length (S_Labels s) = 4 \<Longrightarrow> described s"
  "S_Name s \<in> set vram_names \<Longrightarrow> length (S_Labels s) = 5 \<Longrightarrow> described s"
  by (auto simp: described_def Describe_def collectSuccessDesc_def host_descs_def ctr_descs_def hostLabels_def ctrLabels_def
      host_names_def vram_names_def)

lemma host_described:
  assumes "s \<in> set (fst (collectHost rd glob nodeName drmRoot devices))"
  shows "described s"
  using assms by (auto simp: collectHost_samples host_labels_def intro!: described_cases(2)
      dest!: card_samples_series split: option.splits)

lemma containers_described:
  assumes "s \<in> set (fst (collectContainers by_region pods usages devices))"
  shows "described s"
  using assms by (auto simp: collectContainers_samples vram_labels_of_def intro!: described_cases(3)
      dest!: report_usages_labels split: sum.splits option.splits)

lemma success_described: "described (success_sample n ok)"
  by (rule described_cases(1)) (simp_all add: success_sample_def)

text \<open>C24: a scrape never panics on a label. Every sample of a collection, of the node, of its GPUs and of the
  containers, also of one that fails in part, belongs to a metric that the collector announced to the registry and has as many
  label values as its description has labels, which \<open>MustNewConstMetric\<close> and the registry demand; the names of the
  descriptions are distinct.\<close>

theorem samples_described:
  assumes "Collect M = Some samples"
  shows "list_all described samples \<and> distinct (map D_Name Describe)"
proof
  show "list_all described samples"
  proof (cases "registeredDevices (M_Node M)")
    case None
    with assms show ?thesis by (simp add: Collect_def)
  next
    case (Some r)
    show ?thesis
    proof (cases r)
      case (Inl e)
      with Some assms show ?thesis by (auto simp: Collect_def success_described)
    next
      case (Inr devices)
      with Collect_samples [of M devices] Some assms show ?thesis
        by (auto simp: list_all_iff success_described host_described containers_described)
    qed
  qed
qed (simp add: Describe_def collectSuccessDesc_def host_descs_def ctr_descs_def)

section \<open>The wait for the informer\<close>

text \<open>What ends one turn of the \<open>select\<close>.\<close>

datatype wake = Tick | CtxDone

text \<open>\<open>synced i\<close> is what \<open>HasSynced\<close> answers before turn \<open>i\<close>.\<close>

partial_function (option) waitForSync :: "(nat \<Rightarrow> bool) \<Rightarrow> (nat \<Rightarrow> wake) \<Rightarrow> nat \<Rightarrow> bool option" where
  "waitForSync synced wakes i =
     (if synced i then Some True
      else if wakes i = CtxDone then Some False
      else waitForSync synced wakes (Suc i))"

lemma waitForSync_turns:
  assumes "\<forall>j. i \<le> j \<and> j < n \<longrightarrow> \<not> synced j \<and> wakes j = Tick" "i \<le> n"
  shows "waitForSync synced wakes i = waitForSync synced wakes n"
  using assms(2,1)
proof (induction rule: inc_induct)
  case (step m)
  then show ?case using waitForSync.simps [of synced wakes m] by simp
qed simp

lemma waitForSync_returns:
  assumes "synced n \<or> wakes n = CtxDone"
  shows "\<exists>m. waitForSync synced wakes 0 = Some (synced m) \<and> (synced m \<or> wakes m = CtxDone)"
proof -
  obtain m where m: "synced m \<or> wakes m = CtxDone" "\<forall>j<m. \<not> (synced j \<or> wakes j = CtxDone)"
    using assms exists_least_iff [of "\<lambda>n. synced n \<or> wakes n = CtxDone"] by blast
  have "\<forall>j. 0 \<le> j \<and> j < m \<longrightarrow> \<not> synced j \<and> wakes j = Tick" using m(2) wake.exhaust by blast
  then have "waitForSync synced wakes 0 = waitForSync synced wakes m" by (rule waitForSync_turns) simp
  moreover have "waitForSync synced wakes m = Some (synced m)"
    using m(1) by (subst waitForSync.simps) auto
  ultimately show ?thesis using m(1) by auto
qed

lemma waitForSync_stopped: "waitForSync synced wakes i = Some r \<Longrightarrow> \<exists>n. synced n \<or> wakes n = CtxDone"
proof (rule waitForSync.raw_induct [where P = "\<lambda>s w i r. \<exists>n. s n \<or> w n = CtxDone"])
  fix wait :: "(nat \<Rightarrow> bool) \<Rightarrow> (nat \<Rightarrow> wake) \<Rightarrow> nat \<Rightarrow> bool option" and s w i r
  assume "\<And>s w i r. wait s w i = Some r \<Longrightarrow> \<exists>n. s n \<or> w n = CtxDone"
    and "(if s i then Some True else if w i = CtxDone then Some False else wait s w (Suc i)) = Some r"
  then show "\<exists>n. s n \<or> w n = CtxDone" by (metis)
qed

lemma waitForSync_None: "waitForSync synced wakes 0 = None \<longleftrightarrow> (\<forall>n. \<not> synced n \<and> wakes n = Tick)"
proof (cases "\<exists>n. synced n \<or> wakes n = CtxDone")
  case True
  then show ?thesis using waitForSync_returns [of synced _ wakes] by fastforce
next
  case False
  then have "waitForSync synced wakes 0 = None" using waitForSync_stopped [of synced wakes 0] by (cases "waitForSync synced wakes 0") auto
  with False show ?thesis by (metis wake.exhaust)
qed

section \<open>Serving\<close>

datatype 'e action =
    NotifySignals | Bound string | StartInformers string | RegisterCollector string string string | ServeHTTP | ShutDown
  | CloseListener | CancelContext

datatype 'e monitor_error =
    NodeNameUnset | NoConfig 'e | NoClientset 'e | ListenFailed 'e | SyncFailed | ServerFailed 'e | ShutdownFailed 'e

text \<open>How the server ends: by itself, or by the context, with what \<open>Shutdown\<close> returns within its five seconds.\<close>

datatype 'e outcome = ServerEnds 'e | Stopped "'e option"

definition serveMetrics :: "'e outcome \<Rightarrow> 'e action list \<times> 'e monitor_error option" where
  "serveMetrics out1 =
     (case out1 of
        ServerEnds e \<Rightarrow> ([ServeHTTP], Some (ServerFailed e))
      | Stopped r \<Rightarrow> ([ServeHTTP, ShutDown], map_option ShutdownFailed r))"

definition serve ::
  "(nat \<Rightarrow> bool) \<Rightarrow> (nat \<Rightarrow> wake) \<Rightarrow> 'e outcome \<Rightarrow> string \<Rightarrow> string \<Rightarrow> string \<Rightarrow> ('e action list \<times> 'e monitor_error option) option" where
  "serve synced wakes out1 nodeName cgroupRoot drmRoot =
     (case waitForSync synced wakes 0 of
        None \<Rightarrow> None
      | Some False \<Rightarrow> Some ([StartInformers (''spec.nodeName='' @ nodeName)], Some SyncFailed)
      | Some True \<Rightarrow>
          (case serveMetrics out1 of
             (acts, e) \<Rightarrow> Some (StartInformers (''spec.nodeName='' @ nodeName) # RegisterCollector nodeName cgroupRoot drmRoot # acts, e)))"

record 'e monitor_host =
  H_nodeName :: string
  H_config :: "'e option"
  H_clientset :: "'e option"
  H_listen :: "string \<Rightarrow> 'e option"

text \<open>The deferred calls run in the opposite order: the listener is closed before the context is cancelled.\<close>

definition monitor_run ::
  "'e monitor_host \<Rightarrow> (nat \<Rightarrow> bool) \<Rightarrow> (nat \<Rightarrow> wake) \<Rightarrow> 'e outcome \<Rightarrow> string \<Rightarrow> string \<Rightarrow> string
     \<Rightarrow> ('e action list \<times> 'e monitor_error option) option" where
  "monitor_run h synced wakes out1 addr cgroupRoot drmRoot =
     (if H_nodeName h = [] then Some ([], Some NodeNameUnset)
      else case H_config h of
        Some e \<Rightarrow> Some ([], Some (NoConfig e))
      | None \<Rightarrow>
          (case H_clientset h of
             Some e \<Rightarrow> Some ([], Some (NoClientset e))
           | None \<Rightarrow>
               (case H_listen h addr of
                  Some e \<Rightarrow> Some ([NotifySignals, CancelContext], Some (ListenFailed e))
                | None \<Rightarrow>
                    (case serve synced wakes out1 (H_nodeName h) cgroupRoot drmRoot of
                       None \<Rightarrow> None
                     | Some (acts, e) \<Rightarrow> Some ([NotifySignals, Bound addr] @ acts @ [CloseListener, CancelContext], e)))))"

text \<open>The exit code of \<open>main\<close>.\<close>

definition exit_code :: "'e monitor_error option \<Rightarrow> nat" where
  "exit_code e = (if e = None then 0 else 1)"

section \<open>Runs are tidy\<close>

text \<open>Read from left to right: the listener is bound at most once and closed, the informers start and the server runs
  only while it is bound, and the server runs only after its collector is registered.\<close>

fun tidy :: "bool \<Rightarrow> bool \<Rightarrow> 'e action list \<Rightarrow> bool" where
  "tidy bound registered [] \<longleftrightarrow> \<not> bound"
| "tidy bound registered (a # as) \<longleftrightarrow>
     (case a of
        Bound _ \<Rightarrow> \<not> bound \<and> tidy True registered as
      | StartInformers _ \<Rightarrow> bound \<and> tidy bound registered as
      | RegisterCollector _ _ _ \<Rightarrow> bound \<and> \<not> registered \<and> tidy bound True as
      | ServeHTTP \<Rightarrow> bound \<and> registered \<and> tidy bound registered as
      | ShutDown \<Rightarrow> bound \<and> registered \<and> tidy bound registered as
      | CloseListener \<Rightarrow> bound \<and> tidy False registered as
      | _ \<Rightarrow> tidy bound registered as)"

definition starts :: "'e monitor_host \<Rightarrow> string \<Rightarrow> bool" where
  "starts h addr \<longleftrightarrow> H_nodeName h \<noteq> [] \<and> H_config h = None \<and> H_clientset h = None \<and> H_listen h addr = None"



theorem samples_described_witness:
  "\<exists>samples. Collect sample_monitor = Some samples \<and> list_all described samples \<and> samples \<noteq> []"
proof -
  have "\<exists>samples. Collect sample_monitor = Some samples \<and> samples \<noteq> []"
    using Collect_samples [OF sample_monitor_devices] by auto
  then obtain samples where "Collect sample_monitor = Some samples" "samples \<noteq> []" by auto
  with samples_described show ?thesis by blast
qed

end
