(* ===== verification/NodeLocks.thy ===== *)
theory NodeLocks
  imports GoFloat
begin

text \<open>
  The locks of the process in \<open>internal/pkg/utils/nodelocks.go\<close>: a mutex per node, created on first use under the
  mutex of the manager, so that releases of the lock of one node exclude each other and releases of
  different nodes do not wait for each other. Goroutines are numbers; goroutine \<open>g\<close> calls
  \<open>ReleaseNodeLock\<close> once, for \<open>node g\<close>. A mutex is its address; what a call does while it holds the mutex is
  \<open>ReleaseNodeLock\<close> in \<open>Kube.thy\<close>.
\<close>

section \<open>The lock timeout\<close>

text \<open>\<open>time.ParseDuration\<close>: a sign and a sequence of decimal numbers with a unit, in nanoseconds; \<open>None\<close> is its
  error. Numbers above \<open>2 ^ 63\<close> overflow, digits of a fraction that no longer fit are dropped.\<close>

definition duration_units :: "(string \<times> nat) list" where
  "duration_units = [(''ns'', 1), (''us'', 1000), (bytes [0xC2, 0xB5, 0x73], 1000), (bytes [0xCE, 0xBC, 0x73], 1000),
     (''ms'', 1000000), (''s'', 1000000000), (''m'', 60000000000), (''h'', 3600000000000)]"

fun leadingInt :: "string \<Rightarrow> nat \<Rightarrow> (nat \<times> string) option" where
  "leadingInt [] x = Some (x, [])"
| "leadingInt (c # s) x =
     (if \<not> is_digit c then Some (x, c # s)
      else if x > 2 ^ 63 div 10 \<or> 10 * x + digit_val c > 2 ^ 63 then None
      else leadingInt s (10 * x + digit_val c))"

fun leadingFraction :: "string \<Rightarrow> nat \<Rightarrow> nat \<Rightarrow> bool \<Rightarrow> nat \<times> nat \<times> string" where
  "leadingFraction [] x factor overflow = (x, factor, [])"
| "leadingFraction (c # s) x factor overflow =
     (if \<not> is_digit c then (x, factor, c # s)
      else if overflow \<or> x > (2 ^ 63 - 1) div 10 \<or> 10 * x + digit_val c > 2 ^ 63 then leadingFraction s x factor True
      else leadingFraction s (10 * x + digit_val c) (10 * factor) False)"

definition float_rat :: "rat \<Rightarrow> rat" where
  "float_rat x = (case float64_near x of Finite y \<Rightarrow> y | _ \<Rightarrow> 0)"

definition fraction_nanos :: "nat \<Rightarrow> nat \<Rightarrow> nat \<Rightarrow> nat" where
  "fraction_nanos f factor unit1 =
     (if 0 < f then nat \<lfloor>float_rat (float_rat (of_nat f) * float_rat (of_nat unit1 / of_nat factor))\<rfloor> else 0)"

text \<open>One number with its unit: its nanoseconds and the rest.\<close>

definition duration_part :: "string \<Rightarrow> (nat \<times> string) option" where
  "duration_part s =
     (if s = [] \<or> \<not> (hd s = CHR ''.'' \<or> is_digit (hd s)) then None
      else Option.bind (leadingInt s 0) (\<lambda>(v, s1).
        case (if s1 \<noteq> [] \<and> hd s1 = CHR ''.'' then leadingFraction (tl s1) 0 1 False else (0, 1, s1)) of
          (f, factor, s2) \<Rightarrow>
            let pre = (length s1 \<noteq> length s); post = (s1 \<noteq> [] \<and> hd s1 = CHR ''.'' \<and> length s2 \<noteq> length (tl s1));
                u = takeWhile (\<lambda>c. c \<noteq> CHR ''.'' \<and> \<not> is_digit c) s2
            in if \<not> pre \<and> \<not> post \<or> u = [] then None
               else Option.bind (map_of duration_units u) (\<lambda>unit1.
                 if v > 2 ^ 63 div unit1 \<or> v * unit1 + fraction_nanos f factor unit1 > 2 ^ 63 then None
                 else Some (v * unit1 + fraction_nanos f factor unit1, drop (length u) s2))))"

text \<open>Every part is not empty, so the length of the text bounds their number.\<close>

fun duration_parts :: "nat \<Rightarrow> string \<Rightarrow> nat \<Rightarrow> nat option" where
  "duration_parts 0 s d = (if s = [] then Some d else None)"
| "duration_parts (Suc k) s d =
     (if s = [] then Some d
      else Option.bind (duration_part s) (\<lambda>(v, rest1). if d + v > 2 ^ 63 then None else duration_parts k rest1 (d + v)))"

definition ParseDuration :: "string \<Rightarrow> int option" where
  "ParseDuration s =
     (case split_sign s of
        (neg, t) \<Rightarrow>
          if t = ''0'' then Some 0
          else if t = [] then None
          else Option.bind (duration_parts (length t) t 0) (\<lambda>d.
            if neg then Some (- int d) else if d > 2 ^ 63 - 1 then None else Some (int d)))"

text \<open>\<open>NodeLockTimeout\<close> after the start of the process.\<close>

definition setupNodeLockTimeout :: "string option \<Rightarrow> int" where
  "setupNodeLockTimeout nodelock =
     (let default = 5 * 60 * 1000000000 in
      if str_of nodelock = [] then default
      else case ParseDuration (str_of nodelock) of None \<Rightarrow> default | Some d \<Rightarrow> d)"

lemma leadingInt_shorter: "leadingInt s x = Some (v, r) \<Longrightarrow> length r \<le> length s"
  by (induction s arbitrary: x) (auto split: if_splits intro: le_SucI)

lemma leadingFraction_shorter: "leadingFraction s x factor overflow = (f, k, r) \<Longrightarrow> length r \<le> length s"
  by (induction s arbitrary: x factor overflow) (auto split: if_splits intro: le_SucI)

lemma duration_part_shorter: "duration_part s = Some (v, r) \<Longrightarrow> length r < length s"
proof -
  assume part: "duration_part s = Some (v, r)"
  then obtain w s1 where li: "leadingInt s 0 = Some (w, s1)" by (auto simp: duration_part_def bind_eq_Some_conv split: if_splits)
  let ?fr = "if s1 \<noteq> [] \<and> hd s1 = CHR ''.'' then leadingFraction (tl s1) 0 1 False else (0, 1, s1)"
  obtain f k s2 where fr: "?fr = (f, k, s2)" by (metis prod_cases3)
  let ?u = "takeWhile (\<lambda>c. c \<noteq> CHR ''.'' \<and> \<not> is_digit c) s2"
  have u: "?u \<noteq> []" "r = drop (length ?u) s2"
    using part li fr by (auto simp: duration_part_def Let_def bind_eq_Some_conv simp del: takeWhile_eq_Nil_iff split: if_splits)
  have "length s2 \<le> length (tl s1) \<or> s2 = s1"
    using fr leadingFraction_shorter [of "tl s1" 0 1 False f k s2] by (auto split: if_splits)
  then have "length s2 \<le> length s" using leadingInt_shorter [OF li] by (auto simp: le_diff_conv)
  moreover have "0 < length ?u" "length ?u \<le> length s2" using u(1) length_takeWhile_le by (metis length_greater_0_conv)+
  moreover have "length r = length s2 - length ?u" using u(2) by (simp only: length_drop)
  ultimately show ?thesis by linarith
qed

text \<open>The bound on the number of parts is never reached.\<close>

lemma duration_parts_enough: "length s \<le> k \<Longrightarrow> duration_parts (k + j) s d = duration_parts k s d"
proof (induction k arbitrary: s d)
  case 0
  then show ?case by (cases j) simp_all
next
  case (Suc k)
  show ?case
  proof (cases "duration_part s")
    case (Some p)
    obtain v r where p: "p = (v, r)" by (cases p)
    have "length r < length s" using duration_part_shorter Some p by blast
    then have "length r \<le> k" using Suc.prems by simp
    then show ?thesis by (simp add: Some p Suc.IH)
  qed simp
qed

section \<open>State and steps\<close>

text \<open>\<open>Entry\<close> is before \<open>m.mu.Lock()\<close>, \<open>InManager\<close> after it, \<open>Waiting\<close> after \<open>getLock\<close> has returned,
  \<open>Holding\<close> after \<open>nodeLock.Lock()\<close>.\<close>

datatype lock_pc = Entry | InManager | Waiting nat | Holding nat | Returned

record lock_state =
  managerMu :: "nat option"
  nodeMutexes :: "(string \<times> nat) list"
  holder :: "nat \<Rightarrow> nat option"
  nextMutex :: nat
  goroutine :: "nat \<Rightarrow> lock_pc"

definition newNodeLockManager :: "nat \<Rightarrow> lock_state" where
  "newNodeLockManager n = \<lparr>managerMu = None, nodeMutexes = [], holder = (\<lambda>_. None), nextMutex = 0,
     goroutine = (\<lambda>g. if g < n then Entry else Returned)\<rparr>"

definition getLock :: "string \<Rightarrow> lock_state \<Rightarrow> nat \<times> lock_state" where
  "getLock nodeName s =
     (case map_of (nodeMutexes s) nodeName of
        Some a \<Rightarrow> (a, s)
      | None \<Rightarrow> (nextMutex s, s\<lparr>nodeMutexes := assoc_update nodeName (nextMutex s) (nodeMutexes s), nextMutex := Suc (nextMutex s)\<rparr>))"

definition goto :: "nat \<Rightarrow> lock_pc \<Rightarrow> lock_state \<Rightarrow> lock_state" where
  "goto g pc s = s\<lparr>goroutine := (goroutine s)(g := pc)\<rparr>"

inductive lock_step :: "(nat \<Rightarrow> string) \<Rightarrow> lock_state \<Rightarrow> lock_state \<Rightarrow> bool" for node where
  manager_lock: "goroutine s g = Entry \<Longrightarrow> managerMu s = None
    \<Longrightarrow> lock_step node s (goto g InManager (s\<lparr>managerMu := Some g\<rparr>))"
| manager_unlock: "goroutine s g = InManager \<Longrightarrow> getLock (node g) s = (a, s')
    \<Longrightarrow> lock_step node s (goto g (Waiting a) (s'\<lparr>managerMu := None\<rparr>))"
| node_lock: "goroutine s g = Waiting a \<Longrightarrow> holder s a = None
    \<Longrightarrow> lock_step node s (goto g (Holding a) (s\<lparr>holder := (holder s)(a := Some g)\<rparr>))"
| node_unlock: "goroutine s g = Holding a
    \<Longrightarrow> lock_step node s (goto g Returned (s\<lparr>holder := (holder s)(a := None)\<rparr>))"

inductive_cases lock_stepE: "lock_step node s s'"

text \<open>States after \<open>k\<close> steps of \<open>n\<close> concurrent calls.\<close>

inductive lock_run :: "(nat \<Rightarrow> string) \<Rightarrow> nat \<Rightarrow> nat \<Rightarrow> lock_state \<Rightarrow> bool" for node n where
  lock_start: "lock_run node n 0 (newNodeLockManager n)"
| lock_next: "lock_run node n k s \<Longrightarrow> lock_step node s s' \<Longrightarrow> lock_run node n (Suc k) s'"

section \<open>Invariant\<close>

definition lock_inv :: "(nat \<Rightarrow> string) \<Rightarrow> lock_state \<Rightarrow> bool" where
  "lock_inv node s \<longleftrightarrow>
     (\<forall>g. managerMu s = Some g \<longleftrightarrow> goroutine s g = InManager)
     \<and> (\<forall>g a. goroutine s g = Waiting a \<or> goroutine s g = Holding a \<longrightarrow> map_of (nodeMutexes s) (node g) = Some a)
     \<and> (\<forall>g a. holder s a = Some g \<longleftrightarrow> goroutine s g = Holding a)
     \<and> (\<forall>x y a. map_of (nodeMutexes s) x = Some a \<longrightarrow> map_of (nodeMutexes s) y = Some a \<longrightarrow> x = y)
     \<and> (\<forall>x a. map_of (nodeMutexes s) x = Some a \<longrightarrow> a < nextMutex s)"

lemma lock_invD:
  assumes "lock_inv node s"
  shows "managerMu s = Some g \<longleftrightarrow> goroutine s g = InManager"
    and "goroutine s g = Waiting a \<Longrightarrow> map_of (nodeMutexes s) (node g) = Some a"
    and "goroutine s g = Holding a \<Longrightarrow> map_of (nodeMutexes s) (node g) = Some a"
    and "holder s a = Some g \<longleftrightarrow> goroutine s g = Holding a"
    and "map_of (nodeMutexes s) x = Some a \<Longrightarrow> map_of (nodeMutexes s) y = Some a \<Longrightarrow> x = y"
    and "map_of (nodeMutexes s) x = Some a \<Longrightarrow> a < nextMutex s"
  using assms unfolding lock_inv_def by blast+

lemma lock_invI:
  assumes "\<And>g. managerMu s = Some g \<longleftrightarrow> goroutine s g = InManager"
    and "\<And>g a. goroutine s g = Waiting a \<or> goroutine s g = Holding a \<Longrightarrow> map_of (nodeMutexes s) (node g) = Some a"
    and "\<And>g a. holder s a = Some g \<longleftrightarrow> goroutine s g = Holding a"
    and "\<And>x y a. map_of (nodeMutexes s) x = Some a \<Longrightarrow> map_of (nodeMutexes s) y = Some a \<Longrightarrow> x = y"
    and "\<And>x a. map_of (nodeMutexes s) x = Some a \<Longrightarrow> a < nextMutex s"
  shows "lock_inv node s"
  using assms unfolding lock_inv_def by blast

lemma getLock_inv:
  assumes "lock_inv node s" "getLock x s = (a, s')"
  shows "lock_inv node s'" "map_of (nodeMutexes s') x = Some a" "goroutine s' = goroutine s" "managerMu s' = managerMu s" "holder s' = holder s"
proof -
  show "map_of (nodeMutexes s') x = Some a" "goroutine s' = goroutine s" "managerMu s' = managerMu s" "holder s' = holder s"
    using assms(2) by (auto simp: getLock_def map_of_assoc_update split: option.splits)
  show "lock_inv node s'"
  proof (cases "map_of (nodeMutexes s) x")
    case None
    have fresh: "map_of (nodeMutexes s) y \<noteq> Some (nextMutex s)" for y using lock_invD(6) [OF assms(1)] by blast
    have s': "s' = s\<lparr>nodeMutexes := assoc_update x (nextMutex s) (nodeMutexes s), nextMutex := Suc (nextMutex s)\<rparr>"
      using assms(2) None by (auto simp: getLock_def)
    have kept: "map_of (nodeMutexes s) (node g) = Some b \<Longrightarrow> map_of (nodeMutexes s') (node g) = Some b" for g b
      using None by (auto simp: s' map_of_assoc_update)
    show ?thesis
      unfolding lock_inv_def
    proof (intro conjI allI impI)
      fix g b assume "goroutine s' g = Waiting b \<or> goroutine s' g = Holding b"
      then show "map_of (nodeMutexes s') (node g) = Some b"
        using lock_invD(2,3) [OF assms(1)] by (intro kept) (auto simp: s')
    qed (use lock_invD [OF assms(1)] fresh in \<open>auto simp: s' map_of_assoc_update less_Suc_eq split: if_splits\<close>)
  qed (use assms in \<open>simp add: getLock_def\<close>)
qed

lemma lock_step_inv: "lock_step node s s' \<Longrightarrow> lock_inv node s \<Longrightarrow> lock_inv node s'"
proof (induction rule: lock_step.induct)
  case (manager_lock s g)
  then show ?case by (auto simp: lock_inv_def goto_def)
next
  case (manager_unlock s g a s')
  note inv = getLock_inv [OF manager_unlock(3,2)]
  have "goroutine s' g = InManager" using inv(3) manager_unlock(1) by simp
  then show ?case using inv(1,2) unfolding lock_inv_def goto_def by (auto split: if_splits) (metis option.inject)+
next
  case (node_lock s g a)
  note inv = lock_invD [OF node_lock(3)]
  have free: "goroutine s h \<noteq> Holding a" for h using inv(4) [of a h] node_lock(2) by simp
  show ?case
  proof (rule lock_invI)
    show "managerMu (goto g (Holding a) (s\<lparr>holder := (holder s)(a := Some g)\<rparr>)) = Some h
      \<longleftrightarrow> goroutine (goto g (Holding a) (s\<lparr>holder := (holder s)(a := Some g)\<rparr>)) h = InManager" for h
      using inv(1) [of h] node_lock(1) by (auto simp: goto_def)
    show "holder (goto g (Holding a) (s\<lparr>holder := (holder s)(a := Some g)\<rparr>)) b = Some h
      \<longleftrightarrow> goroutine (goto g (Holding a) (s\<lparr>holder := (holder s)(a := Some g)\<rparr>)) h = Holding b" for h b
      using inv(4) [of b h] free [of h] node_lock(1) by (auto simp: goto_def)
  qed (use inv(2,3,5,6) node_lock(1) in \<open>simp_all add: goto_def split: if_splits, blast+\<close>)
next
  case (node_unlock s g a)
  note inv = lock_invD [OF node_unlock(2)]
  have only: "h = g" if "goroutine s h = Holding a" for h
    using inv(4) [of a] node_unlock(1) that by (metis option.inject)
  show ?case
  proof (rule lock_invI)
    show "managerMu (goto g Returned (s\<lparr>holder := (holder s)(a := None)\<rparr>)) = Some h
      \<longleftrightarrow> goroutine (goto g Returned (s\<lparr>holder := (holder s)(a := None)\<rparr>)) h = InManager" for h
      using inv(1) [of h] node_unlock(1) by (auto simp: goto_def)
    show "holder (goto g Returned (s\<lparr>holder := (holder s)(a := None)\<rparr>)) b = Some h
      \<longleftrightarrow> goroutine (goto g Returned (s\<lparr>holder := (holder s)(a := None)\<rparr>)) h = Holding b" for h b
    proof (cases "h = g")
      case False
      then have "goroutine s h \<noteq> Holding a" using only by blast
      with False inv(4) [of b h] show ?thesis by (cases "b = a") (simp_all add: goto_def)
    qed (use inv(4) [of b g] node_unlock(1) in \<open>simp add: goto_def\<close>)
  qed (use inv(2,3,5,6) in \<open>simp_all add: goto_def split: if_splits, blast+\<close>)
qed

lemma lock_run_inv: "lock_run node n k s \<Longrightarrow> lock_inv node s"
proof (induction rule: lock_run.induct)
  case lock_start
  show ?case by (simp add: lock_inv_def newNodeLockManager_def)
qed (rule lock_step_inv)

section \<open>Exclusion\<close>

text \<open>C36: releases exclude each other per node and only per node. In every state that concurrent calls can
  reach, two calls that hold their mutex are for different nodes, and a call that waits for its mutex waits
  for one that is held, if at all, by a call for the same node: a slow API server answer for one node
  never delays the release of the lock of another.\<close>

theorem node_locks_exclude:
  assumes "lock_run node n k s"
  shows "(goroutine s g = Holding a \<and> goroutine s h = Holding b \<and> g \<noteq> h \<longrightarrow> node g \<noteq> node h)
    \<and> (goroutine s g = Waiting a \<and> holder s a = Some h \<longrightarrow> node h = node g \<and> goroutine s h = Holding a)"
proof (intro conjI impI; elim conjE)
  note inv = lock_run_inv [OF assms]
  { assume that: "goroutine s g = Holding a" "goroutine s h = Holding b" "g \<noteq> h"
    show "node g \<noteq> node h"
    proof
      assume "node g = node h"
      then have "a = b" using lock_invD(3) [OF inv that(1)] lock_invD(3) [OF inv that(2)] by simp
      then have "holder s a = Some g" "holder s a = Some h" using lock_invD(4) [OF inv] that(1,2) by simp_all
      with that(3) show False by simp
    qed }
  assume that: "goroutine s g = Waiting a" "holder s a = Some h"
  show h: "goroutine s h = Holding a" using lock_invD(4) [OF inv] that(2) by simp
  show "node h = node g" using lock_invD(3) [OF inv h] lock_invD(2) [OF inv that(1)] lock_invD(5) [OF inv] by blast
qed

text \<open>One call holds the mutex of a node while another waits for it.\<close>

lemma busy_node:
  "\<exists>s. lock_run (\<lambda>_. ''a'') 2 5 s \<and> goroutine s 0 = Holding 0 \<and> goroutine s 1 = Waiting 0 \<and> holder s 0 = Some 0"
proof -
  define s0 where "s0 = newNodeLockManager 2"
  define s1 where "s1 = goto 0 InManager (s0\<lparr>managerMu := Some 0\<rparr>)"
  define s2 where "s2 = goto 0 (Waiting 0) ((snd (getLock ''a'' s1))\<lparr>managerMu := None\<rparr>)"
  define s3 where "s3 = goto 0 (Holding 0) (s2\<lparr>holder := (holder s2)(0 := Some 0)\<rparr>)"
  define s4 where "s4 = goto 1 InManager (s3\<lparr>managerMu := Some 1\<rparr>)"
  define s5 where "s5 = goto 1 (Waiting 0) ((snd (getLock ''a'' s4))\<lparr>managerMu := None\<rparr>)"
  note states = s0_def s1_def s2_def s3_def s4_def s5_def newNodeLockManager_def goto_def getLock_def
  have "lock_run (\<lambda>_. ''a'') 2 0 s0" by (simp add: s0_def lock_start)
  moreover have "lock_step (\<lambda>_. ''a'') s0 s1" unfolding s1_def by (rule manager_lock) (simp_all add: states)
  moreover have "lock_step (\<lambda>_. ''a'') s1 s2" unfolding s2_def by (rule manager_unlock) (simp_all add: states)
  moreover have "lock_step (\<lambda>_. ''a'') s2 s3" unfolding s3_def by (rule node_lock) (simp_all add: states)
  moreover have "lock_step (\<lambda>_. ''a'') s3 s4" unfolding s4_def by (rule manager_lock) (simp_all add: states)
  moreover have "lock_step (\<lambda>_. ''a'') s4 s5" unfolding s5_def by (rule manager_unlock) (simp_all add: states)
  ultimately have "lock_run (\<lambda>_. ''a'') 2 (Suc (Suc (Suc (Suc (Suc 0))))) s5" by (blast intro: lock_next)
  then show ?thesis by (intro exI [of _ s5]) (simp add: eval_nat_numeral, simp add: states)
qed

theorem node_locks_exclude_witness:
  "\<exists>s. lock_run (\<lambda>_. ''a'') 2 5 s \<and> goroutine s 1 = Waiting 0 \<and> goroutine s 0 = Holding 0"
proof -
  obtain s where s: "lock_run (\<lambda>_. ''a'') 2 5 s" "goroutine s 1 = Waiting 0" "holder s 0 = Some 0" using busy_node by blast
  have "goroutine s 0 = Holding 0" using node_locks_exclude [OF s(1), of 1 0 0] s(2,3) by blast
  with s show ?thesis by blast
qed

section \<open>Progress\<close>

fun rank :: "lock_pc \<Rightarrow> nat" where
  "rank Entry = 0"
| "rank InManager = 1"
| "rank (Waiting a) = 2"
| "rank (Holding a) = 3"
| "rank Returned = 4"

definition progress :: "nat \<Rightarrow> lock_state \<Rightarrow> nat" where
  "progress n s = (\<Sum>g < n. rank (goroutine s g))"

lemma lock_step_one:
  assumes "lock_step node s s'"
  shows "\<exists>g pc. goroutine s' = (goroutine s)(g := pc) \<and> goroutine s g \<noteq> Returned \<and> rank pc = Suc (rank (goroutine s g))"
  using assms by (cases rule: lock_stepE) (auto simp: goto_def getLock_def split: option.splits intro!: exI)

lemma sum_update:
  assumes "g < n" "(f' :: nat \<Rightarrow> nat) g = Suc (f g)" "\<And>h. h \<noteq> g \<Longrightarrow> f' h = f h"
  shows "(\<Sum>h < n. f' h) = Suc (\<Sum>h < n. f h)"
proof -
  have "(\<Sum>h \<in> {..<n} - {g}. f' h) = (\<Sum>h \<in> {..<n} - {g}. f h)" using assms(3) by (intro sum.cong) auto
  then show ?thesis using assms(1,2) by (simp add: sum.remove [of "{..<n}" g])
qed

lemma lock_run_progress: "lock_run node n k s \<Longrightarrow> progress n s = k \<and> (\<forall>g \<ge> n. goroutine s g = Returned)"
proof (induction rule: lock_run.induct)
  case lock_start
  then show ?case by (simp add: progress_def newNodeLockManager_def)
next
  case (lock_next k s s')
  obtain g pc where g: "goroutine s' = (goroutine s)(g := pc)" "goroutine s g \<noteq> Returned" "rank pc = Suc (rank (goroutine s g))"
    using lock_step_one [OF lock_next(2)] by blast
  then have "g < n" using lock_next(3) not_le by blast
  then have "progress n s' = Suc (progress n s)"
    unfolding progress_def using g by (intro sum_update [where g = g]) auto
  with lock_next(3) g(1) \<open>g < n\<close> show ?case by auto
qed

lemma rank_le: "rank pc \<le> 4" "rank pc = 4 \<longleftrightarrow> pc = Returned"
  by (cases pc; simp)+

lemma lock_step_possible:
  assumes "lock_inv node s" "goroutine s g \<noteq> Returned"
  shows "\<exists>s'. lock_step node s s'"
proof (cases "managerMu s")
  case (Some h)
  then have "goroutine s h = InManager" using lock_invD(1) [OF assms(1)] by simp
  then show ?thesis using manager_unlock by (metis surj_pair)
next
  case None
  show ?thesis
  proof (cases "goroutine s g")
    case (Waiting a)
    show ?thesis
    proof (cases "holder s a")
      case (Some h)
      then have "goroutine s h = Holding a" using lock_invD(4) [OF assms(1)] by simp
      then show ?thesis using node_unlock by blast
    qed (use Waiting node_lock in blast)
  next
    case InManager
    then show ?thesis using manager_unlock by (metis surj_pair)
  qed (use None assms(2) manager_lock node_unlock in blast)+
qed

text \<open>C37: every call returns. However the calls are scheduled, \<open>n\<close> calls take at most \<open>4 * n\<close> steps, some call
  can make a step as long as one has not returned, and when no step is left all have returned: the two
  levels of mutexes cannot deadlock.\<close>

theorem node_locks_return:
  assumes "lock_run node n k s"
  shows "k \<le> 4 * n \<and> ((\<exists>g. goroutine s g \<noteq> Returned) \<longleftrightarrow> (\<exists>s'. lock_step node s s'))
    \<and> ((\<forall>g. goroutine s g = Returned) \<longleftrightarrow> k = 4 * n)"
proof -
  note p = lock_run_progress [OF assms]
  have le: "progress n s \<le> 4 * n"
    unfolding progress_def using sum_bounded_above [of "{..<n}" "\<lambda>g. rank (goroutine s g)" 4] rank_le(1) by (simp add: mult.commute)
  have "(\<exists>g. goroutine s g \<noteq> Returned) \<longleftrightarrow> (\<exists>s'. lock_step node s s')"
    using lock_step_possible [OF lock_run_inv [OF assms]] lock_step_one by blast
  moreover have "(\<forall>g. goroutine s g = Returned) \<longleftrightarrow> k = 4 * n"
  proof
    assume "\<forall>g. goroutine s g = Returned"
    then show "k = 4 * n" using p by (simp add: progress_def)
  next
    assume k: "k = 4 * n"
    have "rank (goroutine s g) = 4" if "g < n" for g
    proof (rule ccontr)
      assume "rank (goroutine s g) \<noteq> 4"
      then have "rank (goroutine s g) < 4" using rank_le(1) le_neq_implies_less by blast
      then have "progress n s < (\<Sum>g < n. 4)"
        unfolding progress_def using that by (intro sum_strict_mono_ex1) (auto intro: rank_le)
      with p k show False by simp
    qed
    with p show "\<forall>g. goroutine s g = Returned" using rank_le(2) not_less by blast
  qed
  ultimately show ?thesis using le p by blast
qed

theorem node_locks_return_witness:
  "\<exists>s. lock_run (\<lambda>_. ''a'') 2 5 s \<and> goroutine s 1 = Waiting 0 \<and> (\<exists>s'. lock_step (\<lambda>_. ''a'') s s')"
proof -
  obtain s where s: "lock_run (\<lambda>_. ''a'') 2 5 s" "goroutine s 1 = Waiting 0" using busy_node by blast
  then have "goroutine s 1 \<noteq> Returned" by simp
  then have "\<exists>s'. lock_step (\<lambda>_. ''a'') s s'" using node_locks_return [OF s(1)] by blast
  with s show ?thesis by blast
qed

end
