(* ===== verification/Client.thy ===== *)
theory Client
  imports Complex_Main Sysfs
begin

text \<open>
  The client of the API server that a process shares, \<open>internal/pkg/utils/client.go\<close> and \<open>options.go\<close>: which
  kubeconfig is read, the rates of its requests and the initialisation that happens once. Loading a configuration and
  building a client are calls of client-go and so parameters; \<open>'c\<close> is what a configuration holds
  beside the rates, which are only compared with zero and copied.
\<close>

section \<open>Options\<close>

record 'c rest_config =
  Host_config :: 'c
  QPS :: rat
  Burst :: int

type_synonym 'c client_option = "'c rest_config \<Rightarrow> 'c rest_config"

text \<open>The default rates are constants of client-go.\<close>

definition WithDefaults :: "rat \<Rightarrow> int \<Rightarrow> 'c client_option" where
  "WithDefaults defaultQPS defaultBurst c =
     (let c1 = (if QPS c = 0 then c\<lparr>QPS := defaultQPS\<rparr> else c)
      in if Burst c1 = 0 then c1\<lparr>Burst := defaultBurst\<rparr> else c1)"

section \<open>The kubeconfig\<close>

type_synonym ('e, 'c) load = "('e, 'c rest_config) result"

definition kubeConfigPath :: "(string \<Rightarrow> string) \<Rightarrow> string" where
  "kubeConfigPath env =
     (if env ''KUBECONFIG'' = [] then path_Join [env ''HOME'', ''.kube'', ''config''] else env ''KUBECONFIG'')"

definition loadKubeConfig :: "(string \<Rightarrow> string) \<Rightarrow> (string \<Rightarrow> ('e, 'c) load) \<Rightarrow> ('e, 'c) load \<Rightarrow> ('e, 'c) load" where
  "loadKubeConfig env buildConfigFromFlags inClusterConfig =
     (case buildConfigFromFlags (kubeConfigPath env) of Inl _ \<Rightarrow> inClusterConfig | Inr c \<Rightarrow> Inr c)"

section \<open>The client\<close>

datatype 'e client_error = KubeconfigFailed 'e | ClientFailed 'e

record ('e, 'c, 'k) client_env =
  CE_env :: "string \<Rightarrow> string"
  CE_build :: "string \<Rightarrow> ('e, 'c) load"
  CE_inCluster :: "('e, 'c) load"
  CE_newForConfig :: "'c rest_config \<Rightarrow> ('e, 'k) result"
  CE_defaultQPS :: rat
  CE_defaultBurst :: int

definition NewClient :: "('e, 'c, 'k) client_env \<Rightarrow> 'c client_option list \<Rightarrow> ('e client_error, 'k) result" where
  "NewClient E opts =
     (case loadKubeConfig (CE_env E) (CE_build E) (CE_inCluster E) of
        Inl e \<Rightarrow> Inl (KubeconfigFailed e)
      | Inr restConfig \<Rightarrow>
          (case CE_newForConfig E (fold (\<lambda>opt c. opt c) opts (WithDefaults (CE_defaultQPS E) (CE_defaultBurst E) restConfig)) of
             Inl e \<Rightarrow> Inl (ClientFailed e)
           | Inr clientset \<Rightarrow> Inr clientset))"

text \<open>\<open>once\<close> and \<open>KubeClient\<close> of the package.\<close>

record 'k client_state =
  OnceDone :: bool
  KubeClient :: "'k option"

definition initial_client :: "'k client_state" where
  "initial_client = \<lparr>OnceDone = False, KubeClient = None\<rparr>"

definition GetClient :: "'k client_state \<Rightarrow> 'k option" where
  "GetClient s = KubeClient s"

text \<open>\<open>None\<close> is the end of the process by \<open>klog.Fatalf\<close>.\<close>

definition InitGlobalClient :: "('e, 'c, 'k) client_env \<Rightarrow> 'c client_option list \<Rightarrow> 'k client_state \<Rightarrow> 'k client_state option" where
  "InitGlobalClient E opts s =
     (if OnceDone s then Some s
      else case NewClient E opts of
        Inl _ \<Rightarrow> None
      | Inr clientset \<Rightarrow> Some (s\<lparr>OnceDone := True, KubeClient := Some clientset\<rparr>))"

fun init_all :: "(('e, 'c, 'k) client_env \<times> 'c client_option list) list \<Rightarrow> 'k client_state \<Rightarrow> 'k client_state option" where
  "init_all [] s = Some s"
| "init_all ((E, opts) # calls) s =
     (case InitGlobalClient E opts s of None \<Rightarrow> None | Some s1 \<Rightarrow> init_all calls s1)"

section \<open>One client per process\<close>

text \<open>The rates of a request are never zero unless an option or the defaults say so.\<close>

lemma WithDefaults_rates:
  "QPS (WithDefaults q b c) = (if QPS c = 0 then q else QPS c)" "Burst (WithDefaults q b c) = (if Burst c = 0 then b else Burst c)"
  "Host_config (WithDefaults q b c) = Host_config c"
  by (simp_all add: WithDefaults_def Let_def)

lemma WithDefaults_idem: "WithDefaults q b (WithDefaults q b c) = WithDefaults q b c"
  by (simp add: WithDefaults_def Let_def)

lemma init_all_done: "OnceDone s \<Longrightarrow> init_all calls s = Some s"
  by (induction calls) (auto simp: InitGlobalClient_def)

text \<open>Whatever the later calls ask for, the process keeps the client of the first, which every user then gets.\<close>

lemma first_client_stays:
  "init_all ((E, opts) # calls) initial_client = Some s \<longleftrightarrow>
     (\<exists>k. NewClient E opts = Inr k \<and> s = \<lparr>OnceDone = True, KubeClient = Some k\<rparr>)"
  by (auto simp: InitGlobalClient_def initial_client_def init_all_done split: sum.splits)

lemma GetClient_after_init:
  assumes "init_all ((E, opts) # calls) initial_client = Some s"
  shows "\<exists>k. GetClient s = Some k \<and> NewClient E opts = Inr k"
  using assms unfolding first_client_stays by (auto simp: GetClient_def)

end
