(* ===== verification/Spec2Isabelle.thy ===== *)
theory Spec2Isabelle
  imports AllocateRuns Registered Preferred Startup LabellerRun Libcheck Caps Monitor NodeLocks Client
begin

text \<open>
  A model of the AMD GPU device plugin of Project HAMi, of its node labeller and of its vGPU monitor, with the
  theorems that make them correct. Paths below are relative to \<open>src/\<close>.

  \<^bold>\<open>The program.\<close> The device plugin runs on every node. At start (\<open>cmd/k8s-device-plugin/main.go\<close>) it discovers the
  GPUs (\<open>internal/pkg/amdgpu\<close>, with \<open>internal/pkg/amdsmi\<close> for UUIDs, names and partition profiles),
  announces resources to kubelet and registers the GPUs in an annotation of the node
  (\<open>internal/pkg/plugin/plugin.go\<close>), which the HAMi scheduler reads. The scheduler writes the devices it chose
  into annotations of the pod and takes a lock in an annotation of the node; kubelet then calls
  \<open>Allocate\<close>, which serves the slot of the container, gives out compute units (CUs) by a bitmap
  (\<open>internal/pkg/cuallocation\<close>), sets the memory limits (the hook, and the dmem cgroup, \<open>internal/pkg/dmem\<close>),
  records the CUs in the pod and releases the lock (\<open>internal/pkg/utils\<close>). The monitor
  (\<open>internal/pkg/vgpumonitor\<close>) reads the registration and the cgroups back as metrics, the labeller
  (\<open>cmd/k8s-node-labeller\<close>) keeps labels of the node up to date.

  \<^bold>\<open>Theories.\<close> Each holds the data and operations of its part, in the order of the code, then its lemmas.
  \<^item> \<open>Prelude\<close>: results with an error, and what the sources use of Go's \<open>strings\<close> and \<open>strconv\<close>;
    \<open>GoTime\<close> (RFC 3339), \<open>Json\<close> (maps of strings), \<open>JsonValue\<close> (any JSON value, and the list of registered
    devices), \<open>GoFloat\<close> (\<open>float64\<close>, \<open>ParseFloat\<close>), \<open>Sysfs\<close> (\<open>path/filepath\<close>, property files).
  \<^item> \<open>CuAllocation\<close>: \<open>cuallocation.go\<close>, words of 64 bits; the abstraction \<open>cus\<close> is the set of allocated CUs, the locale
    \<open>cu_bitmap\<close> the interface the occupancy relies on. \<open>IdList\<close>: the text of a bitmap.
  \<^item> \<open>Annotations\<close>: the device slots of a pod (\<open>types.go\<close>). \<open>Kube\<close>: pods, nodes, the node lock
    (\<open>utils.go\<close>, \<open>nodelocks.go\<close>) over an API server that is a parameter, with a log of the calls.
    \<open>NodeLocks\<close>: the mutexes of the process as a step relation over concurrent calls, and the lock timeout.
  \<^item> \<open>DeviceIds\<close>: the state of the plugin, the devices listed to kubelet and the resolution of their ids.
    \<open>Occupancy\<close>: the occupancy rebuilt from the pods of the node. \<open>Allocate\<close>: the handler; its proofs are in
    \<open>AllocateCU\<close> (what is given out), \<open>AllocateLog\<close> (what is sent to the API server) and \<open>AllocateRuns\<close> (whole runs).
    \<open>Dmem\<close>: the dmem cgroup, as the plugin writes it and the monitor reads it.
  \<^item> \<open>Allocator\<close>, \<open>AllocatorSets\<close>, \<open>AllocatorPolicy\<close>: preferred allocations (\<open>internal/pkg/allocator\<close>). \<open>Preferred\<close>: the
    contract of the interface \<open>Policy\<close> as the locale \<open>allocation_policy\<close>, interpreted by the policies of the code.
  \<^item> \<open>Amdgpu\<close>, \<open>Discovery\<close>: discovery and its proofs. \<open>Amdsmi\<close>: lookups by PCI address; the locale
    \<open>static_lookup\<close> is what the cache expects of a lookup, interpreted by the three lookups. \<open>Health\<close>: the exporter, the
    stream of device lists, the health Events. \<open>Registration\<close>, \<open>Registered\<close>: \<open>getAPIDevices\<close>, \<open>xgmi.go\<close> and their proofs.
    \<open>Registrar\<close>: one pass of the registration and its loop (\<open>plugin.go\<close>, \<open>health_events.go\<close>).
  \<^item> \<open>Service\<close>: options, \<open>Start\<close>, the CDI spec (\<open>cdi.go\<close>), \<open>ListAndWatch\<close>. \<open>Startup\<close>: the flags, the announcement, \<open>Discover\<close>,
    heartbeats. \<open>Offered\<close>: the ids of all resources together.
  \<^item> \<open>Labeller\<close>: the label generators and the reconciler; \<open>LabellerRun\<close>: its start and the events of the watch.
    \<open>Libcheck\<close>: the C library of an image (\<open>internal/pkg/libcheck\<close>).
  \<^item> \<open>Collector\<close>: the walk over the cgroups and the metrics. \<open>Monitor\<close>: their descriptions and the server of the monitor
    (\<open>cmd/k8s-vgpu-monitor\<close>). \<open>Caps\<close>: the caps of the plugin against the limits of the monitor. \<open>Client\<close>: the
    client that a process shares (\<open>client.go\<close>, \<open>options.go\<close>).

  \<^bold>\<open>Correspondence.\<close> Definitions have the names of the Go functions and types where Isabelle allows it; a loop or a block
  of a long function is a definition of its own, named after what it does. A struct is a record, an error return is \<open>Inl\<close>, a
  panic is a value (\<open>APanic\<close>, \<open>IndexPanic\<close>, \<open>StartPanic\<close>, or \<open>None\<close> where the text says so). A map is an association
  list with distinct keys, in an order that stands for the order of the iteration; theorems hold for every such
  order. Code that changes the API server is in a state monad over a type variable.

  \<^bold>\<open>What is shown.\<close>
  \<^item> CUs are exclusive: first fit over whole units (\<open>CuAllocation\<close>), the rebuild succeeds exactly when no two pods overlap
    (\<open>Occupancy\<close>), what \<open>Allocate\<close> gives out is disjoint from all holders and keeps the node consistent
    (\<open>AllocateCU\<close>, \<open>AllocateRuns\<close>), and is written once and only under the pod's own lock (\<open>AllocateRuns\<close>).
  \<^item> Failures are reported and the lock is released, bound to the version that was read, in at most five attempts
    (\<open>AllocateRuns\<close>, \<open>Kube\<close>); releases cannot deadlock and exclude each other per node only (\<open>NodeLocks\<close>).
  \<^item> Texts read back as what was written: ID lists, slots, kubelet ids, registered devices, cgroup paths and limits.
  \<^item> What is registered exists, resolves and agrees with the lists sent to kubelet (\<open>Registered\<close>, \<open>Offered\<close>), and what is
    offered can be preferred (\<open>Preferred\<close>). Health Events report every change once, also when passes fail
    (\<open>Health\<close>, \<open>Registrar\<close>).
  \<^item> Labels of the own node, and of no other, never linger, and they are valid (\<open>LabellerRun\<close>, \<open>Labeller\<close>); an image counts as
    protected only on proof, and is pulled by one goroutine at a time (\<open>Libcheck\<close>).
  \<^item> The metrics never repeat a series, are all described, and come from the registered GPUs (\<open>Collector\<close>, \<open>Monitor\<close>); the monitor
    ends unless its informer never answers, and cleanly. \<open>Caps\<close> shows two defects: the limits of the metrics are not the caps,
    and the containers of a pod overwrite each other's cap.

  \<^bold>\<open>Bounds and fuel.\<close> Numbers read from text keep the range check of their Go type; arithmetic on Go \<open>int\<close> is unbounded except
  where a conversion or a wrap is written out (\<open>int32_of\<close>, \<open>int64_of\<close>, the words of the bitmap). The retry of the node lock has five
  attempts and the cap of a pod nine, as in the code; a path inside an image follows 40 links, as in the code. The JSON
  parser has the fuel \<open>2 * length + 2\<close> and durations the length of the text; \<open>parse_enough\<close> and
  \<open>duration_parts_enough\<close> show that more changes nothing. The search for a preferred allocation is shown for at most 6000 devices.

  \<^bold>\<open>Parameters.\<close> The API server, the files, globs and stat, libdrm, the AMD SMI library and its C glue, the answer of the
  exporter, containerd's \<open>ctr\<close>, which file operation of the CDI spec fails, the order \<open>sort.Slice\<close> leaves equal elements in, and
  the order of map iterations.

  \<^bold>\<open>Not modelled.\<close> The vendored libraries, the generated client of the metrics service and the cgo binding of hwloc, which
  prints versions. Of client-go, controller-runtime, the device plugin manager, prometheus and \<open>net/http\<close> only what their
  calls answer is modelled. Flag parsing, sleeping and log texts have no effect on the state; the read-write locks of the
  plugin and the mutexes of AMD SMI are left out, since each guarded block is one step of the model.
\<close>

end
